(* ===== verification/Prelude.thy ===== *)
theory Prelude
  imports Complex_Main "HOL-Library.Word" "HOL-Library.List_Lexorder" "HOL-Library.Char_ord"
    "HOL-Library.Sublist"
begin

text \<open>
  What the components share: byte strings and the operations of the C++ standard library on
  them (\<open>find\<close>, \<open>substr\<close>, \<open>std::to_string\<close>, \<open>std::from_chars\<close>, \<open>std::stoll\<close>,
  \<open>std::hex\<close>, \<open>isspace\<close> and its kin in the "C" locale), the machine integers whose
  overflow is undefined, the result type of code that can run into undefined behaviour, and
  the generic lemmas about them.

  A \<open>std::string\<close>, \<open>std::string_view\<close>, \<open>std::vector<char>\<close> and
  \<open>std::vector<uint8_t>\<close> is a \<open>string\<close>, one \<open>char\<close> per byte.  The order of
  \<open>HOL-Library.List_Lexorder\<close> over \<open>HOL-Library.Char_ord\<close> is the order of
  \<open>std::string::compare\<close> and of \<open>memcmp\<close>: bytes compare as unsigned numbers and a proper
  prefix comes first.
\<close>

named_theorems string_lemmas \<open>facts about searching and cutting strings\<close>
named_theorems number_lemmas \<open>facts about printing and reading numbers\<close>

unbundle bit_operations_syntax

type_synonym bytes = string

section \<open>Undefined behaviour\<close>

text \<open>
  Code that can run into undefined behaviour returns a sum: \<open>Inl\<close> names the reason,
  \<open>Inr\<close> carries the result of an execution that stays defined.
\<close>

datatype ub = SignedOverflow | FloatOutOfRange | UseAfterFree | IndexOutOfRange | InvalidDistribution

definition in_i32 :: "int \<Rightarrow> bool" where
  "in_i32 x \<longleftrightarrow> - (2 ^ 31) \<le> x \<and> x < 2 ^ 31"

definition in_i64 :: "int \<Rightarrow> bool" where
  "in_i64 x \<longleftrightarrow> - (2 ^ 63) \<le> x \<and> x < 2 ^ 63"

definition i32_add :: "int \<Rightarrow> int \<Rightarrow> ub + int" where
  "i32_add a b = (if in_i32 (a + b) then Inr (a + b) else Inl SignedOverflow)"

definition i32_mul :: "int \<Rightarrow> int \<Rightarrow> ub + int" where
  "i32_mul a b = (if in_i32 (a * b) then Inr (a * b) else Inl SignedOverflow)"

text \<open>\<open>static_cast<int>\<close> of a \<open>size_t\<close>: the low 32 bits, read as two's complement.\<close>

definition size_to_i32 :: "nat \<Rightarrow> int" where
  "size_to_i32 n = sint (of_nat n :: 32 word)"

text \<open>\<open>static_cast<size_t>\<close> of an \<open>int\<close>: reduction modulo \<open>2 ^ 64\<close>.\<close>

definition i32_to_size :: "int \<Rightarrow> nat" where
  "i32_to_size x = nat (x mod 2 ^ 64)"

section \<open>Searching and cutting strings\<close>

text \<open>\<open>s.find(c)\<close>; \<open>None\<close> is \<open>npos\<close>.\<close>

fun find_char :: "char \<Rightarrow> string \<Rightarrow> nat option" where
  "find_char c [] = None"
| "find_char c (x # xs) = (if x = c then Some 0 else map_option Suc (find_char c xs))"

text \<open>\<open>s.find(c, pos)\<close>.\<close>

definition find_char_from :: "char \<Rightarrow> nat \<Rightarrow> string \<Rightarrow> nat option" where
  "find_char_from c p s = map_option (\<lambda>i. p + i) (find_char c (drop p s))"

text \<open>\<open>s.substr(pos, n)\<close> with \<open>pos\<close> in range.\<close>

definition substr :: "nat \<Rightarrow> nat \<Rightarrow> string \<Rightarrow> string" where
  "substr p n s = take n (drop p s)"

text \<open>\<open>s.rfind(p, 0) == 0\<close>.\<close>

definition starts_with :: "string \<Rightarrow> string \<Rightarrow> bool" where
  "starts_with p s \<longleftrightarrow> take (length p) s = p"

fun join :: "string \<Rightarrow> string list \<Rightarrow> string" where
  "join sep [] = []"
| "join sep [x] = x"
| "join sep (x # y # ys) = x @ sep @ join sep (y # ys)"

definition nl :: string where "nl = [CHR 0x0A]"

section \<open>Character classes of the "C" locale\<close>

definition isdigit :: "char \<Rightarrow> bool" where
  "isdigit c \<longleftrightarrow> 48 \<le> (of_char c :: nat) \<and> of_char c \<le> (57 :: nat)"

definition isupper :: "char \<Rightarrow> bool" where
  "isupper c \<longleftrightarrow> 65 \<le> (of_char c :: nat) \<and> of_char c \<le> (90 :: nat)"

definition islower :: "char \<Rightarrow> bool" where
  "islower c \<longleftrightarrow> 97 \<le> (of_char c :: nat) \<and> of_char c \<le> (122 :: nat)"

definition isalnum :: "char \<Rightarrow> bool" where
  "isalnum c \<longleftrightarrow> isdigit c \<or> isupper c \<or> islower c"

definition isspace :: "char \<Rightarrow> bool" where
  "isspace c \<longleftrightarrow> of_char c = (32 :: nat) \<or> 9 \<le> (of_char c :: nat) \<and> of_char c \<le> (13 :: nat)"

definition tolower :: "char \<Rightarrow> char" where
  "tolower c = (if isupper c then char_of (of_char c + 32 :: nat) else c)"

section \<open>Printing and reading numbers\<close>

definition digit_char :: "nat \<Rightarrow> char" where
  "digit_char n = char_of (48 + n)"

definition digit_val :: "char \<Rightarrow> nat" where
  "digit_val c = of_char c - 48"

fun nat_to_dec :: "nat \<Rightarrow> string" where
  "nat_to_dec n = (if n < 10 then [digit_char n] else nat_to_dec (n div 10) @ [digit_char (n mod 10)])"

declare nat_to_dec.simps [simp del]

text \<open>\<open>std::to_string\<close>, and \<open><<\<close> of an integer.\<close>

definition to_string :: "int \<Rightarrow> string" where
  "to_string i = (if i < 0 then CHR ''-'' # nat_to_dec (nat (- i)) else nat_to_dec (nat i))"

definition dec_value :: "string \<Rightarrow> nat" where
  "dec_value ds = foldl (\<lambda>a c. 10 * a + digit_val c) 0 ds"

text \<open>
  \<open>std::from_chars\<close> for \<open>std::int64_t\<close>: an optional minus sign and the longest run of
  digits; an empty run is \<open>errc::invalid_argument\<close>, a value out of range
  \<open>errc::result_out_of_range\<close>; what follows the digits is not looked at.
\<close>

definition from_chars_i64 :: "string \<Rightarrow> int option" where
  "from_chars_i64 s =
     (let neg = (case s of c # _ \<Rightarrow> c = CHR ''-'' | [] \<Rightarrow> False);
          ds = takeWhile isdigit (if neg then tl s else s);
          v = (if neg then - int (dec_value ds) else int (dec_value ds))
      in if ds = [] then None else if in_i64 v then Some v else None)"

text \<open>
  \<open>std::stoll\<close> (and \<open>std::stol\<close>, 64 bits wide here): white space, an optional sign and
  the longest run of digits; \<open>None\<close> is \<open>std::invalid_argument\<close> or
  \<open>std::out_of_range\<close>.
\<close>

definition sto_value :: "string \<Rightarrow> int option" where
  "sto_value s =
     (let t = dropWhile isspace s;
          neg = (case t of c # _ \<Rightarrow> c = CHR ''-'' | [] \<Rightarrow> False);
          sgn = (case t of c # _ \<Rightarrow> c = CHR ''-'' \<or> c = CHR ''+'' | [] \<Rightarrow> False);
          ds = takeWhile isdigit (if sgn then tl t else t)
      in if ds = [] then None
         else Some (if neg then - int (dec_value ds) else int (dec_value ds)))"

definition stoll :: "string \<Rightarrow> int option" where
  "stoll s = (case sto_value s of None \<Rightarrow> None | Some v \<Rightarrow> if in_i64 v then Some v else None)"

definition stoi :: "string \<Rightarrow> int option" where
  "stoi s = (case sto_value s of None \<Rightarrow> None | Some v \<Rightarrow> if in_i32 v then Some v else None)"

definition hex_digit :: "nat \<Rightarrow> char" where
  "hex_digit n = ''0123456789abcdef'' ! n"

text \<open>\<open>std::hex <<\<close> of an unsigned value, and the same with \<open>setw(w)\<close> and \<open>setfill('0')\<close>.\<close>

fun nat_to_hex :: "nat \<Rightarrow> string" where
  "nat_to_hex n = (if n < 16 then [hex_digit n] else nat_to_hex (n div 16) @ [hex_digit (n mod 16)])"

declare nat_to_hex.simps [simp del]

definition pad_left :: "nat \<Rightarrow> char \<Rightarrow> string \<Rightarrow> string" where
  "pad_left w c s = replicate (w - length s) c @ s"

section \<open>Lemmas: searching\<close>

lemma find_char_None_iff [simp]: "find_char c s = None \<longleftrightarrow> c \<notin> set s"
  by (induction s) auto

lemma find_char_notin [simp]: "c \<notin> set s \<Longrightarrow> find_char c s = None"
  by simp

lemma find_char_append [simp]:
  "c \<notin> set a \<Longrightarrow> find_char c (a @ c # b) = Some (length a)"
  by (induction a) auto

lemma find_char_SomeD:
  "find_char c s = Some i \<Longrightarrow> i < length s \<and> s ! i = c \<and> c \<notin> set (take i s)"
proof (induction s arbitrary: i)
  case (Cons x s)
  then show ?case by (cases i) (auto split: if_splits)
qed simp

lemma find_char_less_length [dest]: "find_char c s = Some i \<Longrightarrow> i < length s"
  by (simp add: find_char_SomeD)

lemma find_char_split:
  assumes "find_char c s = Some i"
  shows "s = take i s @ c # drop (Suc i) s"
  using find_char_SomeD [OF assms] id_take_nth_drop [of i s] by simp

lemma find_char_cases:
  obtains (absent) "find_char c s = None" "c \<notin> set s"
  | (found) a b where "s = a @ c # b" "c \<notin> set a" "find_char c s = Some (length a)"
proof (cases "find_char c s")
  case None
  with absent show thesis by simp
next
  case (Some i)
  then have "s = take i s @ c # drop (Suc i) s" "c \<notin> set (take i s)" "i < length s"
    using find_char_split find_char_SomeD by blast+
  with Some show thesis
    by (intro found [of "take i s" "drop (Suc i) s"]) (auto simp: min_def)
qed

lemma starts_with_append [simp]: "starts_with p (p @ s)"
  by (simp add: starts_with_def)

lemma starts_with_iff: "starts_with p s \<longleftrightarrow> (\<exists>t. s = p @ t)"
  unfolding starts_with_def by (metis append_eq_conv_conj)

lemma starts_with_Nil [simp]: "starts_with [] s"
  by (simp add: starts_with_def)

lemma drop_prefix_sep [simp]: "drop (Suc (length a)) (a @ c # b) = b"
  by simp

section \<open>Lemmas: numbers\<close>

lemma digit_char_props [simp]:
  assumes "n < 10"
  shows "isdigit (digit_char n)" and "digit_val (digit_char n) = n"
    and "of_char (digit_char n) = 48 + n"
  using assms by (simp_all add: isdigit_def digit_char_def digit_val_def)

lemma nat_to_dec_digits: "list_all isdigit (nat_to_dec n)"
proof (induction n rule: nat_to_dec.induct)
  case (1 n)
  then show ?case by (subst nat_to_dec.simps) auto
qed

lemma nat_to_dec_nonempty [simp]: "nat_to_dec n \<noteq> []"
  by (subst nat_to_dec.simps) simp

lemma set_nat_to_dec: "c \<in> set (nat_to_dec n) \<Longrightarrow> isdigit c"
  using nat_to_dec_digits [of n] by (simp add: list_all_iff)

lemma dec_value_nat_to_dec [number_lemmas]: "dec_value (nat_to_dec n) = n"
proof (induction n rule: nat_to_dec.induct)
  case (1 n)
  then show ?case
    by (subst nat_to_dec.simps) (auto simp: dec_value_def)
qed

lemma isdigit_chars [simp]:
  "\<not> isdigit CHR ''-''" "\<not> isdigit CHR ''+''" "\<not> isdigit CHR 0x00"
  "\<not> isdigit CHR '',''" "\<not> isdigit CHR ''/''" "\<not> isdigit CHR '' ''"
  by (simp_all add: isdigit_def)

lemma takeWhile_digits:
  "list_all isdigit ds \<Longrightarrow> r = [] \<or> \<not> isdigit (hd r) \<Longrightarrow> takeWhile isdigit (ds @ r) = ds"
  by (induction ds) (auto simp: takeWhile_eq_Nil_iff)

lemma hd_nat_to_dec_not_minus: "nat_to_dec n = c # cs \<Longrightarrow> c \<noteq> CHR ''-''"
  using set_nat_to_dec [of c n] by auto

text \<open>\<open>from_chars\<close> reads back what \<open>to_string\<close> wrote, whatever non-digit follows it.\<close>

lemma from_chars_to_string [number_lemmas]:
  assumes "in_i64 i" and "r = [] \<or> \<not> isdigit (hd r)"
  shows "from_chars_i64 (to_string i @ r) = Some i"
proof (cases "i < 0")
  case True
  then have tw: "takeWhile isdigit (nat_to_dec (nat (- i)) @ r) = nat_to_dec (nat (- i))"
    using takeWhile_digits [OF nat_to_dec_digits assms(2)] by blast
  show ?thesis
    using True assms(1) by (simp add: from_chars_i64_def to_string_def Let_def tw number_lemmas)
next
  case False
  obtain c cs where c: "nat_to_dec (nat i) = c # cs" "c \<noteq> CHR ''-''"
    using hd_nat_to_dec_not_minus by (meson nat_to_dec_nonempty neq_Nil_conv)
  have tw: "takeWhile isdigit (nat_to_dec (nat i) @ r) = nat_to_dec (nat i)"
    using takeWhile_digits [OF nat_to_dec_digits assms(2)] by blast
  then have tw': "takeWhile isdigit (c # cs @ r) = c # cs" by (simp add: c)
  have v: "dec_value (c # cs) = nat i"
    using dec_value_nat_to_dec [of "nat i"] by (simp add: c)
  show ?thesis
    using False assms(1) c
    by (simp add: from_chars_i64_def to_string_def Let_def tw' v del: takeWhile.simps)
qed

lemma to_string_nonempty [simp]: "to_string i \<noteq> []"
  by (simp add: to_string_def)

lemma set_to_string: "c \<in> set (to_string i) \<Longrightarrow> isdigit c \<or> c = CHR ''-''"
  by (auto simp: to_string_def set_nat_to_dec split: if_splits)

lemma NUL_notin_to_string [simp]: "CHR 0x00 \<notin> set (to_string i)"
  using set_to_string by fastforce

lemma size_to_i32_id [simp]: "int n < 2 ^ 31 \<Longrightarrow> size_to_i32 n = int n"
  by (simp add: size_to_i32_def sint_uint unsigned_of_nat signed_take_bit_int_eq_self take_bit_nat_eq_self)

lemma i32_to_size_nonneg [simp]: "0 \<le> x \<Longrightarrow> in_i32 x \<Longrightarrow> i32_to_size x = nat x"
  by (simp add: i32_to_size_def in_i32_def)

section \<open>Lemmas: joining\<close>

lemma join_append_single:
  "xs \<noteq> [] \<Longrightarrow> join sep (xs @ [x]) = join sep xs @ sep @ x"
  by (induction sep xs rule: join.induct) (auto simp: neq_Nil_conv)

lemma join_Cons: "ys \<noteq> [] \<Longrightarrow> join sep (x # ys) = x @ sep @ join sep ys"
  by (cases ys) auto

lemma append_sep_inject:
  fixes c :: char
  assumes "c \<notin> set a" "c \<notin> set a'"
  shows "a @ c # b = a' @ c # b' \<longleftrightarrow> a = a' \<and> b = b'"
proof
  assume eq: "a @ c # b = a' @ c # b'"
  have "find_char c (a @ c # b) = Some (length a)"
    and "find_char c (a' @ c # b') = Some (length a')"
    using assms by simp_all
  then have "length a = length a'" using eq by simp
  with eq show "a = a' \<and> b = b'" by simp
qed simp

text \<open>Joining with a separator that no part contains loses nothing.\<close>

lemma join_inject:
  assumes "join [c] xs = join [c] ys" "xs \<noteq> []" "ys \<noteq> []"
    "\<forall>x \<in> set xs. c \<notin> set x" "\<forall>y \<in> set ys. c \<notin> set y"
  shows "xs = ys"
  using assms
proof (induction xs arbitrary: ys)
  case (Cons x xs)
  obtain y ys' where ys: "ys = y # ys'" using Cons.prems(3) by (cases ys) auto
  show ?case
  proof (cases "xs = [] \<or> ys' = []")
    case True
    with Cons.prems ys show ?thesis
      by (cases "xs = []"; cases "ys' = []") (auto simp: join_Cons)
  next
    case False
    with Cons.prems ys have "x @ c # join [c] xs = y @ c # join [c] ys'"
      by (simp add: join_Cons)
    then have "x = y" "join [c] xs = join [c] ys'"
      using append_sep_inject [of c x y "join [c] xs" "join [c] ys'"] Cons.prems ys by auto
    with Cons.IH [of ys'] Cons.prems ys False show ?thesis by auto
  qed
qed simp

end
