(* ===== verification/Util.thy ===== *)
theory Util
  imports Prelude "HOL-Library.Product_Lexorder" "HOL-Library.Multiset"
begin

text \<open>
  The gateway's \<open>util.cpp\<close>: percent coding, query strings, white-space normalisation, hex and
  base64, digests and the constant-time comparison, in the order of the file.  OpenSSL is not
  part of the repository: what \<open>util.cpp\<close> calls of it is a record of functions, an argument of
  the definitions that use it.  Its calls get whole byte strings: the casts of their sizes to \<open>int\<close>
  in \<open>hmac_sha256\<close> and the base64 functions, which matter from 2 GiB on, are not represented.  The
  lemmas give the round trips of the coders and the canonical forms that request signing rests on.
\<close>

section \<open>Percent coding\<close>

definition hex_value :: "char \<Rightarrow> int" where
  "hex_value c =
     (let n = int (of_char c) in
      if 48 \<le> n \<and> n \<le> 57 then n - 48
      else if 97 \<le> n \<and> n \<le> 102 then 10 + (n - 97)
      else if 65 \<le> n \<and> n \<le> 70 then 10 + (n - 65)
      else - 1)"

fun percent_decode :: "string \<Rightarrow> string option" where
  "percent_decode [] = Some []"
| "percent_decode (c # s) =
     (if c = CHR ''%'' then
        (case s of
           h # l # rest \<Rightarrow>
             (let hi = hex_value h; lo = hex_value l in
              if hi < 0 \<or> lo < 0 then None
              else map_option (Cons (char_of (nat (push_bit 4 hi OR lo)))) (percent_decode rest))
         | _ \<Rightarrow> None)
      else map_option (Cons c) (percent_decode s))"

definition is_unreserved :: "char \<Rightarrow> bool" where
  "is_unreserved c \<longleftrightarrow>
     isalnum c \<or> c = CHR ''-'' \<or> c = CHR ''.'' \<or> c = CHR ''_'' \<or> c = CHR ''~''"

definition hex_upper :: "nat \<Rightarrow> char" where
  "hex_upper n = ''0123456789ABCDEF'' ! n"

definition percent_encode_char :: "bool \<Rightarrow> char \<Rightarrow> string" where
  "percent_encode_char encode_slash c =
     (if \<not> encode_slash \<and> c = CHR ''/'' then ''/''
      else if is_unreserved c then [c]
      else [CHR ''%'', hex_upper (drop_bit 4 (of_char c) AND 15), hex_upper (of_char c AND 15)])"

definition percent_encode :: "string \<Rightarrow> bool \<Rightarrow> string" where
  "percent_encode s encode_slash = concat (map (percent_encode_char encode_slash) s)"

section \<open>Query strings\<close>

text \<open>One \<open>k=v\<close> part: a side that does not decode is kept as it came.\<close>

definition decode_or_raw :: "string \<Rightarrow> string" where
  "decode_or_raw s = (case percent_decode s of Some d \<Rightarrow> d | None \<Rightarrow> s)"

definition parse_query_part :: "string \<Rightarrow> (string \<times> string) list" where
  "parse_query_part part =
     (if part = [] then []
      else let eq = find_char (CHR ''='') part;
               k = (case eq of None \<Rightarrow> part | Some i \<Rightarrow> take i part);
               v = (case eq of None \<Rightarrow> [] | Some i \<Rightarrow> drop (Suc i) part)
           in [(decode_or_raw k, decode_or_raw v)])"

text \<open>The loop of \<open>parse_query\<close>; its argument is what \<open>start\<close> has not passed yet.\<close>

function parse_query_loop :: "string \<Rightarrow> (string \<times> string) list" where
  "parse_query_loop q =
     (case find_char (CHR ''&'') q of
        None \<Rightarrow> parse_query_part q
      | Some amp \<Rightarrow> parse_query_part (take amp q) @ parse_query_loop (drop (Suc amp) q))"
  by pat_completeness auto
termination
  by (relation "measure length") (auto dest: find_char_less_length)

declare parse_query_loop.simps [simp del]

definition parse_query :: "string \<Rightarrow> (string \<times> string) list" where
  "parse_query q = (if q = [] then [] else parse_query_loop q)"

definition canonical_query_string :: "(string \<times> string) list \<Rightarrow> string option \<Rightarrow> string" where
  "canonical_query_string params exclude_key =
     (let p = filter (\<lambda>kv. exclude_key \<noteq> Some (fst kv)) params
      in join ''&'' (map (\<lambda>kv. percent_encode (fst kv) True @ ''='' @ percent_encode (snd kv) True)
           (sort p)))"

section \<open>White space\<close>

fun collapse_ws :: "bool \<Rightarrow> string \<Rightarrow> string" where
  "collapse_ws in_ws [] = []"
| "collapse_ws in_ws (c # s) =
     (if isspace c then (if in_ws then collapse_ws True s else CHR '' '' # collapse_ws True s)
      else c # collapse_ws False s)"

definition trim_ws :: "string \<Rightarrow> string" where
  "trim_ws s = rev (dropWhile isspace (rev (dropWhile isspace s)))"

definition trim_and_collapse_ws :: "string \<Rightarrow> string" where
  "trim_and_collapse_ws s = collapse_ws False (trim_ws s)"

section \<open>Digests, hex, base64\<close>

text \<open>
  What the file calls of OpenSSL: \<open>EVP_MD_CTX_new\<close> and the digest calls may fail
  (\<open>False\<close>, \<open>None\<close>); \<open>EVP_DigestFinal_ex\<close> yields the digest of what was fed in;
  \<open>HMAC\<close> yields the code or fails; \<open>EVP_EncodeBlock\<close> yields the text it wrote,
  \<open>EVP_DecodeBlock\<close> the bytes it wrote or a negative length (\<open>None\<close>).
\<close>

record 'md openssl =
  EVP_sha256 :: "'md option"
  EVP_md5 :: "'md option"
  EVP_MD_CTX_new :: bool
  EVP_DigestInit_ex :: "'md \<Rightarrow> bool"
  EVP_DigestUpdate :: "'md \<Rightarrow> bytes \<Rightarrow> bool"
  EVP_MD_size :: "'md \<Rightarrow> int"
  EVP_DigestFinal_ex :: "'md \<Rightarrow> bytes \<Rightarrow> bytes option"
  HMAC :: "'md option \<Rightarrow> bytes \<Rightarrow> bytes \<Rightarrow> bytes option"
  EVP_EncodeBlock :: "bytes \<Rightarrow> string"
  EVP_DecodeBlock :: "string \<Rightarrow> bytes option"

definition digest_bin :: "'md openssl \<Rightarrow> 'md option \<Rightarrow> bytes \<Rightarrow> bytes" where
  "digest_bin ssl mdo data =
     (case mdo of
        None \<Rightarrow> []
      | Some md \<Rightarrow>
          if \<not> EVP_MD_CTX_new ssl then []
          else if \<not> EVP_DigestInit_ex ssl md then []
          else if \<not> EVP_DigestUpdate ssl md data then []
          else if EVP_MD_size ssl md \<le> 0 then []
          else (case EVP_DigestFinal_ex ssl md data of None \<Rightarrow> [] | Some out \<Rightarrow> out))"

definition sha256_bin :: "'md openssl \<Rightarrow> bytes \<Rightarrow> bytes" where
  "sha256_bin ssl data = digest_bin ssl (EVP_sha256 ssl) data"

definition hex_lower :: "bytes \<Rightarrow> string" where
  "hex_lower bs =
     concat (map (\<lambda>b. [hex_digit (drop_bit 4 (of_char b) AND 15), hex_digit (of_char b AND 15)]) bs)"

definition sha256_hex :: "'md openssl \<Rightarrow> bytes \<Rightarrow> string" where
  "sha256_hex ssl data = hex_lower (sha256_bin ssl data)"

text \<open>
  A failing \<open>HMAC\<close> leaves the buffer and \<open>len\<close> as they were: \<open>EVP_MAX_MD_SIZE\<close> (64)
  zero bytes.
\<close>

definition hmac_sha256 :: "'md openssl \<Rightarrow> bytes \<Rightarrow> bytes \<Rightarrow> bytes" where
  "hmac_sha256 ssl key data =
     (case HMAC ssl (EVP_sha256 ssl) key data of
        Some out \<Rightarrow> out
      | None \<Rightarrow> replicate 64 (CHR 0x00))"

definition md5_hex :: "'md openssl \<Rightarrow> bytes \<Rightarrow> string" where
  "md5_hex ssl data = hex_lower (digest_bin ssl (EVP_md5 ssl) data)"

definition byte :: "char \<Rightarrow> 8 word" where
  "byte c = of_nat (of_char c)"

definition constant_time_equal :: "string \<Rightarrow> string \<Rightarrow> bool" where
  "constant_time_equal a b =
     (if length a \<noteq> length b then False
      else foldl (\<lambda>diff (x, y). diff OR (byte x XOR byte y)) 0 (zip a b) = (0 :: 8 word))"

definition base64_encode :: "'md openssl \<Rightarrow> bytes \<Rightarrow> string" where
  "base64_encode ssl s = EVP_EncodeBlock ssl s"

text \<open>
  \<open>EVP_DecodeBlock\<close> counts padding as zero bytes; the code takes them off again.  (A text
  that ends in \<open>=\<close> decodes to at least three bytes, so \<open>len - pad\<close> does not wrap.)
\<close>

definition base64_decode :: "'md openssl \<Rightarrow> string \<Rightarrow> bytes option" where
  "base64_decode ssl s =
     (case EVP_DecodeBlock ssl s of
        None \<Rightarrow> None
      | Some out \<Rightarrow>
          let pad = (if s \<noteq> [] \<and> last s = CHR ''='' then 1 else 0)
                  + (if 2 \<le> length s \<and> s ! (length s - 2) = CHR ''='' then 1 else (0 :: nat))
          in Some (take (length out - pad) out))"

section \<open>Lemmas: percent coding\<close>

lemma of_char_less_256 [simp]: "(of_char c :: nat) < 256"
  by (metis char_of_char mod_less_divisor of_char_of zero_less_numeral)

lemma nibble_cases:
  assumes "n < (16::nat)"
  shows "n \<in> {0, 1, 2, 3, 4, 5, 6, 7, 8, 9, 10, 11, 12, 13, 14, 15}"
  using assms by (simp; presburger)

lemma hex_value_hex_upper: "n < 16 \<Longrightarrow> hex_value (hex_upper n) = int n"
  by (drule nibble_cases) (auto simp: hex_value_def hex_upper_def)

lemma nibbles_of_char:
  "drop_bit 4 (of_char c) AND 15 = (of_char c :: nat) div 16"
  "of_char c AND 15 = (of_char c :: nat) mod 16"
proof -
  have mask: "x AND 15 = x mod 16" for x :: nat
    using take_bit_eq_mask [of 4 x] by (simp add: mask_eq_exp_minus_1 take_bit_eq_mod)
  have "(of_char c :: nat) div 16 < 16"
    using of_char_less_256 [of c] by (simp add: less_mult_imp_div_less)
  then show "drop_bit 4 (of_char c) AND 15 = (of_char c :: nat) div 16"
    by (simp add: mask drop_bit_eq_div)
  show "of_char c AND 15 = (of_char c :: nat) mod 16"
    by (rule mask)
qed

lemma push_or_nibbles: "n < 16 \<Longrightarrow> push_bit 4 (int m) OR int n = int (16 * m + n)"
  using concat_bit_eq [of 4 "int n" "int m"]
  by (simp add: concat_bit_def take_bit_int_eq_self push_bit_eq_mult or.commute)

lemma decode_nibbles: "char_of (nat (push_bit 4 (int (of_char c div 16)) OR int (of_char c mod 16))) = c"
  by (simp add: push_or_nibbles del: of_nat_mult of_nat_add)

lemma unreserved_not_percent: "is_unreserved c \<Longrightarrow> c \<noteq> CHR ''%''"
  by (auto simp: is_unreserved_def isalnum_def isdigit_def isupper_def islower_def)

lemma percent_decode_encode_char:
  "percent_decode (percent_encode_char b c @ t) = map_option (Cons c) (percent_decode t)"
proof -
  have "(of_char c :: nat) div 16 < 16"
    using of_char_less_256 [of c] by (simp add: less_mult_imp_div_less)
  then show ?thesis
    by (auto simp: percent_encode_char_def nibbles_of_char hex_value_hex_upper decode_nibbles
        unreserved_not_percent)
qed

lemma percent_decode_encode_append:
  "percent_decode (percent_encode s b @ t) = map_option (\<lambda>d. s @ d) (percent_decode t)"
  by (induction s)
    (simp_all add: percent_encode_def percent_decode_encode_char option.map_comp comp_def option.map_ident)

lemma percent_decode_encode [simp]: "percent_decode (percent_encode s b) = Some s"
  using percent_decode_encode_append [of s b "[]"] by simp

lemma hex_upper_unreserved: "n < 16 \<Longrightarrow> is_unreserved (hex_upper n)"
  by (drule nibble_cases)
    (auto simp: hex_upper_def is_unreserved_def isalnum_def isdigit_def isupper_def)

lemma set_percent_encode:
  "set (percent_encode s b) \<subseteq> {c. is_unreserved c} \<union> {CHR ''%''} \<union> (if b then {} else {CHR ''/''})"
proof -
  have "(of_char c :: nat) div 16 < 16" for c
    using of_char_less_256 [of c] by (simp add: less_mult_imp_div_less)
  then show ?thesis
    by (auto simp: percent_encode_def percent_encode_char_def nibbles_of_char hex_upper_unreserved
        split: if_splits)
qed

lemma reserved_chars [simp]:
  "\<not> is_unreserved CHR ''&''" "\<not> is_unreserved CHR ''=''" "\<not> is_unreserved CHR ''?''"
  "\<not> is_unreserved CHR 0x0A" "\<not> is_unreserved CHR ''/''" "\<not> is_unreserved CHR ''%''"
  by (simp_all add: is_unreserved_def isalnum_def isdigit_def isupper_def islower_def)

lemma notin_percent_encode [simp]:
  "CHR ''&'' \<notin> set (percent_encode s b)" "CHR ''='' \<notin> set (percent_encode s b)"
  "CHR ''?'' \<notin> set (percent_encode s b)" "CHR 0x0A \<notin> set (percent_encode s b)"
  using set_percent_encode [of s b] by (auto split: if_splits)

section \<open>Lemmas: query strings\<close>

lemma parse_query_loop_single: "CHR ''&'' \<notin> set q \<Longrightarrow> parse_query_loop q = parse_query_part q"
  by (subst parse_query_loop.simps) (simp add: find_char_None_iff [THEN iffD2])

lemma parse_query_loop_amp:
  "CHR ''&'' \<notin> set a \<Longrightarrow>
   parse_query_loop (a @ CHR ''&'' # b) = parse_query_part a @ parse_query_loop b"
  by (subst parse_query_loop.simps) simp

lemma parse_query_part_encoded:
  "parse_query_part (percent_encode k True @ ''='' @ percent_encode v True) = [(k, v)]"
  by (simp add: parse_query_part_def decode_or_raw_def)

lemma parse_query_loop_joined:
  "ps \<noteq> [] \<Longrightarrow> parse_query_loop (join ''&''
     (map (\<lambda>kv. percent_encode (fst kv) True @ ''='' @ percent_encode (snd kv) True) ps)) = ps"
proof (induction ps)
  case (Cons p ps)
  show ?case
  proof (cases "ps = []")
    case True
    then show ?thesis
      by (simp add: parse_query_loop_single parse_query_part_encoded [simplified])
  next
    case False
    with Cons.IH show ?thesis
      by (simp add: join_Cons parse_query_loop_amp [of "a @ CHR ''='' # b" for a b, simplified]
          parse_query_part_encoded [simplified])
  qed
qed simp

lemma join_eq_Nil: "join sep xs = [] \<Longrightarrow> \<forall>x \<in> set xs. x \<noteq> [] \<Longrightarrow> xs = []"
  by (cases "(sep, xs)" rule: join.cases) auto

lemma parse_canonical:
  "parse_query (canonical_query_string params ex) = sort (filter (\<lambda>kv. ex \<noteq> Some (fst kv)) params)"
proof (cases "filter (\<lambda>kv. ex \<noteq> Some (fst kv)) params = []")
  case True
  then show ?thesis by (simp add: canonical_query_string_def parse_query_def)
next
  case False
  let ?p = "sort (filter (\<lambda>kv. ex \<noteq> Some (fst kv)) params)"
  from False have ne: "?p \<noteq> []" by (metis set_empty set_sort)
  then have "canonical_query_string params ex \<noteq> []"
    by (auto simp: canonical_query_string_def dest!: join_eq_Nil)
  then show ?thesis
    using parse_query_loop_joined [OF ne] by (simp add: canonical_query_string_def parse_query_def)
qed

lemma sort_mset_cong: "mset xs = mset ys \<Longrightarrow> sort xs = sort ys"
  by (metis properties_for_sort sorted_sort mset_sort)

section \<open>Lemmas: white space\<close>

text \<open>No leading, no trailing and no repeated white space, and blanks only.\<close>

fun normal_ws :: "string \<Rightarrow> bool" where
  "normal_ws [] = True"
| "normal_ws [c] = (\<not> isspace c)"
| "normal_ws (c # d # s) =
     ((isspace c \<longrightarrow> c = CHR '' '' \<and> \<not> isspace d) \<and> normal_ws (d # s))"

lemma isspace_blank [simp]: "isspace CHR '' ''"
  by (simp add: isspace_def)

lemma collapse_True: "collapse_ws True s = collapse_ws False (dropWhile isspace s)"
  by (induction s) auto

lemma collapse_starts:
  "s \<noteq> [] \<Longrightarrow> \<not> isspace (hd s) \<Longrightarrow>
   \<exists>t. collapse_ws b s = hd s # t"
  by (cases s) auto

lemma last_dropWhile: "s \<noteq> [] \<Longrightarrow> \<not> isspace (last s) \<Longrightarrow>
   dropWhile isspace s \<noteq> [] \<and> last (dropWhile isspace s) = last s"
  by (induction s) (auto split: if_splits)

lemma normal_collapse:
  assumes "s = [] \<or> \<not> isspace (last s)"
  shows "normal_ws (collapse_ws False s) \<or> (\<exists>t. collapse_ws False s = CHR '' '' # t \<and> normal_ws t
    \<and> t \<noteq> [] \<and> \<not> isspace (hd t) \<and> isspace (hd s))"
  using assms
proof (induction "length s" arbitrary: s rule: less_induct)
  case less
  show ?case
  proof (cases s)
    case (Cons c u)
    show ?thesis
    proof (cases "isspace c")
      case True
      let ?u = "dropWhile isspace u"
      have ne: "u \<noteq> []" "\<not> isspace (last u)" using less.prems Cons True by (auto split: if_splits)
      then have u: "?u \<noteq> []" "\<not> isspace (last ?u)" using last_dropWhile by auto
      have hd: "\<not> isspace (hd ?u)" using u(1) hd_dropWhile by blast
      have "length ?u < length s" using Cons by (simp add: le_imp_less_Suc length_dropWhile_le)
      with less.hyps [of ?u] u hd have "normal_ws (collapse_ws False ?u)" by auto
      moreover obtain t where "collapse_ws False ?u = hd ?u # t"
        using collapse_starts [OF u(1) hd] by blast
      ultimately show ?thesis using Cons True hd by (auto simp: collapse_True)
    next
      case False
      have "u = [] \<or> \<not> isspace (last u)" using less.prems Cons by auto
      with less.hyps [of u] Cons have
        "normal_ws (collapse_ws False u) \<or> (\<exists>t. collapse_ws False u = CHR '' '' # t \<and> normal_ws t
          \<and> t \<noteq> [] \<and> \<not> isspace (hd t) \<and> isspace (hd u))" by simp
      then have "normal_ws (c # collapse_ws False u)"
      proof
        assume "normal_ws (collapse_ws False u)"
        then show ?thesis using False by (cases "collapse_ws False u") auto
      next
        assume "\<exists>t. collapse_ws False u = CHR '' '' # t \<and> normal_ws t
          \<and> t \<noteq> [] \<and> \<not> isspace (hd t) \<and> isspace (hd u)"
        then obtain t where "collapse_ws False u = CHR '' '' # t" "normal_ws t" "t \<noteq> []"
          "\<not> isspace (hd t)" by blast
        then show ?thesis using False by (cases t) auto
      qed
      then show ?thesis using Cons False by simp
    qed
  qed simp
qed

lemma trim_ws_ends: "trim_ws s \<noteq> [] \<Longrightarrow> \<not> isspace (hd (trim_ws s)) \<and> \<not> isspace (last (trim_ws s))"
proof -
  let ?d = "dropWhile isspace s"
  assume ne: "trim_ws s \<noteq> []"
  then have "dropWhile isspace (rev ?d) \<noteq> []" by (simp add: trim_ws_def)
  then have l: "\<not> isspace (hd (dropWhile isspace (rev ?d)))" using hd_dropWhile by blast
  obtain p where "?d = trim_ws s @ p"
    by (metis rev_append rev_rev_ident takeWhile_dropWhile_id trim_ws_def)
  then have "hd (trim_ws s) = hd ?d" "?d \<noteq> []" using ne by auto
  moreover from this have "\<not> isspace (hd ?d)" using hd_dropWhile by blast
  ultimately show ?thesis using l ne by (simp add: trim_ws_def last_rev)
qed

lemma trim_and_collapse_normal: "normal_ws (trim_and_collapse_ws s)"
proof (cases "trim_ws s = []")
  case False
  with normal_collapse [of "trim_ws s"] trim_ws_ends [of s]
  show ?thesis by (auto simp: trim_and_collapse_ws_def)
qed (simp add: trim_and_collapse_ws_def)

lemma collapse_normal: "normal_ws s \<Longrightarrow> collapse_ws False s = s"
proof (induction s rule: normal_ws.induct)
  case (3 c d s)
  then show ?case by (cases "isspace c") auto
qed auto

lemma hd_trim_and_collapse:
  "trim_and_collapse_ws s \<noteq> [] \<Longrightarrow> \<not> isspace (hd (trim_and_collapse_ws s))"
  using trim_ws_ends [of s] collapse_starts [of "trim_ws s" False]
  by (cases "trim_ws s = []") (auto simp: trim_and_collapse_ws_def)

lemma last_normal_ws: "s \<noteq> [] \<Longrightarrow> normal_ws s \<Longrightarrow> \<not> isspace (last s)"
  by (induction s rule: normal_ws.induct) auto

lemma dropWhile_hd_id: "s = [] \<or> \<not> P (hd s) \<Longrightarrow> dropWhile P s = s"
  by (cases s) auto

lemma trim_id: "s = [] \<or> \<not> isspace (hd s) \<and> \<not> isspace (last s) \<Longrightarrow> trim_ws s = s"
  by (auto simp: trim_ws_def dropWhile_hd_id hd_rev)

lemma trim_and_collapse_idem: "trim_and_collapse_ws (trim_and_collapse_ws s) = trim_and_collapse_ws s"
proof -
  let ?t = "trim_and_collapse_ws s"
  have "trim_ws ?t = ?t"
    using trim_id hd_trim_and_collapse last_normal_ws trim_and_collapse_normal by metis
  then show ?thesis
    using collapse_normal [OF trim_and_collapse_normal [of s]]
    by (simp add: trim_and_collapse_ws_def [of ?t])
qed

lemma filter_collapse_ws:
  "filter (\<lambda>c. \<not> isspace c) (collapse_ws b s) = filter (\<lambda>c. \<not> isspace c) s"
  by (induction b s rule: collapse_ws.induct) auto

lemma filter_dropWhile_ws:
  "filter (\<lambda>c. \<not> isspace c) (dropWhile isspace s) = filter (\<lambda>c. \<not> isspace c) s"
  by (induction s) auto

lemma filter_trim_and_collapse:
  "filter (\<lambda>c. \<not> isspace c) (trim_and_collapse_ws s) = filter (\<lambda>c. \<not> isspace c) s"
  by (simp add: trim_and_collapse_ws_def filter_collapse_ws trim_ws_def filter_dropWhile_ws
      flip: rev_filter)

lemma trim_and_collapse_no_ws: "list_all (\<lambda>c. \<not> isspace c) s \<Longrightarrow> trim_and_collapse_ws s = s"
proof -
  assume n: "list_all (\<lambda>c. \<not> isspace c) s"
  then have "trim_ws s = s"
    by (intro trim_id) (cases s; auto simp: list_all_iff split: if_splits)
  moreover from n have "collapse_ws False s = s" by (induction s) auto
  ultimately show ?thesis by (simp add: trim_and_collapse_ws_def)
qed

section \<open>Lemmas: hex, comparison, base64\<close>

lemma length_hex_lower [simp]: "length (hex_lower bs) = 2 * length bs"
  by (induction bs) (simp_all add: hex_lower_def)

lemma hex_digit_inject: "m < 16 \<Longrightarrow> n < 16 \<Longrightarrow> hex_digit m = hex_digit n \<longleftrightarrow> m = n"
proof -
  have d: "distinct ''0123456789abcdef''" by simp
  show "m < 16 \<Longrightarrow> n < 16 \<Longrightarrow> hex_digit m = hex_digit n \<longleftrightarrow> m = n"
    unfolding hex_digit_def using nth_eq_iff_index_eq [OF d, of m n] by simp
qed

lemma hex_lower_inject: "hex_lower a = hex_lower b \<longleftrightarrow> a = b"
proof
  have lt: "(of_char c :: nat) div 16 < 16" for c
    using of_char_less_256 [of c] by (simp add: less_mult_imp_div_less)
  have eq: "c = d" if "(of_char c :: nat) div 16 = of_char d div 16"
    "(of_char c :: nat) mod 16 = of_char d mod 16" for c d
    using that by (metis char_of_char div_mult_mod_eq)
  show "a = b" if "hex_lower a = hex_lower b"
    using that
  proof (induction a arbitrary: b)
    case Nil
    then show ?case by (cases b) (auto simp: hex_lower_def)
  next
    case (Cons x a)
    then show ?case
      by (cases b) (auto simp: hex_lower_def nibbles_of_char hex_digit_inject lt intro: eq)
  qed
qed simp

lemma byte_inject: "byte a = byte b \<longleftrightarrow> a = b"
proof
  assume "byte a = byte b"
  then have "unat (byte a) = unat (byte b)" by simp
  then have "(of_char a :: nat) = of_char b"
    by (simp add: byte_def unsigned_of_nat take_bit_nat_eq_self)
  then show "a = b" by simp
qed simp

lemma xor_eq_0: "(a :: 8 word) XOR b = 0 \<longleftrightarrow> a = b"
proof
  assume "a XOR b = 0"
  then have "(a XOR b) XOR b = b" by simp
  then show "a = b" by (simp add: xor.assoc)
qed simp

lemma foldl_or_eq_0:
  "foldl (\<lambda>diff (x, y). diff OR (byte x XOR byte y)) d xs = 0 \<longleftrightarrow>
   d = 0 \<and> (\<forall>(x, y) \<in> set xs. x = y)"
  by (induction xs arbitrary: d) (auto simp: or_eq_0_iff byte_inject xor_eq_0)

lemma constant_time_equal_iff [simp]: "constant_time_equal a b \<longleftrightarrow> a = b"
proof -
  have "length a = length b \<Longrightarrow> (\<forall>(x, y) \<in> set (zip a b). x = y) \<longleftrightarrow> a = b"
    by (auto simp: list_eq_iff_zip_eq)
  then show ?thesis by (auto simp: constant_time_equal_def foldl_or_eq_0)
qed

end
