(* ===== verification/Double.thy ===== *)
theory Double
  imports Prelude
begin

text \<open>
  The IEEE 754 binary64 arithmetic that \<open>PrefixMap::UsableBytes\<close> and the latency metrics use.
  A finite \<open>double\<close> is the rational number it denotes; an operation is the exact operation
  followed by \<open>fl\<close>, rounding to 53 significant bits, ties to even.  The exponent range is not
  bounded: the quotients, products and latencies of this program lie far inside it.

  \<open>fl\<close> is within one part in \<open>2 ^ 53\<close> of its argument, is monotone and leaves integers
  below \<open>2 ^ 53\<close> alone.
\<close>

definition round_half_even :: "rat \<Rightarrow> int" where
  "round_half_even y =
     (let f = \<lfloor>y\<rfloor>; r = y - of_int f in
      if r < 1 / 2 then f else if 1 / 2 < r then f + 1 else if even f then f else f + 1)"

fun nlog2 :: "nat \<Rightarrow> nat" where
  "nlog2 n = (if n \<le> 1 then 0 else Suc (nlog2 (n div 2)))"

declare nlog2.simps [simp del]

text \<open>The exponent of a positive rational: the largest \<open>k\<close> with \<open>2 ^ k \<le> x\<close>.\<close>

definition bin_exp :: "rat \<Rightarrow> int" where
  "bin_exp x =
     (let nd = quotient_of x;
          k = int (nlog2 (nat (fst nd))) - int (nlog2 (nat (snd nd)))
      in if 2 powi k \<le> x then k else k - 1)"

definition fl :: "rat \<Rightarrow> rat" where
  "fl x =
     (if x = 0 then 0
      else let e = bin_exp \<bar>x\<bar> - 52
           in of_int (round_half_even (x / 2 powi e)) * 2 powi e)"

text \<open>\<open>static_cast<int>\<close> of a \<open>double\<close>: towards zero, undefined out of range.\<close>

definition trunc :: "rat \<Rightarrow> int" where
  "trunc x = (if 0 \<le> x then \<lfloor>x\<rfloor> else - \<lfloor>- x\<rfloor>)"

definition double_to_i32 :: "rat \<Rightarrow> ub + int" where
  "double_to_i32 x = (if in_i32 (trunc x) then Inr (trunc x) else Inl FloatOutOfRange)"

text \<open>\<open>std::llround\<close>: to the nearest integer, ties away from zero.\<close>

definition llround :: "rat \<Rightarrow> int" where
  "llround x = (if 0 \<le> x then \<lfloor>x + 1 / 2\<rfloor> else - \<lfloor>- x + 1 / 2\<rfloor>)"

section \<open>Rounding to an integer\<close>

lemma round_half_even_error: "\<bar>of_int (round_half_even y) - y\<bar> \<le> 1 / 2"
proof -
  have "of_int \<lfloor>y\<rfloor> \<le> y" "y < of_int \<lfloor>y\<rfloor> + 1" using floor_correct [of y] by simp_all
  then show ?thesis by (simp add: round_half_even_def Let_def abs_le_iff)
qed

lemma round_half_even_mono: "x \<le> y \<Longrightarrow> round_half_even x \<le> round_half_even y"
proof -
  assume le: "x \<le> y"
  have fx: "of_int \<lfloor>x\<rfloor> \<le> x" "x < of_int \<lfloor>x\<rfloor> + 1"
    and fy: "of_int \<lfloor>y\<rfloor> \<le> y" "y < of_int \<lfloor>y\<rfloor> + 1"
    using floor_correct [of x] floor_correct [of y] by simp_all
  have bx: "\<lfloor>x\<rfloor> \<le> round_half_even x" "round_half_even x \<le> \<lfloor>x\<rfloor> + 1"
    and by': "\<lfloor>y\<rfloor> \<le> round_half_even y"
    by (simp_all add: round_half_even_def Let_def)
  have "\<lfloor>x\<rfloor> \<le> \<lfloor>y\<rfloor>" using le by (rule floor_mono)
  then consider "\<lfloor>x\<rfloor> + 1 \<le> \<lfloor>y\<rfloor>" | "\<lfloor>x\<rfloor> = \<lfloor>y\<rfloor>" by linarith
  then show ?thesis
  proof cases
    case 1
    then show ?thesis using bx by' by linarith
  next
    case 2
    then show ?thesis using le by (auto simp: round_half_even_def Let_def)
  qed
qed

lemma round_half_even_of_int [simp]: "round_half_even (of_int n) = n"
  by (simp add: round_half_even_def)

section \<open>The exponent\<close>

lemma nlog2_bounds: "0 < n \<Longrightarrow> 2 ^ nlog2 n \<le> n \<and> n < 2 ^ Suc (nlog2 n)"
proof (induction n rule: nlog2.induct)
  case (1 n)
  show ?case
  proof (cases "n \<le> 1")
    case True
    with "1.prems" show ?thesis by (subst (1 2) nlog2.simps) simp
  next
    case False
    with "1.IH" have "2 ^ nlog2 (n div 2) \<le> n div 2 \<and> n div 2 < 2 ^ Suc (nlog2 (n div 2))" by simp
    then have "2 * 2 ^ nlog2 (n div 2) \<le> n \<and> n < 2 * 2 ^ Suc (nlog2 (n div 2))" by linarith
    with False show ?thesis by (subst (1 2) nlog2.simps) simp
  qed
qed

lemma nlog2_int_bounds:
  assumes "0 < n"
  shows "(2::rat) ^ nlog2 (nat n) \<le> of_int n" and "of_int n < (2::rat) ^ Suc (nlog2 (nat n))"
proof -
  have b: "2 ^ nlog2 (nat n) \<le> nat n" "nat n < 2 ^ Suc (nlog2 (nat n))"
    using nlog2_bounds [of "nat n"] assms by simp_all
  have "rat_of_nat (2 ^ nlog2 (nat n)) \<le> rat_of_nat (nat n)"
    "rat_of_nat (nat n) < rat_of_nat (2 ^ Suc (nlog2 (nat n)))"
    using b of_nat_le_iff of_nat_less_iff by blast+
  then show "(2::rat) ^ nlog2 (nat n) \<le> of_int n" "of_int n < (2::rat) ^ Suc (nlog2 (nat n))"
    using assms by (simp_all add: of_nat_nat)
qed

lemma bin_exp_bounds:
  assumes "0 < x"
  shows "2 powi bin_exp x \<le> x" and "x < 2 powi (bin_exp x + 1)"
proof -
  obtain n d where q: "quotient_of x = (n, d)" by fastforce
  then have x: "x = of_int n / of_int d" and d: "0 < d"
    by (auto dest: quotient_of_div quotient_of_denom_pos)
  with assms have n: "0 < n" by (simp add: zero_less_divide_iff)
  define a b where "a = nlog2 (nat n)" and "b = nlog2 (nat d)"
  have na: "(2::rat) ^ a \<le> of_int n" "of_int n < (2::rat) ^ Suc a"
    using nlog2_int_bounds [OF n] by (simp_all add: a_def)
  have db: "(2::rat) ^ b \<le> of_int d" "of_int d < (2::rat) ^ Suc b"
    using nlog2_int_bounds [OF d] by (simp_all add: b_def)
  have lo: "(2::rat) powi (int a - int b - 1) \<le> x"
  proof -
    have "(2::rat) powi (int a - int b - 1) = 2 ^ a / 2 ^ Suc b"
      by (simp add: power_int_diff power_int_minus divide_simps)
    also have "\<dots> \<le> x" unfolding x using na db n d by (intro frac_le) auto
    finally show ?thesis .
  qed
  have hi: "x < (2::rat) powi (int a - int b + 1)"
  proof -
    have "x < 2 ^ Suc a / 2 ^ b" unfolding x using na db n d by (intro frac_less) auto
    also have "\<dots> = (2::rat) powi (int a - int b + 1)"
      by (simp add: power_int_diff power_int_add divide_simps)
    finally show ?thesis .
  qed
  show "2 powi bin_exp x \<le> x" and "x < 2 powi (bin_exp x + 1)"
    using lo hi by (auto simp: bin_exp_def q a_def b_def Let_def)
qed

section \<open>Rounding to a double\<close>

lemma fl_0 [simp]: "fl 0 = 0"
  by (simp add: fl_def)

lemma fl_pos_eq: "0 < x \<Longrightarrow> fl x = of_int (round_half_even (x / 2 powi (bin_exp x - 52))) * 2 powi (bin_exp x - 52)"
  by (simp add: fl_def Let_def)

lemma fl_error:
  assumes "0 \<le> x"
  shows "\<bar>fl x - x\<bar> \<le> x / 2 ^ 53"
proof (cases "x = 0")
  case False
  with assms have pos: "0 < x" by simp
  define e where "e = bin_exp x - 52"
  have p: "(0::rat) < 2 powi e" by (simp add: zero_less_power_int)
  have "fl x - x = (of_int (round_half_even (x / 2 powi e)) - x / 2 powi e) * 2 powi e"
    using p by (simp add: fl_pos_eq [OF pos] e_def algebra_simps)
  then have "\<bar>fl x - x\<bar> = \<bar>of_int (round_half_even (x / 2 powi e)) - x / 2 powi e\<bar> * 2 powi e"
    using p by (simp add: abs_mult)
  also have "\<dots> \<le> 1 / 2 * 2 powi e"
    using p round_half_even_error by (intro mult_right_mono) auto
  also have "\<dots> = 2 powi bin_exp x / 2 ^ 53"
    by (simp add: e_def power_int_diff)
  also have "\<dots> \<le> x / 2 ^ 53"
    using bin_exp_bounds(1) [OF pos] by (intro divide_right_mono) auto
  finally show ?thesis .
qed simp

lemma pow_pos [simp]: "(0::rat) < 2 powi e"
  by (simp add: zero_less_power_int)

text \<open>The scaled argument lies in \<open>[2 ^ 52, 2 ^ 53)\<close>, so its rounding in \<open>[2 ^ 52, 2 ^ 53]\<close>.\<close>

lemma scaled_bounds:
  assumes "0 < x"
  shows "2 ^ 52 \<le> round_half_even (x / 2 powi (bin_exp x - 52))"
    and "round_half_even (x / 2 powi (bin_exp x - 52)) \<le> 2 ^ 53"
proof -
  have "of_int (2 ^ 52) \<le> x / 2 powi (bin_exp x - 52)"
    using bin_exp_bounds(1) [OF assms] by (simp add: field_simps power_int_diff)
  then show "2 ^ 52 \<le> round_half_even (x / 2 powi (bin_exp x - 52))"
    using round_half_even_mono round_half_even_of_int by metis
  have "x / 2 powi (bin_exp x - 52) \<le> of_int (2 ^ 53)"
    using bin_exp_bounds(2) [OF assms] by (simp add: field_simps power_int_diff power_int_add)
  then show "round_half_even (x / 2 powi (bin_exp x - 52)) \<le> 2 ^ 53"
    using round_half_even_mono round_half_even_of_int by metis
qed

lemma fl_binade:
  assumes "0 < x"
  shows "2 powi bin_exp x \<le> fl x" and "fl x \<le> 2 powi (bin_exp x + 1)"
proof -
  define e where "e = bin_exp x - 52"
  define r where "r = round_half_even (x / 2 powi e)"
  have r: "2 ^ 52 \<le> r" "r \<le> 2 ^ 53" using scaled_bounds [OF assms] by (simp_all add: r_def e_def)
  have "(of_int (2 ^ 52) :: rat) * 2 powi e \<le> of_int r * 2 powi e"
    using r(1) by (intro mult_right_mono) (simp_all only: of_int_le_iff pow_pos less_imp_le)
  moreover have "of_int r * 2 powi e \<le> (of_int (2 ^ 53) :: rat) * 2 powi e"
    using r(2) by (intro mult_right_mono) (simp_all only: of_int_le_iff pow_pos less_imp_le)
  ultimately show "2 powi bin_exp x \<le> fl x" and "fl x \<le> 2 powi (bin_exp x + 1)"
    by (simp_all add: fl_pos_eq [OF assms] e_def [symmetric] r_def [symmetric])
      (simp_all add: e_def power_int_diff power_int_add)
qed

lemma fl_nonneg: "0 \<le> x \<Longrightarrow> 0 \<le> fl x"
  using fl_binade(1) [of x] less_le_trans [OF pow_pos [of "bin_exp x"]] by (cases "x = 0") force+

lemma bin_exp_less: "0 < x \<Longrightarrow> x < 2 powi n \<Longrightarrow> bin_exp x < n"
proof (rule ccontr)
  assume "0 < x" "x < 2 powi n" "\<not> bin_exp x < n"
  then have "(2::rat) powi n \<le> 2 powi bin_exp x" by (intro power_int_increasing) auto
  with bin_exp_bounds(1) [OF \<open>0 < x\<close>] \<open>x < 2 powi n\<close> show False by simp
qed

lemma bin_exp_mono: "0 < x \<Longrightarrow> x \<le> y \<Longrightarrow> bin_exp x \<le> bin_exp y"
  using bin_exp_less [of x "bin_exp y + 1"] bin_exp_bounds(2) [of y] by linarith

lemma fl_mono: "0 \<le> x \<Longrightarrow> x \<le> y \<Longrightarrow> fl x \<le> fl y"
proof (cases "x = 0")
  case True
  moreover assume "x \<le> y"
  ultimately show ?thesis using fl_nonneg by simp
next
  case False
  assume "0 \<le> x" "x \<le> y"
  with False have x: "0 < x" and y: "0 < y" by simp_all
  show ?thesis
  proof (cases "bin_exp x = bin_exp y")
    case True
    have "x / 2 powi (bin_exp x - 52) \<le> y / 2 powi (bin_exp x - 52)"
      using \<open>x \<le> y\<close> by (intro divide_right_mono) (simp_all add: less_imp_le)
    then show ?thesis
      using True by (simp add: fl_pos_eq x y round_half_even_mono mult_right_mono less_imp_le)
  next
    case False
    then have "bin_exp x + 1 \<le> bin_exp y" using bin_exp_mono [OF x \<open>x \<le> y\<close>] by simp
    then have "(2::rat) powi (bin_exp x + 1) \<le> 2 powi bin_exp y" by (intro power_int_increasing) auto
    then show ?thesis using fl_binade(2) [OF x] fl_binade(1) [OF y] by linarith
  qed
qed

lemma fl_of_int:
  assumes "0 \<le> n" "n < 2 ^ 53"
  shows "fl (of_int n) = of_int n"
proof (cases "n = 0")
  case False
  with assms have pos: "0 < (of_int n :: rat)" by simp
  have "(of_int n :: rat) < 2 powi 53"
    using assms(2) of_int_less_iff [of n "2 ^ 53", where 'a = rat] by simp
  then have "bin_exp (of_int n) < 53" by (rule bin_exp_less [OF pos])
  then obtain k :: nat where k: "bin_exp (of_int n) - 52 = - int k"
    by (intro that [of "nat (52 - bin_exp (of_int n))"]) simp
  have "(of_int n :: rat) / 2 powi (- int k) = of_int (n * 2 ^ k)"
    by (simp add: power_int_minus divide_inverse)
  then have "fl (of_int n) = of_int (n * 2 ^ k) * 2 powi (- int k)"
    by (simp only: fl_pos_eq [OF pos] k round_half_even_of_int)
  then show ?thesis by (simp add: power_int_minus)
qed simp

lemma fl_le_of_int: "0 \<le> x \<Longrightarrow> x \<le> of_int n \<Longrightarrow> n < 2 ^ 53 \<Longrightarrow> fl x \<le> of_int n"
  using fl_mono [of x "of_int n"] fl_of_int [of n] by (auto dest: order_trans)

end
