(* ===== verification/Cache.thy ===== *)
theory Cache
  imports Prelude Double "HOL-Library.AList"
begin

text \<open>
  The index layer's \<open>PrefixMap\<close> (\<open>index_layer/src/cache.h\<close>, \<open>cache.cc\<close>): which byte
  range of which stored object serves the longest cached prefix of a token list.

  \<^item> \<open>std::unordered_map\<close> is an association list with distinct keys, updated by
    \<open>AList.update\<close>.
  \<^item> \<open>std::hash<std::string>\<close> is implementation-defined: it is the argument \<open>hash\<close>.
  \<^item> The abstract class \<open>Storage\<close> is a record of operations on a state \<open>'s\<close>; a provider's
    undefined behaviour is passed on.
  \<^item> \<open>steady_clock::now()\<close> is the argument \<open>now\<close>.
  \<^item> \<open>int\<close> arithmetic that overflows is undefined; a loop that does not end is \<open>None\<close>.
  \<^item> The 64-bit \<open>version_clock_\<close> counts the stores of a process; it is unbounded here, so that its
    overflow after \<open>2^63\<close> stores is not represented.
\<close>

named_theorems cache_defs \<open>the definitions of the prefix map's operations\<close>

section \<open>Data\<close>

record PrefixEntry =
  pe_obj_id :: string
  pe_usable_len_bytes :: int
  pe_version :: int
  pe_owner_id :: string
  pe_priority :: int

record ObjectMeta =
  om_total_bytes :: int
  om_last_access :: int
  om_inflight_reads :: int

record LookupResult =
  lr_hit :: bool
  lr_obj_id :: string
  lr_usable_len_bytes :: int
  lr_prefix_tokens :: int

definition no_result :: LookupResult where
  "no_result = \<lparr>lr_hit = False, lr_obj_id = [], lr_usable_len_bytes = 0, lr_prefix_tokens = 0\<rparr>"

definition no_entry :: PrefixEntry where
  "no_entry = \<lparr>pe_obj_id = [], pe_usable_len_bytes = 0, pe_version = 0, pe_owner_id = [], pe_priority = 0\<rparr>"

text \<open>The virtual methods of \<open>Storage\<close>; \<open>GetRange\<close> takes and returns its \<open>out\<close> vector.\<close>

record 's storage_ops =
  sPut :: "'s \<Rightarrow> string \<Rightarrow> bytes \<Rightarrow> ub + (bool \<times> 's)"
  sGetRange :: "'s \<Rightarrow> string \<Rightarrow> int \<Rightarrow> bytes \<Rightarrow> ub + (bool \<times> bytes \<times> 's)"
  sDelete :: "'s \<Rightarrow> string \<Rightarrow> ub + (bool \<times> 's)"
  sSize :: "'s \<Rightarrow> nat"

record 's PrefixMap =
  block_size :: int
  bytes_per_token :: int
  version_clock :: int
  storage :: 's
  prefix_map :: "(64 word \<times> PrefixEntry) list"
  obj_table :: "(string \<times> ObjectMeta) list"

text \<open>The constructor; a null \<open>storage\<close> pointer is rejected with an exception.\<close>

definition new_PrefixMap :: "int \<Rightarrow> int \<Rightarrow> 's option \<Rightarrow> string + 's PrefixMap" where
  "new_PrefixMap bs bpt st =
     (case st of
        None \<Rightarrow> Inl ''storage must not be null''
      | Some s \<Rightarrow> Inr \<lparr>block_size = bs, bytes_per_token = bpt, version_clock = 0, storage = s,
                      prefix_map = [], obj_table = []\<rparr>)"

section \<open>Hashing and sizes\<close>

definition HashTokens :: "(string \<Rightarrow> 64 word) \<Rightarrow> string list \<Rightarrow> nat \<Rightarrow> 64 word" where
  "HashTokens hash tokens count = hash (join [CHR 0x1F] (take count tokens))"

definition HashBytesHex :: "(string \<Rightarrow> 64 word) \<Rightarrow> bytes \<Rightarrow> string" where
  "HashBytesHex hash data = pad_left 16 (CHR ''0'') (nat_to_hex (unat (hash data)))"

definition UsableBytes :: "int \<Rightarrow> int \<Rightarrow> int \<Rightarrow> int \<Rightarrow> ub + int" where
  "UsableBytes bpt prefix_len total_tokens total_bytes =
     (if bpt > 0 then
        (case i32_mul prefix_len bpt of
           Inl u \<Rightarrow> Inl u
         | Inr bytes \<Rightarrow> Inr (if bytes > total_bytes then total_bytes else bytes))
      else if total_tokens = 0 \<or> total_bytes = 0 then Inr 0
      else
        let frac = fl (of_int prefix_len / of_int total_tokens) in
        (case double_to_i32 (fl (frac * of_int total_bytes)) of
           Inl u \<Rightarrow> Inl u
         | Inr bytes \<Rightarrow>
             let bytes = (if bytes < 1 then 1 else bytes)
             in Inr (if bytes > total_bytes then total_bytes else bytes)))"

section \<open>Store\<close>

text \<open>The loop of \<open>Store\<close>; \<open>mk usable\<close> is the entry it writes for a prefix.\<close>

partial_function (option) store_loop ::
    "(string \<Rightarrow> 64 word) \<Rightarrow> int \<Rightarrow> int \<Rightarrow> string list \<Rightarrow> int \<Rightarrow> (int \<Rightarrow> PrefixEntry) \<Rightarrow> int \<Rightarrow>
     (64 word \<times> PrefixEntry) list \<Rightarrow> (ub + (64 word \<times> PrefixEntry) list) option" where
  "store_loop hash bs bpt tokens total_bytes mk prefix_len m =
     (if prefix_len \<le> size_to_i32 (length tokens) then
        (case UsableBytes bpt prefix_len (size_to_i32 (length tokens)) total_bytes of
           Inl u \<Rightarrow> Some (Inl u)
         | Inr usable \<Rightarrow>
             (case i32_add prefix_len bs of
                Inl u \<Rightarrow> Some (Inl u)
              | Inr prefix_len' \<Rightarrow>
                  store_loop hash bs bpt tokens total_bytes mk prefix_len'
                    (AList.update (HashTokens hash tokens (i32_to_size prefix_len)) (mk usable) m)))
      else Some (Inr m))"

definition Store ::
    "'s storage_ops \<Rightarrow> (string \<Rightarrow> 64 word) \<Rightarrow> int \<Rightarrow> 's PrefixMap \<Rightarrow> string list \<Rightarrow> bytes \<Rightarrow> string \<Rightarrow>
     int \<Rightarrow> bool \<Rightarrow> (ub + string \<times> 's PrefixMap) option" where
  "Store ops hash now pm tokens data owner_id priority skip_put =
     (let obj_id = HashBytesHex hash data in
      case (if skip_put then Inr (True, storage pm) else sPut ops (storage pm) obj_id data) of
        Inl u \<Rightarrow> Some (Inl u)
      | Inr (ok, s) \<Rightarrow>
          if \<not> ok then Some (Inr ([], pm\<lparr>storage := s\<rparr>))
          else
            let clk = version_clock pm + 1;
                total = size_to_i32 (length data);
                meta = \<lparr>om_total_bytes = total, om_last_access = now, om_inflight_reads = 0\<rparr>;
                pm1 = pm\<lparr>storage := s, version_clock := clk,
                         obj_table := AList.update obj_id meta (obj_table pm)\<rparr>;
                mk = (\<lambda>usable. \<lparr>pe_obj_id = obj_id, pe_usable_len_bytes = usable, pe_version = clk,
                               pe_owner_id = owner_id, pe_priority = priority\<rparr>)
            in if length tokens < i32_to_size (block_size pm) then Some (Inr (obj_id, pm1))
               else
                 (case store_loop hash (block_size pm) (bytes_per_token pm) tokens total mk
                         (block_size pm) (prefix_map pm) of
                    None \<Rightarrow> None
                  | Some (Inl u) \<Rightarrow> Some (Inl u)
                  | Some (Inr m) \<Rightarrow> Some (Inr (obj_id, pm1\<lparr>prefix_map := m\<rparr>))))"

section \<open>Lookup, Load and the counters\<close>

partial_function (option) lookup_loop ::
    "(string \<Rightarrow> 64 word) \<Rightarrow> int \<Rightarrow> (64 word \<times> PrefixEntry) list \<Rightarrow> string list \<Rightarrow> int \<Rightarrow> int \<Rightarrow>
     PrefixEntry \<times> int \<Rightarrow> (ub + PrefixEntry \<times> int) option" where
  "lookup_loop hash bs m tokens max_len prefix_len best =
     (if prefix_len \<le> max_len then
        (case map_of m (HashTokens hash tokens (i32_to_size prefix_len)) of
           None \<Rightarrow> Some (Inr best)
         | Some entry \<Rightarrow>
             (case i32_add prefix_len bs of
                Inl u \<Rightarrow> Some (Inl u)
              | Inr prefix_len' \<Rightarrow>
                  lookup_loop hash bs m tokens max_len prefix_len' (entry, prefix_len)))
      else Some (Inr best))"

definition Lookup ::
    "(string \<Rightarrow> 64 word) \<Rightarrow> 's PrefixMap \<Rightarrow> string list \<Rightarrow> int \<Rightarrow> (ub + LookupResult) option" where
  "Lookup hash pm tokens max_len_tokens =
     (if length tokens < i32_to_size (block_size pm) then Some (Inr no_result)
      else
        let max_len = (if max_len_tokens \<le> 0 \<or> max_len_tokens > size_to_i32 (length tokens)
                       then size_to_i32 (length tokens) else max_len_tokens)
        in case lookup_loop hash (block_size pm) (prefix_map pm) tokens max_len (block_size pm)
                  (no_entry, 0) of
             None \<Rightarrow> None
           | Some (Inl u) \<Rightarrow> Some (Inl u)
           | Some (Inr (last_entry, last_prefix)) \<Rightarrow>
               if last_prefix = 0 then Some (Inr no_result)
               else Some (Inr \<lparr>lr_hit = True, lr_obj_id = pe_obj_id last_entry,
                              lr_usable_len_bytes = pe_usable_len_bytes last_entry,
                              lr_prefix_tokens = last_prefix\<rparr>))"

text \<open>\<open>storage_\<close> is never null after construction, so \<open>Load\<close> is the provider's \<open>GetRange\<close>.\<close>

definition Load ::
    "'s storage_ops \<Rightarrow> 's PrefixMap \<Rightarrow> string \<Rightarrow> int \<Rightarrow> bytes \<Rightarrow> ub + (bool \<times> bytes \<times> 's PrefixMap)" where
  "Load ops pm obj_id usable_len_bytes out =
     (case sGetRange ops (storage pm) obj_id usable_len_bytes out of
        Inl u \<Rightarrow> Inl u
      | Inr (ok, out', s) \<Rightarrow> Inr (ok, out', pm\<lparr>storage := s\<rparr>))"

definition PrefixCount :: "'s PrefixMap \<Rightarrow> nat" where
  "PrefixCount pm = length (prefix_map pm)"

definition ObjectCount :: "'s PrefixMap \<Rightarrow> nat" where
  "ObjectCount pm = length (obj_table pm)"

definition BlockSize :: "'s PrefixMap \<Rightarrow> int" where
  "BlockSize pm = block_size pm"

section \<open>Usable bytes\<close>

lemma frac_bounds:
  assumes "0 < p" "p \<le> n"
  shows "0 \<le> fl (of_int p / of_int n)" and "fl (of_int p / of_int n) \<le> 1"
proof -
  have q: "(0::rat) \<le> of_int p / of_int n" "(of_int p :: rat) / of_int n \<le> of_int 1"
    using assms by (simp_all add: divide_simps)
  show "0 \<le> fl (of_int p / of_int n)" using fl_nonneg [OF q(1)] .
  show "fl (of_int p / of_int n) \<le> 1" using fl_le_of_int [OF q] by simp
qed

lemma product_bounds:
  assumes "0 < p" "p \<le> n" "0 \<le> b" "b < 2 ^ 31"
  shows "0 \<le> fl (fl (of_int p / of_int n) * of_int b)"
    and "fl (fl (of_int p / of_int n) * of_int b) \<le> of_int b"
proof -
  let ?f = "fl (of_int p / of_int n)"
  have f: "0 \<le> ?f" "?f \<le> 1" using frac_bounds [OF assms(1,2)] .
  have m: "0 \<le> ?f * of_int b" "?f * of_int b \<le> of_int b"
    using f assms(3) by (simp_all add: mult_left_le_one_le)
  show "0 \<le> fl (?f * of_int b)" using fl_nonneg [OF m(1)] .
  show "fl (?f * of_int b) \<le> of_int b" using fl_le_of_int [OF m] assms(4) by simp
qed

text \<open>The proportional branch without its undefined case, and what it computes.\<close>

definition proportional :: "int \<Rightarrow> int \<Rightarrow> int \<Rightarrow> int" where
  "proportional p n b = min b (max 1 \<lfloor>fl (fl (of_int p / of_int n) * of_int b)\<rfloor>)"

definition usable_spec :: "int \<Rightarrow> int \<Rightarrow> int \<Rightarrow> int \<Rightarrow> int" where
  "usable_spec bpt p n b = (if bpt > 0 then min b (p * bpt) else proportional p n b)"

lemma floor_product_range:
  assumes "0 < p" "p \<le> n" "0 \<le> b" "b < 2 ^ 31"
  shows "0 \<le> \<lfloor>fl (fl (of_int p / of_int n) * of_int b)\<rfloor>"
    and "\<lfloor>fl (fl (of_int p / of_int n) * of_int b)\<rfloor> \<le> b"
proof -
  show "0 \<le> \<lfloor>fl (fl (of_int p / of_int n) * of_int b)\<rfloor>" using product_bounds(1) [OF assms] by simp
  show "\<lfloor>fl (fl (of_int p / of_int n) * of_int b)\<rfloor> \<le> b"
    using floor_mono [OF product_bounds(2) [OF assms]] by simp
qed

lemma UsableBytes_eq:
  assumes "0 < p" "p \<le> n" "0 \<le> b" "b < 2 ^ 31" "bpt > 0 \<Longrightarrow> p * bpt < 2 ^ 31"
  shows "UsableBytes bpt p n b = Inr (usable_spec bpt p n b)"
proof (cases "bpt > 0")
  case True
  then have "0 < p * bpt" using assms(1) by simp
  with True assms(5) show ?thesis
    by (simp add: UsableBytes_def usable_spec_def i32_mul_def in_i32_def min_def)
next
  case False
  define x where "x = fl (fl (of_int p / of_int n) * of_int b)"
  have z: "0 \<le> x" "0 \<le> \<lfloor>x\<rfloor>" "\<lfloor>x\<rfloor> \<le> b"
    using product_bounds [OF assms(1-4)] floor_product_range [OF assms(1-4)] by (simp_all add: x_def)
  then have "double_to_i32 x = Inr \<lfloor>x\<rfloor>"
    unfolding double_to_i32_def trunc_def in_i32_def using assms(4) by (simp del: floor_less_iff floor_less_numeral)
  then show ?thesis
    using False assms z
    by (auto simp: UsableBytes_def usable_spec_def proportional_def Let_def x_def [symmetric])
qed

lemma usable_spec_bounds:
  assumes "0 < p" "0 \<le> b"
  shows "min 1 b \<le> usable_spec bpt p n b" and "usable_spec bpt p n b \<le> b"
proof -
  have "bpt > 0 \<Longrightarrow> 1 \<le> p * bpt" using assms(1) by (simp add: int_one_le_iff_zero_less)
  then show "min 1 b \<le> usable_spec bpt p n b" by (auto simp: usable_spec_def proportional_def)
  show "usable_spec bpt p n b \<le> b" by (simp add: usable_spec_def proportional_def)
qed

lemma usable_spec_full:
  assumes "0 < n" "0 \<le> b" "b < 2 ^ 31" "bpt \<le> 0"
  shows "usable_spec bpt n n b = b"
  using assms fl_of_int [of 1] fl_of_int [of b] by (simp add: usable_spec_def proportional_def)

lemma usable_spec_mono:
  assumes "0 < p" "p \<le> q" "q \<le> n" "0 \<le> b"
  shows "usable_spec bpt p n b \<le> usable_spec bpt q n b"
proof (cases "bpt > 0")
  case True
  then have "p * bpt \<le> q * bpt" using assms by (intro mult_right_mono) auto
  then have "min b (p * bpt) \<le> min b (q * bpt)" by linarith
  with True show ?thesis by (simp add: usable_spec_def)
next
  case False
  have "(of_int p :: rat) / of_int n \<le> of_int q / of_int n" "(0::rat) \<le> of_int p / of_int n"
    using assms by (simp_all add: divide_right_mono)
  then have f: "0 \<le> fl (of_int p / of_int n)" "fl (of_int p / of_int n) \<le> fl (of_int q / of_int n)"
    by (simp_all add: fl_nonneg fl_mono)
  then have "fl (fl (of_int p / of_int n) * of_int b) \<le> fl (fl (of_int q / of_int n) * of_int b)"
    using assms(4) by (intro fl_mono) (simp_all add: mult_right_mono)
  then have "\<lfloor>fl (fl (of_int p / of_int n) * of_int b)\<rfloor> \<le> \<lfloor>fl (fl (of_int q / of_int n) * of_int b)\<rfloor>"
    by (rule floor_mono)
  then show ?thesis using False by (auto simp: usable_spec_def proportional_def)
qed

section \<open>The loops\<close>

text \<open>What a call must satisfy for its \<open>int\<close> arithmetic to stay in range.\<close>

definition sizes_ok :: "int \<Rightarrow> int \<Rightarrow> string list \<Rightarrow> bytes \<Rightarrow> bool" where
  "sizes_ok bs bpt tokens data \<longleftrightarrow>
     0 < bs \<and> int (length tokens) + bs < 2 ^ 31 \<and> int (length data) < 2 ^ 31 \<and>
     (bpt > 0 \<longrightarrow> int (length tokens) * bpt < 2 ^ 31)"

definition prefix_lens :: "int \<Rightarrow> nat \<Rightarrow> nat list" where
  "prefix_lens bs n = map ((*) (nat bs)) [1..<Suc (n div nat bs)]"

definition write_prefixes ::
    "(string \<Rightarrow> 64 word) \<Rightarrow> string list \<Rightarrow> (nat \<Rightarrow> PrefixEntry) \<Rightarrow> nat list \<Rightarrow>
     (64 word \<times> PrefixEntry) list \<Rightarrow> (64 word \<times> PrefixEntry) list" where
  "write_prefixes hash tokens g ps m = fold (\<lambda>p. AList.update (HashTokens hash tokens p) (g p)) ps m"

lemma block_multiple_le:
  fixes B k N :: nat
  assumes "0 < B"
  shows "B * k \<le> N \<longleftrightarrow> k \<le> N div B"
  using assms by (metis less_eq_div_iff_mult_less_eq mult.commute)

lemma i32_to_size_of_nat: "int n < 2 ^ 31 \<Longrightarrow> i32_to_size (int n) = n"
  using i32_to_size_nonneg [of "int n"] by (simp add: in_i32_def)

lemma usable_at:
  assumes ok: "sizes_ok bs bpt tokens data" and "0 < p" "p \<le> length tokens"
  shows "UsableBytes bpt (int p) (int (length tokens)) (int (length data)) =
           Inr (usable_spec bpt (int p) (int (length tokens)) (int (length data)))"
proof (rule UsableBytes_eq)
  assume "bpt > 0"
  then have "int p * bpt \<le> int (length tokens) * bpt" using assms(3) by (intro mult_right_mono) auto
  moreover have "int (length tokens) * bpt < 2 ^ 31" using ok \<open>bpt > 0\<close> by (simp add: sizes_ok_def)
  ultimately show "int p * bpt < 2 ^ 31" by linarith
qed (use assms in \<open>auto simp: sizes_ok_def\<close>)

lemma store_loop_eq:
  assumes ok: "sizes_ok bs bpt tokens data" and B: "B = nat bs" and "0 < k"
  shows "store_loop hash bs bpt tokens (int (length data)) mk (int (B * k)) m =
    Some (Inr (write_prefixes hash tokens
      (\<lambda>p. mk (usable_spec bpt (int p) (int (length tokens)) (int (length data))))
      (map ((*) B) [k..<Suc (length tokens div B)]) m))"
  using \<open>0 < k\<close>
proof (induction "Suc (length tokens div B) - k" arbitrary: k m)
  case 0
  then have "\<not> B * k \<le> length tokens"
    using block_multiple_le [of B k "length tokens"] ok B by (simp add: sizes_ok_def)
  then have "\<not> int (B * k) \<le> size_to_i32 (length tokens)"
    using ok by (simp add: sizes_ok_def del: of_nat_mult)
  with 0 show ?case by (subst store_loop.simps) (simp add: write_prefixes_def)
next
  case (Suc d)
  then have k: "k \<le> length tokens div B" by simp
  have Bpos: "0 < B" "int B = bs" using ok B by (simp_all add: sizes_ok_def)
  then have le: "B * k \<le> length tokens" using block_multiple_le k by blast
  have sz: "size_to_i32 (length tokens) = int (length tokens)" using ok by (simp add: sizes_ok_def)
  have add: "i32_add (int (B * k)) bs = Inr (int (B * Suc k))"
    using ok le Bpos by (auto simp: sizes_ok_def i32_add_def in_i32_def algebra_simps
        simp flip: of_nat_mult of_nat_add)
  have lt: "int (B * k) < 2 ^ 31" using le ok by (simp add: sizes_ok_def flip: of_nat_le_iff [where 'a = int])
  show ?case
    using Suc.hyps(1) [of "Suc k"] Suc.hyps(2) Suc.prems k le Bpos
    by (subst store_loop.simps)
      (simp add: sz usable_at [OF ok] add i32_to_size_of_nat [OF lt] write_prefixes_def upt_conv_Cons
        del: of_nat_mult upt_Suc)
qed

text \<open>With a block size of zero the loop of \<open>Store\<close> never ends.\<close>

lemma UsableBytes_0: "\<exists>v. UsableBytes bpt 0 n b = Inr v"
  by (auto simp: UsableBytes_def i32_mul_def in_i32_def double_to_i32_def trunc_def Let_def)

lemma store_loop_diverges:
  assumes "int (length tokens) < 2 ^ 31"
  shows "store_loop hash 0 bpt tokens b mk 0 m = None"
proof (rule ccontr)
  assume "store_loop hash 0 bpt tokens b mk 0 m \<noteq> None"
  then obtain r where ret: "store_loop hash 0 bpt tokens b mk 0 m = Some r" by blast
  have "int (length tokens) < 2 ^ 31 \<longrightarrow> (0::int) = 0 \<longrightarrow> (0::int) = 0 \<longrightarrow> False"
  proof (rule store_loop.raw_induct
      [where P = "\<lambda>hash bs bpt tokens b mk p m r. int (length tokens) < 2 ^ 31 \<longrightarrow> bs = 0 \<longrightarrow> p = 0 \<longrightarrow> False",
       OF _ ret])
    fix f :: "(string \<Rightarrow> 64 word) \<Rightarrow> int \<Rightarrow> int \<Rightarrow> string list \<Rightarrow> int \<Rightarrow> (int \<Rightarrow> PrefixEntry) \<Rightarrow> int \<Rightarrow>
      (64 word \<times> PrefixEntry) list \<Rightarrow> (ub + (64 word \<times> PrefixEntry) list) option"
    fix hash bs bpt tokens b mk p m r
    assume IH: "\<And>hash bs bpt tokens b mk p m r. f hash bs bpt tokens b mk p m = Some r \<Longrightarrow>
        int (length tokens) < 2 ^ 31 \<longrightarrow> bs = 0 \<longrightarrow> p = 0 \<longrightarrow> False"
      and body: "(if p \<le> size_to_i32 (length tokens)
         then case UsableBytes bpt p (size_to_i32 (length tokens)) b of Inl u \<Rightarrow> Some (Inl u)
           | Inr usable \<Rightarrow> (case i32_add p bs of Inl u \<Rightarrow> Some (Inl u)
             | Inr p' \<Rightarrow> f hash bs bpt tokens b mk p'
                 (AList.update (HashTokens hash tokens (i32_to_size p)) (mk usable) m))
         else Some (Inr m)) = Some r"
    show "int (length tokens) < 2 ^ 31 \<longrightarrow> bs = 0 \<longrightarrow> p = 0 \<longrightarrow> False"
    proof (intro impI)
      assume "int (length tokens) < 2 ^ 31" "bs = 0" "p = 0"
      moreover obtain v where "UsableBytes bpt 0 (int (length tokens)) b = Inr v"
        using UsableBytes_0 by blast
      ultimately have "f hash 0 bpt tokens b mk 0 (AList.update (HashTokens hash tokens 0) (mk v) m) = Some r"
        using body by (simp add: i32_add_def in_i32_def)
      from IH [OF this] \<open>int (length tokens) < 2 ^ 31\<close> show False by blast
    qed
  qed
  then show False using assms by simp
qed

text \<open>How many of the first \<open>n\<close> blocks are cached without a gap.\<close>

definition lookup_depth :: "(nat \<Rightarrow> 'e option) \<Rightarrow> nat \<Rightarrow> nat" where
  "lookup_depth f n = length (takeWhile (\<lambda>k. f k \<noteq> None) [1..<Suc n])"

lemma lookup_depth_le: "lookup_depth f n \<le> n"
  using length_takeWhile_le [of "\<lambda>k. f k \<noteq> None" "[1..<Suc n]"]
  by (simp add: lookup_depth_def del: upt_Suc)

lemma lookup_depth_all:
  assumes "1 \<le> k" "k \<le> lookup_depth f n"
  shows "f k \<noteq> None"
proof -
  let ?t = "takeWhile (\<lambda>k. f k \<noteq> None) [1..<Suc n]"
  have len: "k - 1 < length ?t" using assms by (simp add: lookup_depth_def del: upt_Suc)
  then have "?t ! (k - 1) = [1..<Suc n] ! (k - 1)" by (rule takeWhile_nth)
  also have "\<dots> = k" using assms lookup_depth_le [of f n] by (simp del: upt_Suc)
  finally have "k \<in> set ?t" using nth_mem [OF len] by metis
  then show ?thesis by (rule set_takeWhileD [THEN conjunct2])
qed

lemma lookup_depth_stop: "lookup_depth f n < n \<Longrightarrow> f (Suc (lookup_depth f n)) = None"
  using nth_length_takeWhile [of "\<lambda>k. f k \<noteq> None" "[1..<Suc n]"]
  by (simp add: lookup_depth_def del: upt_Suc)

lemma lookup_depth_ge:
  assumes "\<forall>k. 1 \<le> k \<and> k \<le> d \<longrightarrow> f k \<noteq> None" "d \<le> n"
  shows "d \<le> lookup_depth f n"
proof (rule ccontr)
  assume "\<not> d \<le> lookup_depth f n"
  then have "lookup_depth f n < n" "Suc (lookup_depth f n) \<le> d" using assms(2) by simp_all
  with lookup_depth_stop [of f n] assms(1) show False by simp
qed

lemma lookup_loop_eq:
  fixes m :: "(64 word \<times> PrefixEntry) list" and hash :: "string \<Rightarrow> 64 word" and tokens :: "string list"
  assumes "0 < bs" "int M + bs < 2 ^ 31" and B: "B = nat bs" and "0 < k"
  defines "F \<equiv> \<lambda>k. map_of m (HashTokens hash tokens (B * k))"
  shows "lookup_loop hash bs m tokens (int M) (int (B * k)) best =
    Some (Inr (let d = length (takeWhile (\<lambda>k. F k \<noteq> None) [k..<Suc (M div B)])
               in if d = 0 then best else (the (F (k + d - 1)), int (B * (k + d - 1)))))"
  using \<open>0 < k\<close>
proof (induction "Suc (M div B) - k" arbitrary: k best)
  case 0
  then have "\<not> B * k \<le> M" using block_multiple_le [of B k M] assms(1) B by simp
  then have "\<not> int (B * k) \<le> int M" by linarith
  with 0 show ?case by (subst lookup_loop.simps) (simp del: of_nat_mult)
next
  case (Suc d)
  then have k: "k \<le> M div B" by simp
  have Bpos: "0 < B" "int B = bs" using assms(1) B by simp_all
  then have le: "B * k \<le> M" using block_multiple_le k by blast
  then have lei: "int (B * k) \<le> int M" by linarith
  have add: "i32_add (int (B * k)) bs = Inr (int (B * Suc k))"
    using assms(2) le Bpos by (auto simp: i32_add_def in_i32_def algebra_simps
        simp flip: of_nat_mult of_nat_add)
  have lt: "int (B * k) < 2 ^ 31" using lei assms(1,2) by linarith
  have upt: "[k..<Suc (M div B)] = k # [Suc k..<Suc (M div B)]" using k by (simp add: upt_conv_Cons)
  show ?case
  proof (cases "F k")
    case None
    then show ?thesis
      by (subst lookup_loop.simps)
        (simp add: upt F_def i32_to_size_of_nat [OF lt] del: of_nat_mult upt_Suc)
  next
    case (Some e)
    then have "lookup_loop hash bs m tokens (int M) (int (B * k)) best =
      lookup_loop hash bs m tokens (int M) (int (B * Suc k)) (e, int (B * k))"
      using lei by (subst lookup_loop.simps)
        (simp add: F_def add i32_to_size_of_nat [OF lt] del: of_nat_mult upt_Suc)
    also have "\<dots> = Some (Inr (let d = length (takeWhile (\<lambda>k. F k \<noteq> None) [Suc k..<Suc (M div B)])
        in if d = 0 then (e, int (B * k)) else (the (F (Suc k + d - 1)), int (B * (Suc k + d - 1)))))"
      using Suc.hyps(1) [of "Suc k" "(e, int (B * k))"] Suc.hyps(2) by simp
    finally show ?thesis using Some by (simp add: upt Let_def del: upt_Suc of_nat_mult)
  qed
qed

section \<open>What Store and Lookup compute\<close>

definition stored_entry :: "(string \<Rightarrow> 64 word) \<Rightarrow> 's PrefixMap \<Rightarrow> string list \<Rightarrow> bytes \<Rightarrow> string \<Rightarrow> int \<Rightarrow> nat \<Rightarrow> PrefixEntry" where
  "stored_entry hash pm tokens data owner_id priority p =
     \<lparr>pe_obj_id = HashBytesHex hash data,
      pe_usable_len_bytes = usable_spec (bytes_per_token pm) (int p) (int (length tokens)) (int (length data)),
      pe_version = version_clock pm + 1, pe_owner_id = owner_id, pe_priority = priority\<rparr>"

definition stored_pm :: "(string \<Rightarrow> 64 word) \<Rightarrow> int \<Rightarrow> 's PrefixMap \<Rightarrow> string list \<Rightarrow> bytes \<Rightarrow> string \<Rightarrow> int \<Rightarrow> 's \<Rightarrow> 's PrefixMap" where
  "stored_pm hash now pm tokens data owner_id priority s =
     pm\<lparr>storage := s, version_clock := version_clock pm + 1,
        obj_table := AList.update (HashBytesHex hash data)
          \<lparr>om_total_bytes = int (length data), om_last_access = now, om_inflight_reads = 0\<rparr> (obj_table pm),
        prefix_map := write_prefixes hash tokens (stored_entry hash pm tokens data owner_id priority)
          (prefix_lens (block_size pm) (length tokens)) (prefix_map pm)\<rparr>"

lemma stored_pm_sel [simp]:
  "block_size (stored_pm hash now pm tokens data owner_id priority s) = block_size pm"
  "bytes_per_token (stored_pm hash now pm tokens data owner_id priority s) = bytes_per_token pm"
  "version_clock (stored_pm hash now pm tokens data owner_id priority s) = version_clock pm + 1"
  "storage (stored_pm hash now pm tokens data owner_id priority s) = s"
  by (simp_all add: stored_pm_def)

lemma Store_eq:
  assumes ok: "sizes_ok (block_size pm) (bytes_per_token pm) tokens data"
  shows "Store ops hash now pm tokens data owner_id priority skip_put =
    (case (if skip_put then Inr (True, storage pm) else sPut ops (storage pm) (HashBytesHex hash data) data) of
       Inl u \<Rightarrow> Some (Inl u)
     | Inr (done, s) \<Rightarrow>
         if done then Some (Inr (HashBytesHex hash data, stored_pm hash now pm tokens data owner_id priority s))
         else Some (Inr ([], pm\<lparr>storage := s\<rparr>)))"
proof -
  let ?bs = "block_size pm"
  have bs: "0 < ?bs" "i32_to_size ?bs = nat ?bs" "int (length data) < 2 ^ 31"
    using ok i32_to_size_of_nat [of "nat ?bs"] by (simp_all add: sizes_ok_def)
  have short: "length tokens < nat ?bs \<Longrightarrow> prefix_lens ?bs (length tokens) = []"
    by (simp add: prefix_lens_def)
  have loop: "store_loop hash ?bs (bytes_per_token pm) tokens (int (length data)) mk ?bs (prefix_map pm) =
      Some (Inr (write_prefixes hash tokens
        (\<lambda>p. mk (usable_spec (bytes_per_token pm) (int p) (int (length tokens)) (int (length data))))
        (prefix_lens ?bs (length tokens)) (prefix_map pm)))" for mk
    using store_loop_eq [OF ok refl, of 1 hash mk "prefix_map pm"] bs(1) by (simp add: prefix_lens_def)
  show ?thesis
    using bs short
    by (auto simp: Store_def Let_def loop stored_pm_def stored_entry_def [abs_def] write_prefixes_def
        split: sum.splits prod.splits)
qed

lemma Store_diverges:
  assumes "block_size pm = 0" "int (length tokens) < 2 ^ 31"
    and "skip_put \<or> (\<exists>s. sPut ops (storage pm) (HashBytesHex hash data) data = Inr (True, s))"
  shows "Store ops hash now pm tokens data owner_id priority skip_put = None"
  using assms by (auto simp: Store_def Let_def i32_to_size_def store_loop_diverges)

text \<open>The token count a lookup may use.\<close>

definition lookup_limit :: "string list \<Rightarrow> int \<Rightarrow> nat" where
  "lookup_limit tokens max_len =
     (if max_len \<le> 0 \<or> max_len > int (length tokens) then length tokens else nat max_len)"

definition block_entry :: "(string \<Rightarrow> 64 word) \<Rightarrow> 's PrefixMap \<Rightarrow> string list \<Rightarrow> nat \<Rightarrow> PrefixEntry option" where
  "block_entry hash pm tokens k = map_of (prefix_map pm) (HashTokens hash tokens (nat (block_size pm) * k))"

lemma Lookup_eq:
  fixes hash :: "string \<Rightarrow> 64 word" and max_len :: int
  assumes "0 < block_size pm" "int (length tokens) + block_size pm < 2 ^ 31"
  defines "d \<equiv> lookup_depth (block_entry hash pm tokens) (lookup_limit tokens max_len div nat (block_size pm))"
  shows "Lookup hash pm tokens max_len = Some (Inr
    (if d = 0 then no_result
     else \<lparr>lr_hit = True, lr_obj_id = pe_obj_id (the (block_entry hash pm tokens d)),
           lr_usable_len_bytes = pe_usable_len_bytes (the (block_entry hash pm tokens d)),
           lr_prefix_tokens = int (nat (block_size pm) * d)\<rparr>))"
proof -
  let ?bs = "block_size pm" and ?M = "lookup_limit tokens max_len"
  have bs: "i32_to_size ?bs = nat ?bs" "int (nat ?bs) = ?bs" "0 < nat ?bs"
    using assms(1,2) i32_to_size_of_nat [of "nat ?bs"] by simp_all
  have M: "?M \<le> length tokens" by (auto simp: lookup_limit_def)
  have lim: "(if max_len \<le> 0 \<or> max_len > size_to_i32 (length tokens) then size_to_i32 (length tokens)
      else max_len) = int ?M"
    using assms(1,2) by (simp add: lookup_limit_def)
  have MB: "int ?M + ?bs < 2 ^ 31" using M assms(2) by linarith
  have loop: "lookup_loop hash ?bs (prefix_map pm) tokens (int ?M) ?bs (no_entry, 0) =
      Some (Inr (if d = 0 then (no_entry, 0)
        else (the (block_entry hash pm tokens d), int (nat ?bs * d))))"
    using lookup_loop_eq [OF assms(1) MB refl, of 1 hash "prefix_map pm" tokens "(no_entry, 0)"] bs(2)
    by (simp add: block_entry_def [abs_def] lookup_depth_def d_def Let_def del: upt_Suc of_nat_mult)
  show ?thesis
  proof (cases "length tokens < nat ?bs")
    case True
    then have "?M div nat ?bs = 0" using M by simp
    then have "d = 0" using lookup_depth_le [of _ "?M div nat ?bs"] by (simp add: d_def lookup_depth_def)
    with True show ?thesis using bs by (simp add: Lookup_def)
  next
    case False
    then show ?thesis using bs by (simp add: Lookup_def lim loop Let_def del: of_nat_mult)
  qed
qed

section \<open>The map after a Store\<close>

lemma map_of_update [simp]: "map_of (AList.update k v al) = (map_of al)(k \<mapsto> v)"
  by (rule update_conv')

lemma write_prefixes_Nil [simp]: "write_prefixes hash tokens g [] m = m"
  by (simp add: write_prefixes_def)

lemma map_of_write_prefixes_snoc:
  "map_of (write_prefixes hash tokens g (ps @ [q]) m) =
   (map_of (write_prefixes hash tokens g ps m))(HashTokens hash tokens q \<mapsto> g q)"
  by (simp add: write_prefixes_def)

lemma map_of_write_prefixes_other:
  "\<forall>p \<in> set ps. HashTokens hash tokens p \<noteq> h \<Longrightarrow> map_of (write_prefixes hash tokens g ps m) h = map_of m h"
  by (induction ps rule: rev_induct) (auto simp: map_of_write_prefixes_snoc)

lemma map_of_write_prefixes_mem:
  "p \<in> set ps \<Longrightarrow> \<exists>q \<in> set ps. HashTokens hash tokens q = HashTokens hash tokens p \<and>
     map_of (write_prefixes hash tokens g ps m) (HashTokens hash tokens p) = Some (g q)"
  by (induction ps rule: rev_induct) (auto simp: map_of_write_prefixes_snoc)

lemma map_of_write_prefixes_last:
  "ps \<noteq> [] \<Longrightarrow> map_of (write_prefixes hash tokens g ps m) (HashTokens hash tokens (last ps)) = Some (g (last ps))"
  by (cases ps rule: rev_cases) (simp_all add: map_of_write_prefixes_snoc)

lemma distinct_write_prefixes:
  "distinct (map fst m) \<Longrightarrow> distinct (map fst (write_prefixes hash tokens g ps m))"
  by (induction ps arbitrary: m) (simp_all add: write_prefixes_def distinct_update)

lemma set_prefix_lens: "0 < bs \<Longrightarrow> set (prefix_lens bs n) = {nat bs * k | k. 1 \<le> k \<and> k \<le> n div nat bs}"
  by (auto simp: prefix_lens_def image_iff)

lemma prefix_lens_le: "0 < bs \<Longrightarrow> p \<in> set (prefix_lens bs n) \<Longrightarrow> 0 < p \<and> p \<le> n"
  by (auto simp: set_prefix_lens block_multiple_le)

lemma last_prefix_lens: "0 < bs \<Longrightarrow> nat bs \<le> n \<Longrightarrow> prefix_lens bs n \<noteq> [] \<and> last (prefix_lens bs n) = nat bs * (n div nat bs)"
proof -
  assume "0 < bs" "nat bs \<le> n"
  then have "1 \<le> n div nat bs" using block_multiple_le [of "nat bs" 1 n] by simp
  then show ?thesis by (simp add: prefix_lens_def)
qed

lemma length_HashBytesHex: "16 \<le> length (HashBytesHex hash data)"
  by (simp add: HashBytesHex_def pad_left_def)

lemma HashBytesHex_nonempty [simp]: "HashBytesHex hash data \<noteq> []"
  using length_HashBytesHex [of hash data] by auto

lemma HashTokens_take: "p \<le> n \<Longrightarrow> HashTokens hash (take n tokens) p = HashTokens hash tokens p"
  by (simp add: HashTokens_def min_def)

text \<open>Every block of the stored tokens is found afterwards, with the new object.\<close>

lemma block_entry_stored:
  assumes "0 < block_size pm" "1 \<le> k" "k \<le> length tokens div nat (block_size pm)"
  shows "\<exists>p. 0 < p \<and> p \<le> length tokens \<and>
    block_entry hash (stored_pm hash now pm tokens data owner_id priority s) tokens k =
    Some (stored_entry hash pm tokens data owner_id priority p)"
proof -
  let ?B = "nat (block_size pm)" and ?ps = "prefix_lens (block_size pm) (length tokens)"
  have "?B * k \<in> set ?ps" using assms by (auto simp: set_prefix_lens)
  from map_of_write_prefixes_mem [OF this, of hash tokens "stored_entry hash pm tokens data owner_id priority" "prefix_map pm"]
  obtain q where "q \<in> set ?ps" "map_of (write_prefixes hash tokens (stored_entry hash pm tokens data owner_id priority) ?ps
      (prefix_map pm)) (HashTokens hash tokens (?B * k)) = Some (stored_entry hash pm tokens data owner_id priority q)"
    by blast
  then show ?thesis
    using prefix_lens_le [OF assms(1)] by (intro exI [of _ q]) (simp add: block_entry_def stored_pm_def)
qed

lemma block_entry_stored_last:
  assumes "0 < block_size pm" "nat (block_size pm) \<le> length tokens"
  shows "block_entry hash (stored_pm hash now pm tokens data owner_id priority s) tokens
      (length tokens div nat (block_size pm)) =
    Some (stored_entry hash pm tokens data owner_id priority
      (nat (block_size pm) * (length tokens div nat (block_size pm))))"
  using last_prefix_lens [OF assms]
    map_of_write_prefixes_last [of "prefix_lens (block_size pm) (length tokens)" hash tokens
      "stored_entry hash pm tokens data owner_id priority" "prefix_map pm"]
  by (simp add: block_entry_def stored_pm_def)

section \<open>The well-formedness invariant\<close>

text \<open>
  Keys are unique; an entry names an object of the object table, carries a version the clock has
  reached, and its byte count lies within the object.
\<close>

definition entry_ok :: "'s PrefixMap \<Rightarrow> PrefixEntry \<Rightarrow> bool" where
  "entry_ok pm e \<longleftrightarrow>
     1 \<le> pe_version e \<and> pe_version e \<le> version_clock pm \<and> 0 \<le> pe_usable_len_bytes e \<and>
     (case map_of (obj_table pm) (pe_obj_id e) of
        None \<Rightarrow> False
      | Some om \<Rightarrow> pe_usable_len_bytes e \<le> om_total_bytes om)"

definition pm_ok :: "'s PrefixMap \<Rightarrow> bool" where
  "pm_ok pm \<longleftrightarrow>
     distinct (map fst (prefix_map pm)) \<and> distinct (map fst (obj_table pm)) \<and> 0 \<le> version_clock pm \<and>
     (\<forall>e \<in> ran (map_of (prefix_map pm)). entry_ok pm e)"

text \<open>The object a call stores does not clash with a known object of another size.\<close>

definition no_size_clash :: "(string \<Rightarrow> 64 word) \<Rightarrow> 's PrefixMap \<Rightarrow> bytes \<Rightarrow> bool" where
  "no_size_clash hash pm data \<longleftrightarrow>
     (case map_of (obj_table pm) (HashBytesHex hash data) of
        None \<Rightarrow> True | Some om \<Rightarrow> om_total_bytes om = int (length data))"

lemma ran_write_prefixes:
  "ran (map_of (write_prefixes hash tokens g ps m)) \<subseteq> g ` set ps \<union> ran (map_of m)"
proof (induction ps rule: rev_induct)
  case (snoc q ps)
  then show ?case
    by (auto simp: map_of_write_prefixes_snoc ran_def split: if_splits)
qed simp

lemma entry_ok_stored:
  assumes "entry_ok pm e" "no_size_clash hash pm data"
  shows "entry_ok (stored_pm hash now pm tokens data owner_id priority s) e"
  using assms by (auto simp: entry_ok_def no_size_clash_def stored_pm_def split: option.splits)

lemma new_entry_ok:
  assumes "0 < p" "0 \<le> version_clock pm"
  shows "entry_ok (stored_pm hash now pm tokens data owner_id priority s)
    (stored_entry hash pm tokens data owner_id priority p)"
  using assms usable_spec_bounds [of "int p" "int (length data)" "bytes_per_token pm" "int (length tokens)"]
  by (auto simp: entry_ok_def stored_pm_def stored_entry_def)

lemma stored_pm_ok:
  assumes "pm_ok pm" "0 < block_size pm" "no_size_clash hash pm data"
  shows "pm_ok (stored_pm hash now pm tokens data owner_id priority s)"
proof -
  let ?pm = "stored_pm hash now pm tokens data owner_id priority s"
  have "entry_ok ?pm e" if "e \<in> ran (map_of (prefix_map ?pm))" for e
  proof -
    have "e \<in> stored_entry hash pm tokens data owner_id priority ` set (prefix_lens (block_size pm) (length tokens))
        \<union> ran (map_of (prefix_map pm))"
      using that ran_write_prefixes by (fastforce simp: stored_pm_def)
    then consider (new) p where "p \<in> set (prefix_lens (block_size pm) (length tokens))"
        "e = stored_entry hash pm tokens data owner_id priority p"
      | (old) "e \<in> ran (map_of (prefix_map pm))" by blast
    then show ?thesis
    proof cases
      case new
      with prefix_lens_le [OF assms(2)] assms(1) show ?thesis by (simp add: new_entry_ok pm_ok_def)
    next
      case old
      with assms(1,3) show ?thesis by (simp add: entry_ok_stored pm_ok_def)
    qed
  qed
  then show ?thesis
    using assms(1) by (simp add: pm_ok_def distinct_write_prefixes distinct_update stored_pm_def)
qed

section \<open>The abstract cache\<close>

text \<open>
  What the prefix map stands for: a partial map from token lists to entries.  A store binds every
  block-aligned prefix of its tokens; a lookup walks the prefixes until one is not bound.
\<close>

type_synonym abs_cache = "string list \<Rightarrow> PrefixEntry option"

definition abs_store :: "abs_cache \<Rightarrow> int \<Rightarrow> string list \<Rightarrow> (nat \<Rightarrow> PrefixEntry) \<Rightarrow> abs_cache" where
  "abs_store A bs tokens g =
     (\<lambda>ts. if length ts \<in> set (prefix_lens bs (length tokens)) \<and> ts = take (length ts) tokens
           then Some (g (length ts)) else A ts)"

definition abs_lookup :: "abs_cache \<Rightarrow> int \<Rightarrow> string list \<Rightarrow> nat \<Rightarrow> LookupResult" where
  "abs_lookup A bs tokens limit =
     (let d = lookup_depth (\<lambda>k. A (take (nat bs * k) tokens)) (limit div nat bs)
      in case (if d = 0 then None else A (take (nat bs * d) tokens)) of
           None \<Rightarrow> no_result
         | Some e \<Rightarrow> \<lparr>lr_hit = True, lr_obj_id = pe_obj_id e,
                      lr_usable_len_bytes = pe_usable_len_bytes e,
                      lr_prefix_tokens = int (nat bs * d)\<rparr>)"

text \<open>The block-aligned prefixes of a token list.\<close>

definition block_prefixes :: "int \<Rightarrow> string list \<Rightarrow> string list set" where
  "block_prefixes bs tokens = (\<lambda>p. take p tokens) ` set (prefix_lens bs (length tokens))"

text \<open>
  The prefix map represents \<open>A\<close> on a universe \<open>T\<close> of token lists on which the hash does not
  collide.
\<close>

definition represents :: "(string \<Rightarrow> 64 word) \<Rightarrow> string list set \<Rightarrow> 's PrefixMap \<Rightarrow> abs_cache \<Rightarrow> bool" where
  "represents hash T pm A \<longleftrightarrow>
     inj_on (\<lambda>ts. HashTokens hash ts (length ts)) T \<and>
     (\<forall>ts \<in> T. map_of (prefix_map pm) (HashTokens hash ts (length ts)) = A ts)"

lemma HashTokens_own_length: "p \<le> length tokens \<Longrightarrow>
    HashTokens hash (take p tokens) (length (take p tokens)) = HashTokens hash tokens p"
  by (simp add: HashTokens_def min_def)

lemma represents_stored:
  assumes rep: "represents hash T pm A" and bs: "0 < block_size pm"
    and T: "block_prefixes (block_size pm) tokens \<subseteq> T"
  shows "represents hash T (stored_pm hash now pm tokens data owner_id priority s)
    (abs_store A (block_size pm) tokens (stored_entry hash pm tokens data owner_id priority))"
proof -
  let ?g = "stored_entry hash pm tokens data owner_id priority"
  let ?ps = "prefix_lens (block_size pm) (length tokens)"
  let ?H = "\<lambda>ts. HashTokens hash ts (length ts)"
  have inj: "inj_on ?H T" using rep by (simp add: represents_def)
  have "map_of (write_prefixes hash tokens ?g ?ps (prefix_map pm)) (?H ts) =
      abs_store A (block_size pm) tokens ?g ts" if ts: "ts \<in> T" for ts
  proof -
    have mem: "p \<in> set ?ps \<Longrightarrow> HashTokens hash tokens p = ?H ts \<longleftrightarrow> ts = take p tokens" for p
    proof -
      assume p: "p \<in> set ?ps"
      then have le: "p \<le> length tokens" using prefix_lens_le [OF bs] by blast
      have "take p tokens \<in> T" using T p by (auto simp: block_prefixes_def)
      with inj ts HashTokens_own_length [OF le, of hash] show ?thesis by (metis inj_on_eq_iff)
    qed
    show ?thesis
    proof (cases "length ts \<in> set ?ps \<and> ts = take (length ts) tokens")
      case True
      then have H: "HashTokens hash tokens (length ts) = ?H ts" using mem by blast
      from map_of_write_prefixes_mem [OF True [THEN conjunct1], of hash tokens ?g "prefix_map pm"]
      obtain q where q: "q \<in> set ?ps" "HashTokens hash tokens q = ?H ts"
        "map_of (write_prefixes hash tokens ?g ?ps (prefix_map pm)) (?H ts) = Some (?g q)"
        using H by auto
      then have "ts = take q tokens" using mem by blast
      then have "q = length ts" using q(1) prefix_lens_le [OF bs, of q] by simp
      with True q(3) show ?thesis by (simp add: abs_store_def)
    next
      case False
      have "\<forall>p \<in> set ?ps. HashTokens hash tokens p \<noteq> ?H ts"
      proof
        fix p assume p: "p \<in> set ?ps"
        show "HashTokens hash tokens p \<noteq> ?H ts"
          using False mem [OF p] p prefix_lens_le [OF bs p] by auto
      qed
      then have "map_of (write_prefixes hash tokens ?g ?ps (prefix_map pm)) (?H ts) = A ts"
        using map_of_write_prefixes_other rep ts by (simp add: represents_def)
      moreover have "abs_store A (block_size pm) tokens ?g ts = A ts"
        using False by (simp only: abs_store_def if_False)
      ultimately show ?thesis by simp
    qed
  qed
  then show ?thesis using inj by (simp add: represents_def stored_pm_def)
qed

lemma lookup_depth_cong: "(\<And>k. 1 \<le> k \<Longrightarrow> k \<le> n \<Longrightarrow> f k = g k) \<Longrightarrow> lookup_depth f n = lookup_depth g n"
  unfolding lookup_depth_def by (intro arg_cong [of _ _ length] takeWhile_cong) auto

section \<open>Properties of the prefix map\<close>

text \<open>A prefix map, a hash and a store used by the closed instances below.\<close>

definition demo_hash :: "string \<Rightarrow> 64 word" where
  "demo_hash s = of_nat (length s)"

definition demo_ops :: "bytes option storage_ops" where
  "demo_ops = \<lparr>sPut = (\<lambda>s i d. Inr (True, Some d)), sGetRange = (\<lambda>s i n out. Inr (s \<noteq> None, take (nat n) (the s), s)),
               sDelete = (\<lambda>s i. Inr (True, None)), sSize = (\<lambda>s. 0)\<rparr>"

definition demo_pm :: "int \<Rightarrow> bytes option PrefixMap" where
  "demo_pm bs = \<lparr>block_size = bs, bytes_per_token = 1, version_clock = 0, storage = None,
                 prefix_map = [], obj_table = []\<rparr>"

definition put_succeeds :: "'s storage_ops \<Rightarrow> (string \<Rightarrow> 64 word) \<Rightarrow> 's PrefixMap \<Rightarrow> bytes \<Rightarrow> bool \<Rightarrow> 's \<Rightarrow> bool" where
  "put_succeeds ops hash pm data skip_put s \<longleftrightarrow>
     (if skip_put then s = storage pm else sPut ops (storage pm) (HashBytesHex hash data) data = Inr (True, s))"

lemma Store_succeeds:
  assumes "sizes_ok (block_size pm) (bytes_per_token pm) tokens data"
    and "put_succeeds ops hash pm data skip_put s"
  shows "Store ops hash now pm tokens data owner_id priority skip_put =
    Some (Inr (HashBytesHex hash data, stored_pm hash now pm tokens data owner_id priority s))"
  using assms by (auto simp: Store_eq put_succeeds_def split: if_splits)

text \<open>Another token list that begins with the same \<open>k\<close> blocks finds each of them.\<close>

lemma stored_shared_blocks:
  assumes "sizes_ok (block_size pm) (bytes_per_token pm) tokens data"
    and "q = nat (block_size pm) * k" and "q \<le> length tokens" and "take q tokens' = take q tokens"
    and "1 \<le> j" "j \<le> k"
  obtains p where "0 < p" "block_entry hash (stored_pm hash now pm tokens data owner_id priority s) tokens' j =
      Some (stored_entry hash pm tokens data owner_id priority p)"
proof -
  let ?B = "nat (block_size pm)" and ?pm = "stored_pm hash now pm tokens data owner_id priority s"
  have bs: "0 < block_size pm" "0 < ?B" using assms(1) by (simp_all add: sizes_ok_def)
  have "j \<le> length tokens div ?B" using assms(2,3,6) bs(2) block_multiple_le [of ?B k "length tokens"] by simp
  moreover have "block_entry hash ?pm tokens' j = block_entry hash ?pm tokens j"
  proof -
    have "?B * j \<le> q" using assms(2,6) by simp
    then have "take (?B * j) tokens' = take (?B * j) tokens"
      using assms(4) by (metis min.absorb1 take_take)
    then show ?thesis by (simp add: block_entry_def HashTokens_def)
  qed
  ultimately show thesis
    using block_entry_stored [OF bs(1) assms(5), of tokens hash now data owner_id priority s] that by auto
qed

text \<open>Every limit that admits these blocks, the default too, gives a hit of at least that length.\<close>

lemma Lookup_stored_longer:
  assumes "sizes_ok (block_size pm) (bytes_per_token pm) tokens data"
    and "1 \<le> k" and "q = nat (block_size pm) * k" and "q \<le> length tokens" and "q \<le> length tokens'"
    and "take q tokens' = take q tokens" and "int (length tokens') + block_size pm < 2 ^ 31"
    and "max_len \<le> 0 \<or> int q \<le> max_len"
  shows "\<exists>r. Lookup hash (stored_pm hash now pm tokens data owner_id priority s) tokens' max_len = Some (Inr r) \<and>
    lr_hit r \<and> int q \<le> lr_prefix_tokens r"
proof -
  let ?B = "nat (block_size pm)" and ?pm = "stored_pm hash now pm tokens data owner_id priority s"
  let ?n = "lookup_limit tokens' max_len div nat (block_size pm)"
  let ?d = "lookup_depth (block_entry hash ?pm tokens') ?n"
  have bs: "0 < block_size pm" "0 < ?B" using assms(1) by (simp_all add: sizes_ok_def)
  have "q \<le> lookup_limit tokens' max_len" using assms(5,8) by (auto simp: lookup_limit_def)
  then have "k \<le> ?n" using assms(3) bs(2) block_multiple_le by simp
  moreover have "\<forall>j. 1 \<le> j \<and> j \<le> k \<longrightarrow> block_entry hash ?pm tokens' j \<noteq> None"
    using stored_shared_blocks [OF assms(1,3,4,6)] by (metis option.distinct(1))
  ultimately have "k \<le> ?d" by (intro lookup_depth_ge)
  moreover from this have "q \<le> ?B * ?d" using assms(3) by simp
  ultimately show ?thesis
    using Lookup_eq [of ?pm tokens' hash max_len] bs(1) assms(2,7) by (simp del: of_nat_mult)
qed

lemma Lookup_stored_shared:
  assumes "sizes_ok (block_size pm) (bytes_per_token pm) tokens data"
    and "1 \<le> k" and "q = nat (block_size pm) * k" and "q \<le> length tokens" and "q \<le> length tokens'"
    and "take q tokens' = take q tokens"
    and "int (length tokens') + block_size pm < 2 ^ 31"
  shows "\<exists>u. Lookup hash (stored_pm hash now pm tokens data owner_id priority s) tokens' (int q) =
      Some (Inr \<lparr>lr_hit = True, lr_obj_id = HashBytesHex hash data, lr_usable_len_bytes = u, lr_prefix_tokens = int q\<rparr>)
    \<and> min 1 (int (length data)) \<le> u \<and> u \<le> int (length data)"
proof -
  let ?B = "nat (block_size pm)" and ?pm = "stored_pm hash now pm tokens data owner_id priority s"
  have bs: "0 < block_size pm" "0 < ?B" using assms(1) by (simp_all add: sizes_ok_def)
  have q0: "0 < q" using assms(2,3) bs(2) by simp
  have lim: "lookup_limit tokens' (int q) div ?B = k"
  proof -
    have "lookup_limit tokens' (int q) = q" using q0 assms(5) by (simp add: lookup_limit_def)
    then show ?thesis using assms(3) bs(2) by simp
  qed
  have "\<forall>j. 1 \<le> j \<and> j \<le> k \<longrightarrow> block_entry hash ?pm tokens' j \<noteq> None"
    using stored_shared_blocks [OF assms(1,3,4,6)] by (metis option.distinct(1))
  then have "k \<le> lookup_depth (block_entry hash ?pm tokens') k" by (rule lookup_depth_ge) simp
  then have d: "lookup_depth (block_entry hash ?pm tokens') k = k"
    using lookup_depth_le le_antisym by blast
  obtain p where p: "0 < p" "block_entry hash ?pm tokens' k = Some (stored_entry hash pm tokens data owner_id priority p)"
    using stored_shared_blocks [OF assms(1,3,4,6,2) order.refl] by blast
  let ?u = "usable_spec (bytes_per_token pm) (int p) (int (length tokens)) (int (length data))"
  have "Lookup hash ?pm tokens' (int q) = Some (Inr \<lparr>lr_hit = True, lr_obj_id = HashBytesHex hash data,
      lr_usable_len_bytes = ?u, lr_prefix_tokens = int q\<rparr>)"
    using Lookup_eq [of ?pm tokens' hash "int q"] bs(1) assms(2,7) p
    by (simp add: lim d stored_entry_def assms(3) [symmetric] del: of_nat_mult)
  moreover have "min 1 (int (length data)) \<le> ?u" "?u \<le> int (length data)"
    using usable_spec_bounds [of "int p" "int (length data)" "bytes_per_token pm" "int (length tokens)"] p(1) by simp_all
  ultimately show ?thesis by blast
qed

lemmas demo_defs = demo_hash_def demo_ops_def demo_pm_def put_succeeds_def sizes_ok_def

text \<open>
  C4: Store then Lookup.  After a successful \<open>Store\<close> of at least one block of tokens, \<open>Lookup\<close>
  of the same tokens hits the stored object; it reports the longest block-aligned prefix, and as
  usable bytes what \<open>UsableBytes\<close> computes for that prefix.  No assumption is made on the hash:
  the entry of the longest prefix is written last.
\<close>

theorem store_then_lookup:
  assumes "sizes_ok (block_size pm) (bytes_per_token pm) tokens data"
    and "put_succeeds ops hash pm data skip_put s"
    and "nat (block_size pm) \<le> length tokens"
  defines "p \<equiv> nat (block_size pm) * (length tokens div nat (block_size pm))"
  shows "\<exists>pm' u. Store ops hash now pm tokens data owner_id priority skip_put = Some (Inr (HashBytesHex hash data, pm'))
    \<and> UsableBytes (bytes_per_token pm) (int p) (int (length tokens)) (int (length data)) = Inr u
    \<and> Lookup hash pm' tokens 0 = Some (Inr \<lparr>lr_hit = True, lr_obj_id = HashBytesHex hash data,
        lr_usable_len_bytes = u, lr_prefix_tokens = int p\<rparr>)"
proof -
  let ?bs = "block_size pm" and ?pm = "stored_pm hash now pm tokens data owner_id priority s"
  let ?n = "length tokens div nat ?bs"
  have bs: "0 < ?bs" "int (length tokens) + ?bs < 2 ^ 31" using assms(1) by (simp_all add: sizes_ok_def)
  have n1: "1 \<le> ?n" using assms(3) bs(1) block_multiple_le [of "nat ?bs" 1] by simp
  then have p: "0 < p" "p \<le> length tokens" using bs(1) by (simp_all add: p_def)
  have lim: "lookup_limit tokens 0 = length tokens" by (simp add: lookup_limit_def)
  have "?n \<le> lookup_depth (block_entry hash ?pm tokens) ?n"
    using block_entry_stored [OF bs(1)] by (intro lookup_depth_ge) fastforce+
  then have d: "lookup_depth (block_entry hash ?pm tokens) ?n = ?n"
    using lookup_depth_le le_antisym by blast
  have "Lookup hash ?pm tokens 0 = Some (Inr \<lparr>lr_hit = True, lr_obj_id = HashBytesHex hash data,
      lr_usable_len_bytes = usable_spec (bytes_per_token pm) (int p) (int (length tokens)) (int (length data)),
      lr_prefix_tokens = int p\<rparr>)"
    using Lookup_eq [of ?pm tokens hash 0] bs n1 block_entry_stored_last [OF bs(1) assms(3)]
    by (simp add: lim d stored_entry_def p_def)
  then show ?thesis
    using Store_succeeds [OF assms(1,2)] usable_at [OF assms(1) p] by blast
qed

theorem store_then_lookup_witness:
  "\<exists>pm' u. Store demo_ops demo_hash 0 (demo_pm 2) [''a'', ''b'', ''c'', ''d'', ''e''] ''wxyz'' ''me'' 1 False
       = Some (Inr (HashBytesHex demo_hash ''wxyz'', pm'))
    \<and> UsableBytes 1 4 5 4 = Inr u
    \<and> Lookup demo_hash pm' [''a'', ''b'', ''c'', ''d'', ''e''] 0 = Some (Inr \<lparr>lr_hit = True,
        lr_obj_id = HashBytesHex demo_hash ''wxyz'', lr_usable_len_bytes = u, lr_prefix_tokens = 4\<rparr>)"
  using store_then_lookup [of "demo_pm 2" "[''a'', ''b'', ''c'', ''d'', ''e'']" "''wxyz''" demo_ops demo_hash False
      "Some ''wxyz''" 0 "''me''" 1]
  by (simp add: demo_defs)

text \<open>
  Shared prefixes.  Once a prompt is stored, any other token list that begins with the same
  \<open>k\<close> blocks, looked up with that limit, hits the stored object for exactly these blocks, and the
  byte count it gets lies within the object.
\<close>

theorem lookup_shared_prefix:
  assumes "sizes_ok (block_size pm) (bytes_per_token pm) tokens data"
    and "put_succeeds ops hash pm data skip_put s"
    and "1 \<le> k" and "q = nat (block_size pm) * k" and "q \<le> length tokens" and "q \<le> length tokens'"
    and "take q tokens' = take q tokens"
    and "int (length tokens') + block_size pm < 2 ^ 31"
  shows "\<exists>pm' u. Store ops hash now pm tokens data owner_id priority skip_put = Some (Inr (HashBytesHex hash data, pm'))
    \<and> Lookup hash pm' tokens' (int q) = Some (Inr \<lparr>lr_hit = True, lr_obj_id = HashBytesHex hash data,
        lr_usable_len_bytes = u, lr_prefix_tokens = int q\<rparr>)
    \<and> 0 \<le> u \<and> u \<le> int (length data)"
proof -
  obtain u where u: "Lookup hash (stored_pm hash now pm tokens data owner_id priority s) tokens' (int q) =
      Some (Inr \<lparr>lr_hit = True, lr_obj_id = HashBytesHex hash data, lr_usable_len_bytes = u, lr_prefix_tokens = int q\<rparr>)"
    "min 1 (int (length data)) \<le> u" "u \<le> int (length data)"
    using Lookup_stored_shared [OF assms(1,3-8)] by blast
  then have "0 \<le> u" by (simp add: min_def split: if_splits)
  with u show ?thesis using Store_succeeds [OF assms(1,2)] by blast
qed

theorem lookup_shared_prefix_witness:
  "\<exists>pm' u. Store demo_ops demo_hash 0 (demo_pm 2) [''a'', ''b'', ''c'', ''d''] ''wxyz'' ''me'' 1 False
       = Some (Inr (HashBytesHex demo_hash ''wxyz'', pm'))
    \<and> Lookup demo_hash pm' [''a'', ''b'', ''z''] 2 = Some (Inr \<lparr>lr_hit = True,
        lr_obj_id = HashBytesHex demo_hash ''wxyz'', lr_usable_len_bytes = u, lr_prefix_tokens = 2\<rparr>)
    \<and> 0 \<le> u \<and> u \<le> 4"
  using lookup_shared_prefix [of "demo_pm 2" "[''a'', ''b'', ''c'', ''d'']" "''wxyz''" demo_ops demo_hash False
      "Some ''wxyz''" 1 2 "[''a'', ''b'', ''z'']" 0 "''me''" 1]
  by (simp add: demo_defs)

text \<open>
  C5: Refinement, storing.  While the hash does not collide on the token lists in play, \<open>Store\<close>
  implements the abstract store: the new prefix map represents the old cache with every
  block-aligned prefix of the tokens bound to its entry, and nothing else changed.
\<close>

theorem store_refines:
  assumes "represents hash T pm A"
    and "sizes_ok (block_size pm) (bytes_per_token pm) tokens data"
    and "put_succeeds ops hash pm data skip_put s"
    and "block_prefixes (block_size pm) tokens \<subseteq> T"
  shows "\<exists>pm'. Store ops hash now pm tokens data owner_id priority skip_put = Some (Inr (HashBytesHex hash data, pm'))
    \<and> represents hash T pm' (abs_store A (block_size pm) tokens (stored_entry hash pm tokens data owner_id priority))"
  using Store_succeeds [OF assms(2,3)] represents_stored [OF assms(1) _ assms(4)] assms(2)
  by (auto simp: sizes_ok_def)

lemma demo_block_prefixes:
  "block_prefixes 2 [''a'', ''b'', ''c'', ''d''] = {[''a'', ''b''], [''a'', ''b'', ''c'', ''d'']}"
  by (simp add: block_prefixes_def prefix_lens_def upt_rec)

lemma demo_represents:
  "represents demo_hash {[''a'', ''b''], [''a'', ''b'', ''c'', ''d'']} (demo_pm 2) (\<lambda>_. None)"
  by (simp add: represents_def demo_pm_def demo_hash_def HashTokens_def)

theorem store_refines_witness:
  "\<exists>pm'. Store demo_ops demo_hash 0 (demo_pm 2) [''a'', ''b'', ''c'', ''d''] ''wxyz'' ''me'' 1 False
       = Some (Inr (HashBytesHex demo_hash ''wxyz'', pm'))
    \<and> represents demo_hash {[''a'', ''b''], [''a'', ''b'', ''c'', ''d'']} pm'
        (abs_store (\<lambda>_. None) 2 [''a'', ''b'', ''c'', ''d'']
          (stored_entry demo_hash (demo_pm 2) [''a'', ''b'', ''c'', ''d''] ''wxyz'' ''me'' 1))"
  using store_refines [OF demo_represents, of "[''a'', ''b'', ''c'', ''d'']" "''wxyz''" demo_ops False
      "Some ''wxyz''" 0 "''me''" 1]
  by (simp add: demo_defs demo_block_prefixes)

text \<open>
  C6: Refinement, looking up.  \<open>Lookup\<close> always returns, and returns what the abstract cache
  answers: the deepest block such that it and every block before it are bound, within the limit.
\<close>

theorem lookup_refines:
  assumes rep: "represents hash T pm A" and bs: "0 < block_size pm"
    and sz: "int (length tokens) + block_size pm < 2 ^ 31"
    and T: "block_prefixes (block_size pm) tokens \<subseteq> T"
  shows "Lookup hash pm tokens max_len =
    Some (Inr (abs_lookup A (block_size pm) tokens (lookup_limit tokens max_len)))"
proof -
  let ?B = "nat (block_size pm)" and ?n = "lookup_limit tokens max_len div nat (block_size pm)"
  have Bpos: "0 < ?B" using bs by simp
  have le: "?n \<le> length tokens div ?B" by (intro div_le_mono) (auto simp: lookup_limit_def)
  have eq: "block_entry hash pm tokens k = A (take (?B * k) tokens)" if "1 \<le> k" "k \<le> ?n" for k
  proof -
    have "?B * k \<in> set (prefix_lens (block_size pm) (length tokens))"
      using that le bs by (auto simp: set_prefix_lens)
    moreover from this have "?B * k \<le> length tokens" using prefix_lens_le [OF bs] by blast
    ultimately have "take (?B * k) tokens \<in> T"
      and H: "HashTokens hash (take (?B * k) tokens) (length (take (?B * k) tokens)) = HashTokens hash tokens (?B * k)"
      using T HashTokens_own_length by (auto simp: block_prefixes_def)
    with rep have "map_of (prefix_map pm) (HashTokens hash tokens (?B * k)) = A (take (?B * k) tokens)"
      unfolding represents_def by metis
    then show ?thesis by (simp only: block_entry_def)
  qed
  define d where "d = lookup_depth (block_entry hash pm tokens) ?n"
  have d: "lookup_depth (\<lambda>k. A (take (?B * k) tokens)) ?n = d"
    unfolding d_def using eq by (intro lookup_depth_cong) simp
  have "d \<le> ?n" unfolding d_def by (rule lookup_depth_le)
  moreover have "1 \<le> d \<Longrightarrow> block_entry hash pm tokens d \<noteq> None"
    unfolding d_def by (rule lookup_depth_all [of _ _ ?n]) simp_all
  ultimately show ?thesis
    using eq [of d] by (auto simp: Lookup_eq [OF bs sz] d_def [symmetric] abs_lookup_def d split: option.splits)
qed

theorem lookup_refines_witness:
  "Lookup demo_hash (stored_pm demo_hash 0 (demo_pm 2) [''a'', ''b'', ''c'', ''d''] ''wxyz'' ''me'' 1 None)
     [''a'', ''b'', ''c'', ''d''] 3 =
    Some (Inr (abs_lookup (abs_store (\<lambda>_. None) 2 [''a'', ''b'', ''c'', ''d'']
      (stored_entry demo_hash (demo_pm 2) [''a'', ''b'', ''c'', ''d''] ''wxyz'' ''me'' 1))
      2 [''a'', ''b'', ''c'', ''d''] 3))"
proof -
  have bs: "block_size (demo_pm 2) = 2" by (simp add: demo_pm_def)
  have rep: "represents demo_hash {[''a'', ''b''], [''a'', ''b'', ''c'', ''d'']}
      (stored_pm demo_hash 0 (demo_pm 2) [''a'', ''b'', ''c'', ''d''] ''wxyz'' ''me'' 1 None)
      (abs_store (\<lambda>_. None) 2 [''a'', ''b'', ''c'', ''d'']
        (stored_entry demo_hash (demo_pm 2) [''a'', ''b'', ''c'', ''d''] ''wxyz'' ''me'' 1))"
    using represents_stored [OF demo_represents, of "[''a'', ''b'', ''c'', ''d'']" 0 "''wxyz''" "''me''" 1 None]
    by (simp add: bs demo_block_prefixes)
  show ?thesis
    using lookup_refines [OF rep, of "[''a'', ''b'', ''c'', ''d'']" 3]
    by (simp add: bs demo_block_prefixes lookup_limit_def)
qed

text \<open>
  C19: The invariant.  Whatever \<open>Store\<close> returns (a stored object, or the empty id after a failed
  \<open>Put\<close>), the prefix map stays well formed: unique keys, every entry naming a known object with a
  byte count within it and a version the clock has reached.
\<close>

theorem store_keeps_invariant:
  assumes "pm_ok pm" and "sizes_ok (block_size pm) (bytes_per_token pm) tokens data"
    and "no_size_clash hash pm data"
    and "Store ops hash now pm tokens data owner_id priority skip_put = Some (Inr (obj_id, pm'))"
  shows "pm_ok pm'"
proof -
  have bs: "0 < block_size pm" using assms(2) by (simp add: sizes_ok_def)
  have "pm_ok (pm\<lparr>storage := s\<rparr>)" for s
    using assms(1) by (simp add: pm_ok_def entry_ok_def)
  then show ?thesis
    using assms(4) stored_pm_ok [OF assms(1) bs assms(3)]
    by (auto simp: Store_eq [OF assms(2)] split: sum.splits prod.splits if_splits)
qed

theorem store_keeps_invariant_witness:
  "pm_ok (stored_pm demo_hash 0 (demo_pm 2) [''a'', ''b'', ''c'', ''d''] ''wxyz'' ''me'' 1 (Some ''wxyz''))"
  using store_keeps_invariant [of "demo_pm 2" "[''a'', ''b'', ''c'', ''d'']" "''wxyz''" demo_hash demo_ops 0 "''me''" 1
      False "HashBytesHex demo_hash ''wxyz''"]
    Store_succeeds [of "demo_pm 2" "[''a'', ''b'', ''c'', ''d'']" "''wxyz''" demo_ops demo_hash False "Some ''wxyz''" 0 "''me''" 1]
  by (simp add: demo_defs pm_ok_def no_size_clash_def)

text \<open>
  C20: Usable bytes.  For a prefix of the tokens and an object below 2 GiB, \<open>UsableBytes\<close> is
  defined and yields at least one byte of a non-empty object and never more than the object; a
  longer prefix never gets fewer bytes, and with proportional sizing the full token list gets the
  whole object, in spite of the rounding of the two floating-point operations.
\<close>

theorem usable_bytes_bounds:
  assumes "0 < p" and "p \<le> q" and "q \<le> n" and "0 \<le> b" and "b < 2 ^ 31"
    and "bpt > 0 \<Longrightarrow> q * bpt < 2 ^ 31"
  shows "\<exists>u v. UsableBytes bpt p n b = Inr u \<and> UsableBytes bpt q n b = Inr v
    \<and> min 1 b \<le> u \<and> u \<le> v \<and> v \<le> b \<and> (bpt \<le> 0 \<and> q = n \<longrightarrow> v = b)"
proof -
  have pq: "bpt > 0 \<Longrightarrow> p * bpt < 2 ^ 31"
  proof -
    assume "bpt > 0"
    then have "p * bpt \<le> q * bpt" using assms(2) by (intro mult_right_mono) auto
    then show ?thesis using assms(6) \<open>bpt > 0\<close> by linarith
  qed
  have "UsableBytes bpt p n b = Inr (usable_spec bpt p n b)"
    "UsableBytes bpt q n b = Inr (usable_spec bpt q n b)"
    using assms pq by (intro UsableBytes_eq; simp)+
  moreover have "min 1 b \<le> usable_spec bpt p n b" "usable_spec bpt q n b \<le> b"
    using usable_spec_bounds assms by simp_all
  moreover have "usable_spec bpt p n b \<le> usable_spec bpt q n b" using usable_spec_mono assms by simp
  moreover have "bpt \<le> 0 \<and> q = n \<longrightarrow> usable_spec bpt q n b = b" using usable_spec_full assms by simp
  ultimately show ?thesis by simp
qed

theorem usable_bytes_bounds_witness:
  "\<exists>u v. UsableBytes 0 1 3 10 = Inr u \<and> UsableBytes 0 3 3 10 = Inr v \<and> 1 \<le> u \<and> u \<le> v \<and> v = 10"
  using usable_bytes_bounds [of 1 3 3 10 0] by auto

text \<open>
  No work without an object.  When the storage's \<open>Put\<close> reports failure, \<open>Store\<close> returns the
  empty id and leaves the prefix map, the object table and the version clock as they were.
\<close>

theorem store_put_failure:
  assumes "sPut ops (storage pm) (HashBytesHex hash data) data = Inr (False, s)"
  shows "Store ops hash now pm tokens data owner_id priority False = Some (Inr ([], pm\<lparr>storage := s\<rparr>))"
  using assms by (simp add: Store_def Let_def)

theorem store_put_failure_witness:
  "Store (demo_ops\<lparr>sPut := (\<lambda>s i d. Inr (False, s))\<rparr>) demo_hash 0 (demo_pm 2) [''a'', ''b''] ''wx'' ''me'' 1 False
     = Some (Inr ([], demo_pm 2))"
  using store_put_failure [of "demo_ops\<lparr>sPut := (\<lambda>s i d. Inr (False, s))\<rparr>" "demo_pm 2" demo_hash "''wx''" None 0
      "[''a'', ''b'']" "''me''" 1]
  by (simp add: demo_pm_def)

text \<open>
  C21: Termination.  \<open>Store\<close> returns, without undefined behaviour, whenever the block size is
  positive, the sizes fit an \<open>int\<close> and the storage call returns; with a block size of zero, which the
  constructor accepts, a \<open>Store\<close> that gets past \<open>Put\<close> never returns.
\<close>

theorem store_terminates_iff_block_size:
  assumes "put_succeeds ops hash pm data skip_put s" and "0 \<le> block_size pm"
    and "sizes_ok (max 1 (block_size pm)) (bytes_per_token pm) tokens data"
  shows "if block_size pm = 0
    then Store ops hash now pm tokens data owner_id priority skip_put = None
    else \<exists>pm'. Store ops hash now pm tokens data owner_id priority skip_put = Some (Inr (HashBytesHex hash data, pm'))"
proof (cases "block_size pm = 0")
  case True
  then show ?thesis
    using assms Store_diverges [of pm tokens skip_put ops hash data]
    by (auto simp: put_succeeds_def sizes_ok_def split: if_splits)
next
  case False
  then show ?thesis using assms by (auto simp: Store_succeeds max_def)
qed

theorem store_terminates_iff_block_size_witness:
  "Store demo_ops demo_hash 0 (demo_pm 0) [''a'', ''b''] ''wx'' ''me'' 1 False = None"
  using store_terminates_iff_block_size [of demo_ops demo_hash "demo_pm 0" "''wx''" False "Some ''wx''"
      "[''a'', ''b'']" 0 "''me''" 1]
  by (simp add: demo_defs)

text \<open>
  C22: Hashing tokens.  Token lists without the separator byte \<open>0x1F\<close> hash the same only if the hash
  collides on two different strings; with it, different token lists feed the same string to the hash,
  whatever the hash is.
\<close>

theorem token_hash_injective:
  assumes "inj_on hash S" and "take m ts \<noteq> []" and "take n us \<noteq> []"
    and "join [CHR 0x1F] (take m ts) \<in> S" and "join [CHR 0x1F] (take n us) \<in> S"
    and "\<forall>x \<in> set ts \<union> set us. CHR 0x1F \<notin> set x"
  shows "(HashTokens hash ts m = HashTokens hash us n \<longleftrightarrow> take m ts = take n us)
    \<and> HashTokens h [''a'' @ [CHR 0x1F] @ ''b''] 1 = HashTokens h [''a'', ''b''] 2"
proof -
  have "take m ts = take n us" if "HashTokens hash ts m = HashTokens hash us n"
  proof (rule join_inject)
    show "join [CHR 0x1F] (take m ts) = join [CHR 0x1F] (take n us)"
      using that assms(1,4,5) by (simp add: HashTokens_def inj_on_eq_iff)
    show "\<forall>x \<in> set (take m ts). CHR 0x1F \<notin> set x" "\<forall>y \<in> set (take n us). CHR 0x1F \<notin> set y"
      using assms(6) by (auto dest: in_set_takeD)
  qed (use assms in auto)
  then show ?thesis by (auto simp: HashTokens_def)
qed

theorem token_hash_injective_witness:
  "HashTokens demo_hash [''a'', ''b''] 1 \<noteq> HashTokens demo_hash [''a'', ''b''] 2"
  using token_hash_injective [of demo_hash "{''a'', ''a'' @ [CHR 0x1F] @ ''b''}" 1 "[''a'', ''b'']" 2 "[''a'', ''b'']"]
  by (simp add: demo_hash_def)

end
