(* ===== verification/Metrics.thy ===== *)
theory Metrics
  imports Prelude Double
begin

text \<open>
  The gateway's \<open>metrics.hpp\<close> and \<open>metrics.cpp\<close>: the atomic counters as 64-bit words (an atomic
  \<open>fetch_add\<close> wraps), one definition per method, and the Prometheus text.  A latency is a finite
  \<open>double\<close>, given by its value.

  The lemmas read a metrics object as the history of its observations: every counter is the number
  (or the byte sum) of the observations it stands for, and the cumulative bucket \<open>le="b"\<close> is the
  number of observations of at most \<open>b\<close> milliseconds, all modulo \<open>2 ^ 64\<close>.
\<close>

type_synonym u64 = "64 word"

record Metrics =
  req_counts :: "u64 list"
  err_counts :: "u64 list"
  req_bytes :: "u64 list"
  resp_bytes :: "u64 list"
  latency_count :: u64
  latency_sum_us :: u64
  bucket_counts :: "u64 list"
  inflight :: u64
  rdb_counts :: "u64 list"
  rdb_err_counts :: "u64 list"
  rdb_bytes :: "u64 list"
  rdb_latency_count :: u64
  rdb_latency_sum_us :: u64
  rdb_bucket_counts :: "u64 list"

definition kMethodCount :: nat where "kMethodCount = 6"
definition kRdbOpCount :: nat where "kRdbOpCount = 6"

definition buckets_ms :: "rat list" where
  "buckets_ms = [1, 2, 5, 10, 25, 50, 100, 250, 500, 1000, 2500, 5000, 10000]"

definition new_Metrics :: Metrics where
  "new_Metrics =
     \<lparr>req_counts = replicate kMethodCount 0, err_counts = replicate kMethodCount 0,
      req_bytes = replicate kMethodCount 0, resp_bytes = replicate kMethodCount 0,
      latency_count = 0, latency_sum_us = 0, bucket_counts = replicate (length buckets_ms) 0,
      inflight = 0,
      rdb_counts = replicate kRdbOpCount 0, rdb_err_counts = replicate kRdbOpCount 0,
      rdb_bytes = replicate kRdbOpCount 0, rdb_latency_count = 0, rdb_latency_sum_us = 0,
      rdb_bucket_counts = replicate (length buckets_ms) 0\<rparr>"

definition IncInFlight :: "Metrics \<Rightarrow> Metrics" where
  "IncInFlight m = m\<lparr>inflight := inflight m + 1\<rparr>"

definition DecInFlight :: "Metrics \<Rightarrow> Metrics" where
  "DecInFlight m = m\<lparr>inflight := inflight m - 1\<rparr>"

definition method_index :: "string \<Rightarrow> nat" where
  "method_index meth =
     (if meth = ''GET'' then 0 else if meth = ''PUT'' then 1 else if meth = ''POST'' then 2
      else if meth = ''DELETE'' then 3 else if meth = ''HEAD'' then 4 else 5)"

definition method_name :: "nat \<Rightarrow> string" where
  "method_name i =
     (if i = 0 then ''GET'' else if i = 1 then ''PUT'' else if i = 2 then ''POST''
      else if i = 3 then ''DELETE'' else if i = 4 then ''HEAD'' else ''OTHER'')"

definition rocks_op_index :: "string \<Rightarrow> nat" where
  "rocks_op_index op =
     (if op = ''get'' then 0 else if op = ''put'' then 1 else if op = ''write'' then 2
      else if op = ''delete'' then 3 else if op = ''iter'' then 4 else 5)"

definition rocks_op_name :: "nat \<Rightarrow> string" where
  "rocks_op_name i =
     (if i = 0 then ''get'' else if i = 1 then ''put'' else if i = 2 then ''write''
      else if i = 3 then ''delete'' else if i = 4 then ''iter'' else ''other'')"

definition fetch_add :: "u64 list \<Rightarrow> nat \<Rightarrow> u64 \<Rightarrow> u64 list" where
  "fetch_add a i v = a[i := a ! i + v]"

text \<open>The bucket loop: the first bound that is not exceeded counts, then \<open>break\<close>.\<close>

fun bump_bucket :: "rat \<Rightarrow> rat list \<Rightarrow> u64 list \<Rightarrow> u64 list" where
  "bump_bucket l (b # bs) (c # cs) = (if l \<le> b then (c + 1) # cs else c # bump_bucket l bs cs)"
| "bump_bucket l bs cs = cs"

definition latency_us :: "rat \<Rightarrow> u64" where
  "latency_us latency_ms = word_of_int (llround (fl (latency_ms * 1000)))"

definition Observe :: "string \<Rightarrow> nat \<Rightarrow> nat \<Rightarrow> nat \<Rightarrow> rat \<Rightarrow> Metrics \<Rightarrow> Metrics" where
  "Observe meth status rq rs latency_ms m =
     (let idx = method_index meth in
      m\<lparr>req_counts := fetch_add (req_counts m) idx 1,
        req_bytes := fetch_add (req_bytes m) idx (of_nat rq),
        resp_bytes := fetch_add (resp_bytes m) idx (of_nat rs),
        err_counts := (if status \<ge> 400 then fetch_add (err_counts m) idx 1 else err_counts m),
        latency_count := latency_count m + 1,
        latency_sum_us := latency_sum_us m + latency_us latency_ms,
        bucket_counts := bump_bucket latency_ms buckets_ms (bucket_counts m)\<rparr>)"

definition ObserveRocksdb :: "string \<Rightarrow> bool \<Rightarrow> nat \<Rightarrow> rat \<Rightarrow> Metrics \<Rightarrow> Metrics" where
  "ObserveRocksdb op ok bs latency_ms m =
     (let idx = rocks_op_index op in
      m\<lparr>rdb_counts := fetch_add (rdb_counts m) idx 1,
        rdb_bytes := fetch_add (rdb_bytes m) idx (of_nat bs),
        rdb_err_counts := (if \<not> ok then fetch_add (rdb_err_counts m) idx 1 else rdb_err_counts m),
        rdb_latency_count := rdb_latency_count m + 1,
        rdb_latency_sum_us := rdb_latency_sum_us m + latency_us latency_ms,
        rdb_bucket_counts := bump_bucket latency_ms buckets_ms (rdb_bucket_counts m)\<rparr>)"

section \<open>The Prometheus text\<close>

text \<open>
  \<open>operator<<\<close> of a non-negative \<open>double\<close> with the default format (\<open>%g\<close>, six significant
  digits): the decimal exponent, the six digits, fixed or scientific, trailing zeros dropped.
\<close>

definition dec_exp :: "rat \<Rightarrow> int" where
  "dec_exp x = (if 1 \<le> x then int (length (nat_to_dec (nat \<lfloor>x\<rfloor>))) - 1
                else - int (length (nat_to_dec (nat (\<lceil>1 / x\<rceil> - 1)))))"

definition strip_zeros :: "string \<Rightarrow> string" where
  "strip_zeros s = rev (dropWhile (\<lambda>c. c = CHR ''0'') (rev s))"

definition with_fraction :: "string \<Rightarrow> string \<Rightarrow> string" where
  "with_fraction i f = (if strip_zeros f = [] then i else i @ ''.'' @ strip_zeros f)"

definition show_double :: "rat \<Rightarrow> string" where
  "show_double x =
     (if x = 0 then ''0''
      else
        let e0 = dec_exp x;
            m0 = round_half_even (x / 10 powi (e0 - 5));
            e = (if m0 = 1000000 then e0 + 1 else e0);
            ds = nat_to_dec (nat (if m0 = 1000000 then 100000 else m0))
        in if e < - 4 \<or> 6 \<le> e then
             with_fraction (take 1 ds) (drop 1 ds) @ ''e'' @ (if e < 0 then ''-'' else ''+'')
               @ pad_left 2 (CHR ''0'') (nat_to_dec (nat \<bar>e\<bar>))
           else if 0 \<le> e then with_fraction (take (nat (e + 1)) ds) (drop (nat (e + 1)) ds)
           else with_fraction ''0'' (replicate (nat (- e - 1)) (CHR ''0'') @ ds))"

definition show_u64 :: "u64 \<Rightarrow> string" where
  "show_u64 w = nat_to_dec (unat w)"

text \<open>One \<open>for\<close> loop over the methods (or the RocksDB operations).\<close>

definition counter_lines :: "string \<Rightarrow> string \<Rightarrow> (nat \<Rightarrow> string) \<Rightarrow> nat \<Rightarrow> u64 list \<Rightarrow> string" where
  "counter_lines metric label name n a =
     concat (map (\<lambda>i. metric @ ''{'' @ label @ ''=\"'' @ name i @ ''\"} '' @ show_u64 (a ! i) @ nl) [0..<n])"

text \<open>The running sums the bucket loop prints.\<close>

fun cumulate :: "u64 \<Rightarrow> u64 list \<Rightarrow> u64 list" where
  "cumulate acc [] = []"
| "cumulate acc (c # cs) = (acc + c) # cumulate (acc + c) cs"

definition histogram_lines :: "string \<Rightarrow> u64 list \<Rightarrow> u64 \<Rightarrow> u64 \<Rightarrow> string" where
  "histogram_lines metric counts count sum_us =
     concat (map (\<lambda>(b, c). metric @ ''_bucket{le=\"'' @ show_double b @ ''\"} '' @ show_u64 c @ nl)
       (zip buckets_ms (cumulate 0 counts)))
     @ metric @ ''_bucket{le=\"+Inf\"} '' @ show_u64 count @ nl
     @ metric @ ''_sum '' @ show_double (fl (fl (of_nat (unat sum_us)) / 1000)) @ nl
     @ metric @ ''_count '' @ show_u64 count @ nl"

definition RenderPrometheus :: "Metrics \<Rightarrow> string" where
  "RenderPrometheus m =
     ''# HELP s3gw_requests_total Total HTTP requests.'' @ nl
     @ ''# TYPE s3gw_requests_total counter'' @ nl
     @ counter_lines ''s3gw_requests_total'' ''method'' method_name kMethodCount (req_counts m)
     @ ''# HELP s3gw_request_errors_total HTTP requests with status >= 400.'' @ nl
     @ ''# TYPE s3gw_request_errors_total counter'' @ nl
     @ counter_lines ''s3gw_request_errors_total'' ''method'' method_name kMethodCount (err_counts m)
     @ ''# HELP s3gw_request_bytes_total Request body bytes.'' @ nl
     @ ''# TYPE s3gw_request_bytes_total counter'' @ nl
     @ counter_lines ''s3gw_request_bytes_total'' ''method'' method_name kMethodCount (req_bytes m)
     @ ''# HELP s3gw_response_bytes_total Response body bytes.'' @ nl
     @ ''# TYPE s3gw_response_bytes_total counter'' @ nl
     @ counter_lines ''s3gw_response_bytes_total'' ''method'' method_name kMethodCount (resp_bytes m)
     @ ''# HELP s3gw_inflight_requests In-flight HTTP requests.'' @ nl
     @ ''# TYPE s3gw_inflight_requests gauge'' @ nl
     @ ''s3gw_inflight_requests '' @ to_string (sint (inflight m)) @ nl
     @ ''# HELP s3gw_request_latency_ms Request latency in milliseconds.'' @ nl
     @ ''# TYPE s3gw_request_latency_ms histogram'' @ nl
     @ histogram_lines ''s3gw_request_latency_ms'' (bucket_counts m) (latency_count m) (latency_sum_us m)
     @ ''# HELP s3gw_rocksdb_ops_total RocksDB operations.'' @ nl
     @ ''# TYPE s3gw_rocksdb_ops_total counter'' @ nl
     @ counter_lines ''s3gw_rocksdb_ops_total'' ''op'' rocks_op_name kRdbOpCount (rdb_counts m)
     @ ''# HELP s3gw_rocksdb_errors_total RocksDB operations with non-OK status.'' @ nl
     @ ''# TYPE s3gw_rocksdb_errors_total counter'' @ nl
     @ counter_lines ''s3gw_rocksdb_errors_total'' ''op'' rocks_op_name kRdbOpCount (rdb_err_counts m)
     @ ''# HELP s3gw_rocksdb_bytes_total RocksDB bytes read/written.'' @ nl
     @ ''# TYPE s3gw_rocksdb_bytes_total counter'' @ nl
     @ counter_lines ''s3gw_rocksdb_bytes_total'' ''op'' rocks_op_name kRdbOpCount (rdb_bytes m)
     @ ''# HELP s3gw_rocksdb_latency_ms RocksDB operation latency in milliseconds.'' @ nl
     @ ''# TYPE s3gw_rocksdb_latency_ms histogram'' @ nl
     @ histogram_lines ''s3gw_rocksdb_latency_ms'' (rdb_bucket_counts m) (rdb_latency_count m) (rdb_latency_sum_us m)"

section \<open>Histories\<close>

record observation =
  ob_method :: string
  ob_status :: nat
  ob_req_bytes :: nat
  ob_resp_bytes :: nat
  ob_latency :: rat

definition observe_one :: "observation \<Rightarrow> Metrics \<Rightarrow> Metrics" where
  "observe_one ob = Observe (ob_method ob) (ob_status ob) (ob_req_bytes ob) (ob_resp_bytes ob) (ob_latency ob)"

definition observe_all :: "observation list \<Rightarrow> Metrics \<Rightarrow> Metrics" where
  "observe_all obs = fold observe_one obs"

lemma method_index_less [simp]: "method_index s < kMethodCount"
  by (simp add: method_index_def kMethodCount_def)

lemma rocks_op_index_less [simp]: "rocks_op_index s < kRdbOpCount"
  by (simp add: rocks_op_index_def kRdbOpCount_def)

lemma length_fetch_add [simp]: "length (fetch_add a i v) = length a"
  by (simp add: fetch_add_def)

lemma nth_fetch_add: "j < length a \<Longrightarrow> fetch_add a i v ! j = (if i = j then a ! j + v else a ! j)"
  by (simp add: fetch_add_def nth_list_update)

lemma length_bump_bucket [simp]: "length (bump_bucket l bs cs) = length cs"
  by (induction l bs cs rule: bump_bucket.induct) auto

lemma cumulate_shift: "cumulate (a + d) cs = map (\<lambda>x. x + d) (cumulate a cs)"
proof (induction cs arbitrary: a)
  case (Cons c cs)
  then show ?case using Cons.IH [of "a + c"] by (simp add: ac_simps)
qed simp

lemma length_cumulate [simp]: "length (cumulate acc cs) = length cs"
  by (induction acc cs rule: cumulate.induct) auto

text \<open>Bumping one bucket raises the cumulative counts from its bound on.\<close>

lemma cumulate_bump:
  "length cs = length bs \<Longrightarrow> sorted bs \<Longrightarrow> i < length cs \<Longrightarrow>
   cumulate acc (bump_bucket l bs cs) ! i = cumulate acc cs ! i + (if l \<le> bs ! i then 1 else 0)"
proof (induction l bs cs arbitrary: acc i rule: bump_bucket.induct)
  case (1 l b bs c cs)
  show ?case
  proof (cases i)
    case 0
    then show ?thesis by auto
  next
    case (Suc j)
    then have j: "j < length cs" using 1 by simp
    show ?thesis
    proof (cases "l \<le> b")
      case True
      then have "l \<le> bs ! j" using 1 j by (auto simp: nth_mem order_trans)
      then show ?thesis using True Suc j cumulate_shift [of "acc + c" 1 cs] by (simp add: add.assoc)
    next
      case False
      then show ?thesis using 1 Suc j by simp
    qed
  qed
qed auto

lemma cumulate_zeros: "i < n \<Longrightarrow> cumulate acc (replicate n 0) ! i = acc"
  by (induction n arbitrary: i) (auto simp: nth_Cons')

lemma sorted_buckets [simp]: "sorted buckets_ms"
  by (simp add: buckets_ms_def)

definition metrics_sized :: "Metrics \<Rightarrow> bool" where
  "metrics_sized m \<longleftrightarrow>
     length (req_counts m) = kMethodCount \<and> length (err_counts m) = kMethodCount \<and>
     length (req_bytes m) = kMethodCount \<and> length (resp_bytes m) = kMethodCount \<and>
     length (bucket_counts m) = length buckets_ms \<and>
     length (rdb_counts m) = kRdbOpCount \<and> length (rdb_err_counts m) = kRdbOpCount \<and>
     length (rdb_bytes m) = kRdbOpCount \<and> length (rdb_bucket_counts m) = length buckets_ms"

lemma metrics_sized_new: "metrics_sized new_Metrics"
  by (simp add: metrics_sized_def new_Metrics_def)

lemma metrics_sized_ops [simp]:
  "metrics_sized (IncInFlight m) = metrics_sized m"
  "metrics_sized (DecInFlight m) = metrics_sized m"
  "metrics_sized (Observe meth st a b l m) = metrics_sized m"
  "metrics_sized (ObserveRocksdb op ok n l m) = metrics_sized m"
  by (simp_all add: metrics_sized_def IncInFlight_def DecInFlight_def Observe_def ObserveRocksdb_def Let_def)

lemma observe_all_snoc: "observe_all (obs @ [ob]) m = observe_one ob (observe_all obs m)"
  by (simp add: observe_all_def)

lemma metrics_sized_observe_all [simp]: "metrics_sized (observe_all obs m) = metrics_sized m"
  by (induction obs rule: rev_induct) (simp_all add: observe_all_snoc observe_one_def, simp add: observe_all_def)

section \<open>Properties of the metrics\<close>

lemma word_count_Suc: "(of_nat (length (filter P (xs @ [x]))) :: u64) =
    of_nat (length (filter P xs)) + (if P x then 1 else 0)"
  by simp

definition history_ok :: "observation list \<Rightarrow> Metrics \<Rightarrow> bool" where
  "history_ok obs m \<longleftrightarrow>
     (\<forall>i < kMethodCount.
        req_counts m ! i = of_nat (length (filter (\<lambda>ob. method_index (ob_method ob) = i) obs)) \<and>
        err_counts m ! i =
          of_nat (length (filter (\<lambda>ob. method_index (ob_method ob) = i \<and> 400 \<le> ob_status ob) obs)) \<and>
        req_bytes m ! i =
          of_nat (sum_list (map ob_req_bytes (filter (\<lambda>ob. method_index (ob_method ob) = i) obs))) \<and>
        resp_bytes m ! i =
          of_nat (sum_list (map ob_resp_bytes (filter (\<lambda>ob. method_index (ob_method ob) = i) obs))))"

lemma history_ok_snoc:
  assumes "history_ok obs m" "metrics_sized m"
  shows "history_ok (obs @ [ob]) (observe_one ob m)"
  using assms by (auto simp: history_ok_def observe_one_def Observe_def Let_def nth_fetch_add metrics_sized_def)

text \<open>
  Request counters.  After any sequence of observations, every per-method counter the metrics
  endpoint prints is, modulo \<open>2 ^ 64\<close>, the number of requests, of failed requests (status 400 and
  above), of request bytes and of response bytes of that method.
\<close>

theorem metrics_count_history: "history_ok obs (observe_all obs new_Metrics)"
proof (induction obs rule: rev_induct)
  case Nil
  show ?case by (simp add: history_ok_def observe_all_def new_Metrics_def)
next
  case (snoc ob obs)
  then show ?case using history_ok_snoc metrics_sized_new by (simp add: observe_all_snoc)
qed

text \<open>
  C36: The latency histogram.  The value \<open>RenderPrometheus\<close> prints for bucket \<open>le="b"\<close> is, modulo
  \<open>2 ^ 64\<close>, the number of observations with a latency of at most \<open>b\<close> milliseconds, and the
  \<open>+Inf\<close> bucket and \<open>_count\<close> are the number of all observations.
\<close>

theorem histogram_cumulative:
  assumes "i < length buckets_ms"
  shows "cumulate 0 (bucket_counts (observe_all obs new_Metrics)) ! i =
      of_nat (length (filter (\<lambda>ob. ob_latency ob \<le> buckets_ms ! i) obs))
    \<and> latency_count (observe_all obs new_Metrics) = of_nat (length obs)"
proof (induction obs rule: rev_induct)
  case Nil
  show ?case using assms by (simp add: observe_all_def new_Metrics_def cumulate_zeros)
next
  case (snoc ob obs)
  let ?m = "observe_all obs new_Metrics"
  have "metrics_sized ?m" by (simp add: metrics_sized_new)
  then have len: "length (bucket_counts ?m) = length buckets_ms" by (simp add: metrics_sized_def)
  have "bucket_counts (observe_one ob ?m) = bump_bucket (ob_latency ob) buckets_ms (bucket_counts ?m)"
    "latency_count (observe_one ob ?m) = latency_count ?m + 1"
    by (simp_all add: observe_one_def Observe_def Let_def)
  then show ?case
    using snoc cumulate_bump [OF len sorted_buckets, of i 0 "ob_latency ob"] assms len
    by (simp add: observe_all_snoc)
qed

theorem histogram_cumulative_witness:
  "cumulate 0 (bucket_counts (observe_all
      [\<lparr>ob_method = ''GET'', ob_status = 200, ob_req_bytes = 0, ob_resp_bytes = 4, ob_latency = 3\<rparr>] new_Metrics)) ! 2 = 1"
  using histogram_cumulative [of 2
      "[\<lparr>ob_method = ''GET'', ob_status = 200, ob_req_bytes = 0, ob_resp_bytes = 4, ob_latency = 3\<rparr>]"]
  by (simp add: buckets_ms_def)

end
