(* ===== verification/Rocks.thy ===== *)
theory Rocks
  imports Prelude "HOL-Library.AList"
begin

text \<open>
  RocksDB is a library the gateway links against, so it is a parameter here: a record of the calls
  \<open>storage.cpp\<close> makes, over a database state of any type, and two locales that state the
  documented behaviour the gateway relies on.  \<open>rocksdb_laws\<close> is what holds although calls may
  fail: a successful read returns what is there, a write batch happens completely or not at all, an
  iterator walks the keys upwards from the seek position without gaps and reports an error when it
  stops early.  \<open>rocksdb_healthy\<close> adds that no call fails.  Both are interpreted on an in-memory
  association list, on which the examples of the later theories compute.
\<close>

datatype rocks_status = Status_OK | Status_NotFound string | Status_Error string

fun ok :: "rocks_status \<Rightarrow> bool" where
  "ok Status_OK = True"
| "ok _ = False"

fun IsNotFound :: "rocks_status \<Rightarrow> bool" where
  "IsNotFound (Status_NotFound _) = True"
| "IsNotFound _ = False"

fun ToString :: "rocks_status \<Rightarrow> string" where
  "ToString Status_OK = ''OK''"
| "ToString (Status_NotFound m) = ''NotFound: '' @ m"
| "ToString (Status_Error m) = m"

datatype batch_op = BPut string bytes | BDelete string

text \<open>
  An iterator after \<open>Seek\<close>: the entries it will still show and the status it reports once they
  are used up (while it is \<open>Valid\<close> the status is OK).
\<close>

record rocks_iter =
  it_entries :: "(string \<times> bytes) list"
  it_end :: rocks_status

definition Valid :: "rocks_iter \<Rightarrow> bool" where
  "Valid it \<longleftrightarrow> it_entries it \<noteq> []"

definition Next :: "rocks_iter \<Rightarrow> rocks_iter" where
  "Next it = it\<lparr>it_entries := tl (it_entries it)\<rparr>"

definition it_key :: "rocks_iter \<Rightarrow> string" where
  "it_key it = fst (hd (it_entries it))"

definition it_value :: "rocks_iter \<Rightarrow> bytes" where
  "it_value it = snd (hd (it_entries it))"

definition it_status :: "rocks_iter \<Rightarrow> rocks_status" where
  "it_status it = (if Valid it then Status_OK else it_end it)"

record 'db rocksdb =
  db_Get :: "'db \<Rightarrow> string \<Rightarrow> rocks_status \<times> bytes"
  db_Put :: "'db \<Rightarrow> string \<Rightarrow> bytes \<Rightarrow> rocks_status \<times> 'db"
  db_Delete :: "'db \<Rightarrow> string \<Rightarrow> rocks_status \<times> 'db"
  db_Write :: "'db \<Rightarrow> batch_op list \<Rightarrow> rocks_status \<times> 'db"
  db_Seek :: "'db \<Rightarrow> string \<Rightarrow> rocks_iter"

type_synonym kv = "string \<Rightarrow> bytes option"

fun apply_batch_op :: "batch_op \<Rightarrow> kv \<Rightarrow> kv" where
  "apply_batch_op (BPut k v) m = m(k \<mapsto> v)"
| "apply_batch_op (BDelete k) m = m(k := None)"

definition apply_batch :: "batch_op list \<Rightarrow> kv \<Rightarrow> kv" where
  "apply_batch b m = fold apply_batch_op b m"

lemma apply_batch_simps [simp]:
  "apply_batch [] m = m"
  "apply_batch (x # b) m = apply_batch b (apply_batch_op x m)"
  by (simp_all add: apply_batch_def)

text \<open>
  The entries an iterator shows: strictly ascending, all in the store and not below the seek
  position, and nothing of the store left out below an entry that is shown.
\<close>

definition iter_entries_ok :: "kv \<Rightarrow> string \<Rightarrow> (string \<times> bytes) list \<Rightarrow> bool" where
  "iter_entries_ok m s es \<longleftrightarrow>
     sorted_wrt (<) (map fst es) \<and>
     (\<forall>(k, v) \<in> set es. m k = Some v \<and> s \<le> k) \<and>
     (\<forall>k v k'. m k = Some v \<longrightarrow> s \<le> k \<longrightarrow> k' \<in> fst ` set es \<longrightarrow> k \<le> k' \<longrightarrow> (k, v) \<in> set es)"

definition iter_complete :: "kv \<Rightarrow> string \<Rightarrow> (string \<times> bytes) list \<Rightarrow> bool" where
  "iter_complete m s es \<longleftrightarrow> (\<forall>k v. m k = Some v \<longrightarrow> s \<le> k \<longrightarrow> (k, v) \<in> set es)"

locale rocksdb_laws =
  fixes R :: "'db rocksdb" and view :: "'db \<Rightarrow> kv"
  assumes Get_ok: "db_Get R d k = (st, v) \<Longrightarrow> ok st \<Longrightarrow> view d k = Some v"
    and Get_NotFound: "db_Get R d k = (st, v) \<Longrightarrow> IsNotFound st \<Longrightarrow> view d k = None"
    and Put_ok: "db_Put R d k v = (st, d') \<Longrightarrow> ok st \<Longrightarrow> view d' = (view d)(k \<mapsto> v)"
    and Put_atomic: "db_Put R d k v = (st, d') \<Longrightarrow> view d' = view d \<or> view d' = (view d)(k \<mapsto> v)"
    and Delete_ok: "db_Delete R d k = (st, d') \<Longrightarrow> ok st \<Longrightarrow> view d' = (view d)(k := None)"
    and Delete_atomic: "db_Delete R d k = (st, d') \<Longrightarrow> view d' = view d \<or> view d' = (view d)(k := None)"
    and Write_ok: "db_Write R d b = (st, d') \<Longrightarrow> ok st \<Longrightarrow> view d' = apply_batch b (view d)"
    and Write_atomic: "db_Write R d b = (st, d') \<Longrightarrow> view d' = view d \<or> view d' = apply_batch b (view d)"
    and Seek_entries: "iter_entries_ok (view d) s (it_entries (db_Seek R d s))"
    and Seek_end: "ok (it_end (db_Seek R d s)) \<Longrightarrow> iter_complete (view d) s (it_entries (db_Seek R d s))"

locale rocksdb_healthy = rocksdb_laws R view
  for R :: "'db rocksdb" and view :: "'db \<Rightarrow> kv" +
  assumes Get_total: "db_Get R d k = (st, v) \<Longrightarrow> ok st \<or> IsNotFound st"
    and Put_total: "db_Put R d k v = (st, d') \<Longrightarrow> ok st"
    and Delete_total: "db_Delete R d k = (st, d') \<Longrightarrow> ok st"
    and Write_total: "db_Write R d b = (st, d') \<Longrightarrow> ok st"
    and Seek_total: "ok (it_end (db_Seek R d s))"
begin

lemma Get_Some: "view d k = Some v \<Longrightarrow> db_Get R d k = (Status_OK, v)"
proof -
  assume a: "view d k = Some v"
  obtain st v' where g: "db_Get R d k = (st, v')" by (cases "db_Get R d k")
  show ?thesis
    using a g Get_ok [OF g] Get_NotFound [OF g] Get_total [OF g] by (cases st) auto
qed

lemma Get_None: "view d k = None \<Longrightarrow> IsNotFound (fst (db_Get R d k))"
proof -
  assume a: "view d k = None"
  obtain st v where g: "db_Get R d k = (st, v)" by (cases "db_Get R d k")
  show ?thesis using a g Get_ok [OF g] Get_total [OF g] by (cases st) auto
qed

lemma Write_view: "db_Write R d b = (st, d') \<Longrightarrow> st = Status_OK \<and> view d' = apply_batch b (view d)"
  using Write_total [of d b st d'] Write_ok [of d b st d'] by (cases st) auto

lemma Put_view: "db_Put R d k v = (st, d') \<Longrightarrow> st = Status_OK \<and> view d' = (view d)(k \<mapsto> v)"
  using Put_total [of d k v st d'] Put_ok [of d k v st d'] by (cases st) auto

lemma Delete_view: "db_Delete R d k = (st, d') \<Longrightarrow> st = Status_OK \<and> view d' = (view d)(k := None)"
  using Delete_total [of d k st d'] Delete_ok [of d k st d'] by (cases st) auto

lemma Seek_complete: "iter_complete (view d) s (it_entries (db_Seek R d s))"
  by (rule Seek_end [OF Seek_total])

end

section \<open>Iterators\<close>

lemma iter_entries_okD:
  assumes "iter_entries_ok m s es"
  shows "sorted_wrt (<) (map fst es)" and "(k, v) \<in> set es \<Longrightarrow> m k = Some v \<and> s \<le> k"
    and "m k = Some v \<Longrightarrow> s \<le> k \<Longrightarrow> k' \<in> fst ` set es \<Longrightarrow> k \<le> k' \<Longrightarrow> (k, v) \<in> set es"
  using assms unfolding iter_entries_ok_def by blast+

lemma sorted_fst_unique:
  assumes "sorted_wrt (<) (map fst es)" "sorted_wrt (<) (map fst es')" "set es = set es'"
  shows "es = (es' :: ('a :: linorder \<times> 'b) list)"
  using assms
  by (intro map_sorted_distinct_set_unique [of fst])
    (auto simp: strict_sorted_iff distinct_map)

text \<open>Two complete iterators over the same store show the same entries.\<close>

lemma iter_complete_unique:
  assumes "iter_entries_ok m s es" "iter_complete m s es"
    "iter_entries_ok m s es'" "iter_complete m s es'"
  shows "es = es'"
proof (rule sorted_fst_unique)
  show "set es = set es'"
    using assms unfolding iter_entries_ok_def iter_complete_def by fast
qed (use assms in \<open>auto simp: iter_entries_ok_def\<close>)

text \<open>The keys with a common prefix stand together.\<close>

lemma le_append [simp]: "s \<le> s @ (t :: string)"
  by (induction s) auto

lemma append_less_iff [simp]: "p @ x < p @ y \<longleftrightarrow> x < (y :: string)"
  by (induction p) auto

lemma between_prefix: "p \<le> k \<Longrightarrow> k \<le> p @ t \<Longrightarrow> starts_with p (k :: string)"
proof (induction p arbitrary: k)
  case (Cons c p)
  then show ?case by (cases k) (auto simp: starts_with_def)
qed simp

section \<open>An in-memory database\<close>

type_synonym mem_db = "(string \<times> bytes) list"

fun mem_apply :: "batch_op \<Rightarrow> mem_db \<Rightarrow> mem_db" where
  "mem_apply (BPut k v) d = AList.update k v d"
| "mem_apply (BDelete k) d = AList.delete k d"

definition mem_rocksdb :: "mem_db rocksdb" where
  "mem_rocksdb =
     \<lparr>db_Get = (\<lambda>d k. case map_of d k of None \<Rightarrow> (Status_NotFound [], []) | Some v \<Rightarrow> (Status_OK, v)),
      db_Put = (\<lambda>d k v. (Status_OK, AList.update k v d)),
      db_Delete = (\<lambda>d k. (Status_OK, AList.delete k d)),
      db_Write = (\<lambda>d b. (Status_OK, fold mem_apply b d)),
      db_Seek = (\<lambda>d s. \<lparr>it_entries = filter (\<lambda>e. s \<le> fst e) (sort_key fst (AList.clearjunk d)),
                        it_end = Status_OK\<rparr>)\<rparr>"

lemma mem_fold_apply: "map_of (fold mem_apply b d) = apply_batch b (map_of d)"
proof (induction b arbitrary: d)
  case (Cons x b)
  have "map_of (mem_apply x d) = apply_batch_op x (map_of d)"
    by (cases x) (simp_all add: update_conv' delete_conv')
  with Cons show ?case by simp
qed simp

lemma mem_seek_set:
  "(k, v) \<in> set (filter (\<lambda>e. s \<le> fst e) (sort_key fst (AList.clearjunk d))) \<longleftrightarrow>
   map_of d k = Some v \<and> s \<le> k"
  using map_of_eq_Some_iff [OF distinct_clearjunk, of d k v] by (auto simp: map_of_clearjunk)

lemma mem_seek_sorted:
  "sorted_wrt (<) (map fst (filter (\<lambda>e. s \<le> fst e) (sort_key fst (AList.clearjunk (d :: mem_db)))))"
proof -
  have "distinct (map fst (sort_key fst (AList.clearjunk d)))"
    using distinct_clearjunk [of d] by (simp add: distinct_map)
  then show ?thesis
    by (simp add: strict_sorted_iff sorted_filter distinct_map_filter)
qed

interpretation mem: rocksdb_healthy mem_rocksdb map_of
proof unfold_locales
  fix d :: mem_db and s :: string
  show "iter_entries_ok (map_of d) s (it_entries (db_Seek mem_rocksdb d s))"
    unfolding iter_entries_ok_def mem_rocksdb_def rocksdb.select_convs rocks_iter.select_convs
    by (intro conjI mem_seek_sorted) (auto simp: mem_seek_set simp del: set_filter)
  show "iter_complete (map_of d) s (it_entries (db_Seek mem_rocksdb d s))"
    unfolding iter_complete_def mem_rocksdb_def rocksdb.select_convs rocks_iter.select_convs
    by (simp only: mem_seek_set) blast
qed (auto simp: mem_rocksdb_def update_conv' delete_conv' mem_fold_apply split: option.splits)

lemma mem_rocksdb_healthy: "rocksdb_healthy mem_rocksdb map_of"
  by unfold_locales

lemma mem_rocksdb_laws: "rocksdb_laws mem_rocksdb map_of"
  by unfold_locales

end
