(* ===== verification/ObjectStore.thy ===== *)
theory ObjectStore
  imports Util Metrics Rocks
begin

text \<open>
  The gateway's \<open>storage.hpp\<close> and \<open>storage.cpp\<close>: buckets and objects over RocksDB, one
  definition per method of \<open>RocksObjectStore\<close>, in the order of the file.

  The state a method works on is a \<open>world\<close>: the database, the metrics object (\<open>None\<close> when the
  store was built with \<open>nullptr\<close>) and the two clocks, as the sequences of their readings.  The
  out-parameter \<open>err\<close> is passed in and returned, \<open>None\<close> for \<open>nullptr\<close>; the other
  out-parameters are written only on success, so success is \<open>Some\<close> of what is written.

  The lemmas lift each method to the key-value view of the database; the properties are the
  contract of an object store (what a read returns after a write, what an operation leaves alone,
  when a bucket can be deleted), the consistency of data and metadata, and the listing.
\<close>

record GwObjectMeta =
  etag :: string
  mtime :: int
  osize :: int
  content_type :: string

record ListedObject =
  lo_key :: string
  lo_meta :: GwObjectMeta

record ListResult =
  lr_objects :: "ListedObject list"
  is_truncated :: bool
  next_continuation_token :: string

definition empty_ListResult :: ListResult where
  "empty_ListResult = \<lparr>lr_objects = [], is_truncated = False, next_continuation_token = []\<rparr>"

record 'db world =
  w_db :: 'db
  w_metrics :: "Metrics option"
  w_steady :: "nat \<Rightarrow> int"
  w_system :: "nat \<Rightarrow> int"
  w_tick :: nat

type_synonym err = "string option"

definition set_err :: "string \<Rightarrow> err \<Rightarrow> err" where
  "set_err s e = map_option (\<lambda>_. s) e"

definition set_err_if_empty :: "string \<Rightarrow> err \<Rightarrow> err" where
  "set_err_if_empty s e = (if e = Some [] then Some s else e)"

text \<open>\<open>steady_clock::now()\<close>, in nanoseconds, and \<open>util::unix_now_seconds()\<close>.\<close>

definition Clock_now :: "'db world \<Rightarrow> int \<times> 'db world" where
  "Clock_now w = (w_steady w (w_tick w), w\<lparr>w_tick := Suc (w_tick w)\<rparr>)"

definition unix_now_seconds :: "'db world \<Rightarrow> int \<times> 'db world" where
  "unix_now_seconds w = (w_system w (w_tick w), w\<lparr>w_tick := Suc (w_tick w)\<rparr>)"

definition duration_ms :: "int \<Rightarrow> int \<Rightarrow> rat" where
  "duration_ms start stop = fl (fl (of_int (stop - start)) / 1000000)"

definition observe_rocksdb :: "string \<Rightarrow> rocks_status \<Rightarrow> nat \<Rightarrow> int \<Rightarrow> 'db world \<Rightarrow> 'db world" where
  "observe_rocksdb op st bs start w =
     (case w_metrics w of
        None \<Rightarrow> w
      | Some m \<Rightarrow>
          let (stop, w) = Clock_now w in
          w\<lparr>w_metrics := Some (ObserveRocksdb op (ok st \<or> IsNotFound st) bs (duration_ms start stop) m)\<rparr>)"

section \<open>Keys and metadata\<close>

definition contains_nul :: "string \<Rightarrow> bool" where
  "contains_nul s \<longleftrightarrow> find_char (CHR 0x00) s \<noteq> None"

definition bucket_key :: "string \<Rightarrow> string" where
  "bucket_key bucket = [CHR ''B'', CHR 0x00] @ bucket"

definition meta_prefix :: "string \<Rightarrow> string" where
  "meta_prefix bucket = [CHR ''M'', CHR 0x00] @ bucket @ [CHR 0x00]"

definition meta_key :: "string \<Rightarrow> string \<Rightarrow> string" where
  "meta_key bucket key = meta_prefix bucket @ key"

definition data_key :: "string \<Rightarrow> string \<Rightarrow> string" where
  "data_key bucket key = [CHR ''D'', CHR 0x00] @ bucket @ [CHR 0x00] @ key"

definition encode_meta :: "GwObjectMeta \<Rightarrow> string" where
  "encode_meta m =
     to_string (osize m) @ [CHR 0x00] @ to_string (mtime m) @ [CHR 0x00] @ etag m @ [CHR 0x00]
       @ content_type m"

definition decode_meta :: "string \<Rightarrow> GwObjectMeta option" where
  "decode_meta v =
     (case find_char (CHR 0x00) v of
        None \<Rightarrow> None
      | Some p1 \<Rightarrow>
     (case find_char_from (CHR 0x00) (p1 + 1) v of
        None \<Rightarrow> None
      | Some p2 \<Rightarrow>
     (case find_char_from (CHR 0x00) (p2 + 1) v of
        None \<Rightarrow> None
      | Some p3 \<Rightarrow>
     (case from_chars_i64 (substr 0 p1 v) of
        None \<Rightarrow> None
      | Some sz \<Rightarrow>
     (case from_chars_i64 (substr (p1 + 1) (p2 - (p1 + 1)) v) of
        None \<Rightarrow> None
      | Some t \<Rightarrow>
          Some \<lparr>etag = substr (p2 + 1) (p3 - (p2 + 1)) v, mtime = t, osize = sz,
                content_type = drop (p3 + 1) v\<rparr>)))))"

section \<open>Buckets\<close>

text \<open>A timed call of the database: read the clock, call, observe.\<close>

definition timed_Get :: "'db rocksdb \<Rightarrow> string \<Rightarrow> 'db world \<Rightarrow> rocks_status \<times> bytes \<times> 'db world" where
  "timed_Get R k w =
     (let (start, w) = Clock_now w;
          (st, v) = db_Get R (w_db w) k
      in (st, v, observe_rocksdb ''get'' st (length v) start w))"

definition timed_Put :: "'db rocksdb \<Rightarrow> string \<Rightarrow> bytes \<Rightarrow> 'db world \<Rightarrow> rocks_status \<times> 'db world" where
  "timed_Put R k v w =
     (let (start, w) = Clock_now w;
          (st, d) = db_Put R (w_db w) k v
      in (st, observe_rocksdb ''put'' st (length v) start (w\<lparr>w_db := d\<rparr>)))"

definition timed_Delete :: "'db rocksdb \<Rightarrow> string \<Rightarrow> 'db world \<Rightarrow> rocks_status \<times> 'db world" where
  "timed_Delete R k w =
     (let (start, w) = Clock_now w;
          (st, d) = db_Delete R (w_db w) k
      in (st, observe_rocksdb ''delete'' st 0 start (w\<lparr>w_db := d\<rparr>)))"

definition timed_Write :: "'db rocksdb \<Rightarrow> batch_op list \<Rightarrow> nat \<Rightarrow> 'db world \<Rightarrow> rocks_status \<times> 'db world" where
  "timed_Write R b bs w =
     (let (start, w) = Clock_now w;
          (st, d) = db_Write R (w_db w) b
      in (st, observe_rocksdb ''write'' st bs start (w\<lparr>w_db := d\<rparr>)))"

definition bucket_exists :: "'db rocksdb \<Rightarrow> string \<Rightarrow> err \<Rightarrow> 'db world \<Rightarrow> bool \<times> err \<times> 'db world" where
  "bucket_exists R bucket err w =
     (if contains_nul bucket then (False, set_err ''Invalid bucket'' err, w)
      else
        let (st, v, w) = timed_Get R (bucket_key bucket) w in
        if ok st then (True, err, w)
        else if IsNotFound st then (False, err, w)
        else (False, set_err (ToString st) err, w))"

definition create_bucket :: "'db rocksdb \<Rightarrow> string \<Rightarrow> err \<Rightarrow> 'db world \<Rightarrow> bool \<times> err \<times> 'db world" where
  "create_bucket R bucket err w =
     (if contains_nul bucket then (False, set_err ''Invalid bucket'' err, w)
      else
        let (st, v, w) = timed_Get R (bucket_key bucket) w in
        if ok st then (True, err, w)
        else if \<not> IsNotFound st \<and> \<not> ok st then (False, set_err (ToString st) err, w)
        else
          let (st, w) = timed_Put R (bucket_key bucket) [] w in
          if \<not> ok st then (False, set_err (ToString st) err, w)
          else (True, err, w))"

text \<open>The loop of \<open>list_buckets\<close>: the names it collects and what the iterator has left.\<close>

fun list_buckets_loop :: "(string \<times> bytes) list \<Rightarrow> string list \<times> (string \<times> bytes) list" where
  "list_buckets_loop [] = ([], [])"
| "list_buckets_loop ((ks, v) # rest) =
     (if \<not> starts_with [CHR ''B'', CHR 0x00] ks then ([], (ks, v) # rest)
      else let (out, left) = list_buckets_loop rest in (drop 2 ks # out, left))"

definition list_buckets :: "'db rocksdb \<Rightarrow> err \<Rightarrow> 'db world \<Rightarrow> string list \<times> err \<times> 'db world" where
  "list_buckets R err w =
     (let (start, w) = Clock_now w;
          it = db_Seek R (w_db w) [CHR ''B'', CHR 0x00];
          (out, left) = list_buckets_loop (it_entries it);
          st = it_status (it\<lparr>it_entries := left\<rparr>);
          w = observe_rocksdb ''iter'' st 0 start w
      in (out, if \<not> ok st then set_err (ToString st) err else err, w))"

definition delete_bucket :: "'db rocksdb \<Rightarrow> string \<Rightarrow> err \<Rightarrow> 'db world \<Rightarrow> bool \<times> err \<times> 'db world" where
  "delete_bucket R bucket err w =
     (if contains_nul bucket then (False, set_err ''Invalid bucket'' err, w)
      else
        let (ex, err, w) = bucket_exists R bucket err w in
        if \<not> ex then (False, set_err_if_empty ''NoSuchBucket'' err, w)
        else
          let mp = meta_prefix bucket;
              it = db_Seek R (w_db w) mp
          in if Valid it \<and> starts_with mp (it_key it) then (False, set_err ''BucketNotEmpty'' err, w)
             else if \<not> ok (it_status it) then (False, set_err (ToString (it_status it)) err, w)
             else
               let (st, w) = timed_Delete R (bucket_key bucket) w in
               if \<not> ok st then (False, set_err (ToString st) err, w)
               else (True, err, w))"

section \<open>Objects\<close>

definition put_object ::
  "'db rocksdb \<Rightarrow> string \<Rightarrow> string \<Rightarrow> bytes \<Rightarrow> string \<Rightarrow> err \<Rightarrow> 'db world \<Rightarrow> GwObjectMeta option \<times> err \<times> 'db world" where
  "put_object R bucket key data ctype err w =
     (if contains_nul bucket \<or> contains_nul key then (None, set_err ''Invalid bucket/key'' err, w)
      else
        let (now, w) = unix_now_seconds w;
            m = \<lparr>etag = [], mtime = now, osize = int (length data),
                 content_type = (if ctype = [] then ''application/octet-stream'' else ctype)\<rparr>;
            batch = [BPut (data_key bucket key) data, BPut (meta_key bucket key) (encode_meta m)];
            (st, w) = timed_Write R batch (length data) w
        in if \<not> ok st then (None, set_err (ToString st) err, w)
           else (Some m, err, w))"

definition head_object ::
  "'db rocksdb \<Rightarrow> string \<Rightarrow> string \<Rightarrow> err \<Rightarrow> 'db world \<Rightarrow> GwObjectMeta option \<times> err \<times> 'db world" where
  "head_object R bucket key err w =
     (if contains_nul bucket \<or> contains_nul key then (None, set_err ''Invalid bucket/key'' err, w)
      else
        let (ex, err, w) = bucket_exists R bucket err w in
        if \<not> ex then (None, set_err_if_empty ''NoSuchBucket'' err, w)
        else
          let (st, meta_val, w) = timed_Get R (meta_key bucket key) w in
          if IsNotFound st then (None, set_err ''NoSuchKey'' err, w)
          else if \<not> ok st then (None, set_err (ToString st) err, w)
          else (case decode_meta meta_val of
                  None \<Rightarrow> (None, set_err ''Corrupt metadata'' err, w)
                | Some m \<Rightarrow> (Some m, err, w)))"

definition get_object ::
  "'db rocksdb \<Rightarrow> string \<Rightarrow> string \<Rightarrow> err \<Rightarrow> 'db world \<Rightarrow> (bytes \<times> GwObjectMeta) option \<times> err \<times> 'db world" where
  "get_object R bucket key err w =
     (case head_object R bucket key err w of
        (None, err, w) \<Rightarrow> (None, err, w)
      | (Some m, err, w) \<Rightarrow>
          let (st, data_val, w) = timed_Get R (data_key bucket key) w in
          if IsNotFound st then (None, set_err ''NoSuchKey'' err, w)
          else if \<not> ok st then (None, set_err (ToString st) err, w)
          else (Some (data_val, m), err, w))"

definition get_object_data ::
  "'db rocksdb \<Rightarrow> string \<Rightarrow> string \<Rightarrow> err \<Rightarrow> 'db world \<Rightarrow> bytes option \<times> err \<times> 'db world" where
  "get_object_data R bucket key err w =
     (if contains_nul bucket \<or> contains_nul key then (None, set_err ''Invalid bucket/key'' err, w)
      else
        let (st, data_val, w) = timed_Get R (data_key bucket key) w in
        if IsNotFound st then (None, set_err ''NoSuchKey'' err, w)
        else if \<not> ok st then (None, set_err (ToString st) err, w)
        else (Some data_val, err, w))"

definition delete_object :: "'db rocksdb \<Rightarrow> string \<Rightarrow> string \<Rightarrow> err \<Rightarrow> 'db world \<Rightarrow> bool \<times> err \<times> 'db world" where
  "delete_object R bucket key err w =
     (if contains_nul bucket \<or> contains_nul key then (False, set_err ''Invalid bucket/key'' err, w)
      else
        let (ex, err, w) = bucket_exists R bucket err w in
        if \<not> ex then (False, set_err_if_empty ''NoSuchBucket'' err, w)
        else
          let batch = [BDelete (meta_key bucket key), BDelete (data_key bucket key)];
              (st, w) = timed_Write R batch 0 w
          in if \<not> ok st then (False, set_err (ToString st) err, w)
             else (True, err, w))"

section \<open>Listing\<close>

text \<open>The look-ahead once \<open>max_keys\<close> objects are listed: \<open>it2\<close> past the last key.\<close>

definition look_ahead ::
  "'md openssl \<Rightarrow> 'db rocksdb \<Rightarrow> 'db \<Rightarrow> string \<Rightarrow> string \<Rightarrow> string \<Rightarrow> ListResult \<Rightarrow> ListResult" where
  "look_ahead ssl R d mp pfx last_meta_key res =
     (let it2 = db_Seek R d last_meta_key;
          it2 = (if Valid it2 then Next it2 else it2)
      in if Valid it2 \<and> starts_with mp (it_key it2)
            \<and> (pfx = [] \<or> starts_with pfx (drop (length mp) (it_key it2)))
         then res\<lparr>is_truncated := True, next_continuation_token := base64_encode ssl last_meta_key\<rparr>
         else res)"

fun list_loop ::
  "'md openssl \<Rightarrow> 'db rocksdb \<Rightarrow> 'db \<Rightarrow> string \<Rightarrow> string \<Rightarrow> int \<Rightarrow> int \<Rightarrow> ListResult \<Rightarrow>
   (string \<times> bytes) list \<Rightarrow> ListResult \<times> (string \<times> bytes) list" where
  "list_loop ssl R d mp pfx max_keys cnt res [] = (res, [])"
| "list_loop ssl R d mp pfx max_keys cnt res ((ks, vs) # rest) =
     (if \<not> starts_with mp ks then (res, (ks, vs) # rest)
      else
        let obj_key = drop (length mp) ks in
        if pfx \<noteq> [] \<and> \<not> starts_with pfx obj_key then (res, (ks, vs) # rest)
        else
          case decode_meta vs of
            None \<Rightarrow> list_loop ssl R d mp pfx max_keys cnt res rest
          | Some meta \<Rightarrow>
              let res = res\<lparr>lr_objects := lr_objects res @ [\<lparr>lo_key = obj_key, lo_meta = meta\<rparr>]\<rparr>;
                  cnt = cnt + 1
              in if cnt \<ge> max_keys then (look_ahead ssl R d mp pfx ks res, (ks, vs) # rest)
                 else list_loop ssl R d mp pfx max_keys cnt res rest)"

definition clamp_max_keys :: "int \<Rightarrow> int" where
  "clamp_max_keys max_keys =
     (let max_keys = (if max_keys \<le> 0 then 1000 else max_keys)
      in if max_keys > 1000 then 1000 else max_keys)"

definition list_objects_v2 ::
  "'md openssl \<Rightarrow> 'db rocksdb \<Rightarrow> string \<Rightarrow> string \<Rightarrow> int \<Rightarrow> string \<Rightarrow> err \<Rightarrow> 'db world \<Rightarrow> ListResult \<times> err \<times> 'db world" where
  "list_objects_v2 ssl R bucket pfx max_keys token err w =
     (if contains_nul bucket \<or> contains_nul pfx \<or> contains_nul token
      then (empty_ListResult, set_err ''Invalid bucket/prefix/token'' err, w)
      else
        let (ex, err, w) = bucket_exists R bucket err w in
        if \<not> ex then (empty_ListResult, set_err_if_empty ''NoSuchBucket'' err, w)
        else
          let max_keys = clamp_max_keys max_keys;
              mp = meta_prefix bucket
          in case (if token \<noteq> [] then base64_decode ssl token else Some (mp @ pfx)) of
               None \<Rightarrow> (empty_ListResult, set_err ''Invalid continuation-token'' err, w)
             | Some seek_key \<Rightarrow>
                 let (start, w) = Clock_now w;
                     it = db_Seek R (w_db w) seek_key;
                     it = (if token \<noteq> [] \<and> Valid it \<and> it_key it = seek_key then Next it else it);
                     (res, left) = list_loop ssl R (w_db w) mp pfx max_keys 0 empty_ListResult (it_entries it);
                     st = it_status (it\<lparr>it_entries := left\<rparr>);
                     w = observe_rocksdb ''iter'' st 0 start w
                 in (res, if \<not> ok st then set_err (ToString st) err else err, w))"

section \<open>Lemmas: keys and metadata\<close>

named_theorems key_lemmas \<open>injectivity and disjointness of the database keys\<close>

lemma contains_nul_iff [simp]: "contains_nul s \<longleftrightarrow> CHR 0x00 \<in> set s"
  by (simp add: contains_nul_def)

abbreviation nul_free :: "string \<Rightarrow> bool" where
  "nul_free s \<equiv> CHR 0x00 \<notin> set s"

lemma bucket_key_inject [key_lemmas]: "bucket_key b = bucket_key b' \<longleftrightarrow> b = b'"
  by (simp add: bucket_key_def)

lemma meta_key_inject [key_lemmas]:
  "nul_free b \<Longrightarrow> nul_free b' \<Longrightarrow> meta_key b k = meta_key b' k' \<longleftrightarrow> b = b' \<and> k = k'"
  using append_sep_inject [of "CHR 0x00" b b' k k'] by (simp add: meta_key_def meta_prefix_def)

lemma data_key_inject [key_lemmas]:
  "nul_free b \<Longrightarrow> nul_free b' \<Longrightarrow> data_key b k = data_key b' k' \<longleftrightarrow> b = b' \<and> k = k'"
  using append_sep_inject [of "CHR 0x00" b b' k k'] by (simp add: data_key_def)

lemma keys_disjoint [key_lemmas, simp]:
  "bucket_key b \<noteq> meta_key b' k" "bucket_key b \<noteq> data_key b' k" "meta_key b k \<noteq> data_key b' k'"
  "meta_key b' k \<noteq> bucket_key b" "data_key b' k \<noteq> bucket_key b" "data_key b' k' \<noteq> meta_key b k"
  by (simp_all add: bucket_key_def meta_key_def meta_prefix_def data_key_def)

lemma starts_with_meta_prefix:
  "starts_with (meta_prefix b) k \<longleftrightarrow> (\<exists>o'. k = meta_key b o')"
  by (simp add: starts_with_iff meta_key_def)

lemma meta_key_drop [simp]: "drop (length (meta_prefix b)) (meta_key b k) = k"
  by (simp add: meta_key_def)

lemma meta_prefix_of_key [key_lemmas]:
  "nul_free b \<Longrightarrow> nul_free b' \<Longrightarrow> starts_with (meta_prefix b) (meta_key b' k) \<longleftrightarrow> b = b'"
  using meta_key_inject [of b' b k] by (auto simp: starts_with_meta_prefix)

lemma not_meta_prefix [simp]:
  "\<not> starts_with (meta_prefix b) (bucket_key b')" "\<not> starts_with (meta_prefix b) (data_key b' k)"
  by (simp_all add: starts_with_def meta_prefix_def bucket_key_def data_key_def)

definition meta_ok :: "GwObjectMeta \<Rightarrow> bool" where
  "meta_ok m \<longleftrightarrow> in_i64 (osize m) \<and> in_i64 (mtime m) \<and> nul_free (etag m)"

lemma find_char_from_append [simp]:
  "c \<notin> set a \<Longrightarrow> find_char_from c (length p) (p @ a @ c # r) = Some (length p + length a)"
  by (simp add: find_char_from_def)

lemma decode_fields:
  assumes "nul_free a" "nul_free b" "nul_free c"
  shows "decode_meta (a @ [CHR 0x00] @ b @ [CHR 0x00] @ c @ [CHR 0x00] @ d) =
    (case from_chars_i64 a of None \<Rightarrow> None | Some sz \<Rightarrow>
      (case from_chars_i64 b of None \<Rightarrow> None | Some t \<Rightarrow>
        Some \<lparr>etag = c, mtime = t, osize = sz, content_type = d\<rparr>))"
proof -
  let ?z = "CHR 0x00"
  let ?v = "a @ ?z # b @ ?z # c @ ?z # d"
  have p1: "find_char ?z ?v = Some (length a)" using assms by simp
  have p2: "find_char_from ?z (Suc (length a)) ?v = Some (Suc (length a + length b))"
    using assms find_char_from_append [of ?z b "a @ [?z]" "c @ ?z # d"] by simp
  have p3: "find_char_from ?z (Suc (Suc (length a + length b))) ?v = Some (Suc (Suc (length a + length b + length c)))"
    using assms find_char_from_append [of ?z c "a @ ?z # b @ [?z]" d] by simp
  show ?thesis
    using p1 p2 p3
    by (simp add: decode_meta_def substr_def numeral_3_eq_3 cong: option.case_cong)
qed

lemma decode_encode_meta [simp]: "meta_ok m \<Longrightarrow> decode_meta (encode_meta m) = Some m"
  using decode_fields [of "to_string (osize m)" "to_string (mtime m)" "etag m" "content_type m"]
    from_chars_to_string [of "osize m" "[]"] from_chars_to_string [of "mtime m" "[]"]
  by (simp add: encode_meta_def meta_ok_def)

section \<open>Lemmas: the database under a method\<close>

lemma w_db_Clock_now [simp]: "w_db (snd (Clock_now w)) = w_db w"
  by (simp add: Clock_now_def)

lemma w_db_observe [simp]: "w_db (observe_rocksdb op st n t w) = w_db w"
  by (simp add: observe_rocksdb_def Clock_now_def split: option.splits)

lemma timed_Get_cases:
  obtains st v w' where "timed_Get R k w = (st, v, w')" "db_Get R (w_db w) k = (st, v)"
    "w_db w' = w_db w"
  by (cases "db_Get R (w_db w) k") (simp add: timed_Get_def Clock_now_def)

lemma timed_Put_cases:
  obtains st w' where "timed_Put R k v w = (st, w')" "db_Put R (w_db w) k v = (st, w_db w')"
  by (rule that [of "fst (timed_Put R k v w)" "snd (timed_Put R k v w)"])
    (simp_all add: timed_Put_def Clock_now_def split_beta Let_def)

lemma timed_Delete_cases:
  obtains st w' where "timed_Delete R k w = (st, w')" "db_Delete R (w_db w) k = (st, w_db w')"
  by (rule that [of "fst (timed_Delete R k w)" "snd (timed_Delete R k w)"])
    (simp_all add: timed_Delete_def Clock_now_def split_beta Let_def)

lemma timed_Write_cases:
  obtains st w' where "timed_Write R b n w = (st, w')" "db_Write R (w_db w) b = (st, w_db w')"
  by (rule that [of "fst (timed_Write R b n w)" "snd (timed_Write R b n w)"])
    (simp_all add: timed_Write_def Clock_now_def split_beta Let_def)

lemma bucket_exists_w_db [simp]: "w_db (snd (snd (bucket_exists R b e w))) = w_db w"
  by (rule timed_Get_cases [of R "bucket_key b" w]) (simp add: bucket_exists_def)

lemma bucket_exists_cases:
  obtains ex e' w' where "bucket_exists R b e w = (ex, e', w')" "w_db w' = w_db w"
  using bucket_exists_w_db [of R b e w] by (cases "bucket_exists R b e w") auto

lemma head_object_w_db [simp]: "w_db (snd (snd (head_object R b k e w))) = w_db w"
proof -
  obtain ex e' w' where x: "bucket_exists R b e w = (ex, e', w')" "w_db w' = w_db w"
    by (rule bucket_exists_cases)
  show ?thesis
    by (rule timed_Get_cases [of R "meta_key b k" w'])
      (simp add: head_object_def x split: option.splits)
qed

lemma get_object_data_w_db [simp]: "w_db (snd (snd (get_object_data R b k e w))) = w_db w"
  by (rule timed_Get_cases [of R "data_key b k" w]) (simp add: get_object_data_def)

lemma get_object_w_db [simp]: "w_db (snd (snd (get_object R b k e w))) = w_db w"
proof -
  obtain m e' w' where x: "head_object R b k e w = (m, e', w')" by (cases "head_object R b k e w")
  have [simp]: "w_db w' = w_db w" using head_object_w_db [of R b k e w] x by simp
  show ?thesis
    by (rule timed_Get_cases [of R "data_key b k" w'])
      (simp add: get_object_def x split: option.splits)
qed

lemma list_buckets_w_db [simp]: "w_db (snd (snd (list_buckets R e w))) = w_db w"
  by (simp add: list_buckets_def Clock_now_def Let_def split_beta)

lemma list_objects_v2_w_db [simp]: "w_db (snd (snd (list_objects_v2 ssl R b p n t e w))) = w_db w"
proof -
  obtain ex e' w' where x: "bucket_exists R b e w = (ex, e', w')" "w_db w' = w_db w"
    by (rule bucket_exists_cases)
  show ?thesis
    by (simp add: list_objects_v2_def x Clock_now_def Let_def split_beta split: option.splits)
qed

section \<open>The methods over the key-value view\<close>

definition new_meta :: "bytes \<Rightarrow> string \<Rightarrow> 'db world \<Rightarrow> GwObjectMeta" where
  "new_meta data ctype w =
     \<lparr>etag = [], mtime = w_system w (w_tick w), osize = int (length data),
      content_type = (if ctype = [] then ''application/octet-stream'' else ctype)\<rparr>"

definition put_kv :: "string \<Rightarrow> string \<Rightarrow> bytes \<Rightarrow> GwObjectMeta \<Rightarrow> kv \<Rightarrow> kv" where
  "put_kv b k data m V = V(data_key b k \<mapsto> data, meta_key b k \<mapsto> encode_meta m)"

definition delete_kv :: "string \<Rightarrow> string \<Rightarrow> kv \<Rightarrow> kv" where
  "delete_kv b k V = V(meta_key b k := None, data_key b k := None)"

definition no_objects :: "string \<Rightarrow> kv \<Rightarrow> bool" where
  "no_objects b V \<longleftrightarrow> (\<forall>k. V (meta_key b k) = None)"

definition head_spec :: "string \<Rightarrow> string \<Rightarrow> err \<Rightarrow> kv \<Rightarrow> GwObjectMeta option \<times> err" where
  "head_spec b k e m =
     (if m (bucket_key b) = None then (None, set_err_if_empty ''NoSuchBucket'' e)
      else case m (meta_key b k) of
             None \<Rightarrow> (None, set_err ''NoSuchKey'' e)
           | Some v \<Rightarrow> (case decode_meta v of
                          None \<Rightarrow> (None, set_err ''Corrupt metadata'' e)
                        | Some x \<Rightarrow> (Some x, e)))"

lemma put_object_cases:
  assumes "nul_free b" "nul_free k"
  obtains st w' where
    "put_object R b k data ct e w =
       (if ok st then (Some (new_meta data ct w), e, w') else (None, set_err (ToString st) e, w'))"
    "db_Write R (w_db w) [BPut (data_key b k) data, BPut (meta_key b k) (encode_meta (new_meta data ct w))]
       = (st, w_db w')"
proof -
  let ?b = "[BPut (data_key b k) data, BPut (meta_key b k) (encode_meta (new_meta data ct w))]"
  let ?w = "snd (unix_now_seconds w)"
  obtain st w' where t: "timed_Write R ?b (length data) ?w = (st, w')"
    "db_Write R (w_db w) ?b = (st, w_db w')"
    by (rule timed_Write_cases [of R ?b "length data" ?w]) (simp add: unix_now_seconds_def)
  show thesis
    by (rule that [of st w'])
      (use assms t in \<open>simp_all add: put_object_def unix_now_seconds_def new_meta_def Let_def\<close>)
qed

context rocksdb_laws
begin

abbreviation V :: "'db world \<Rightarrow> kv" where
  "V w \<equiv> view (w_db w)"

lemma bucket_exists_True:
  assumes "bucket_exists R b e w = (True, e', w')"
  shows "nul_free b \<and> V w (bucket_key b) \<noteq> None \<and> e' = e"
  by (rule timed_Get_cases [of R "bucket_key b" w])
    (use assms Get_ok in \<open>auto simp: bucket_exists_def split: if_splits\<close>)

lemma put_object_view:
  assumes "nul_free b" "nul_free k" "put_object R b k data ct e w = (r, e', w')"
  shows "V w' = V w \<or> V w' = put_kv b k data (new_meta data ct w) (V w)"
    and "r = Some m \<Longrightarrow> m = new_meta data ct w \<and> V w' = put_kv b k data m (V w) \<and> e' = e"
  by (rule put_object_cases [OF assms(1,2), of R data ct e w];
      use assms(3) Write_ok Write_atomic in \<open>fastforce simp: put_kv_def split: if_splits\<close>)+

lemma delete_object_view:
  assumes "delete_object R b k e w = (r, e', w')"
  shows "V w' = V w \<or> nul_free b \<and> nul_free k \<and> V w (bucket_key b) \<noteq> None \<and> V w' = delete_kv b k (V w)"
    and "r \<Longrightarrow> V w' = delete_kv b k (V w) \<and> e' = e \<and> nul_free b \<and> nul_free k \<and> V w (bucket_key b) \<noteq> None"
proof -
  let ?b = "[BDelete (meta_key b k), BDelete (data_key b k)]"
  obtain ex e1 w1 where x: "bucket_exists R b e w = (ex, e1, w1)" and d: "w_db w1 = w_db w"
    by (rule bucket_exists_cases)
  obtain st w2 where t: "timed_Write R ?b 0 w1 = (st, w2)" "db_Write R (w_db w) ?b = (st, w_db w2)"
    by (rule timed_Write_cases [of R ?b 0 w1]) (simp add: d)
  show "V w' = V w \<or> nul_free b \<and> nul_free k \<and> V w (bucket_key b) \<noteq> None \<and> V w' = delete_kv b k (V w)"
    using assms Write_atomic [OF t(2)] d bucket_exists_True [of b e w e1 w1] x
    by (auto simp: delete_object_def t(1) delete_kv_def split: if_splits)
  show "r \<Longrightarrow> V w' = delete_kv b k (V w) \<and> e' = e \<and> nul_free b \<and> nul_free k \<and> V w (bucket_key b) \<noteq> None"
    using assms Write_ok [OF t(2)] bucket_exists_True [of b e w e1 w1] x
    by (auto simp: delete_object_def t(1) delete_kv_def split: if_splits)
qed

lemma create_bucket_view:
  assumes "create_bucket R b e w = (r, e', w')"
  shows "V w' = V w \<or> nul_free b \<and> V w (bucket_key b) = None \<and> V w' = (V w)(bucket_key b \<mapsto> [])"
    and "r \<Longrightarrow> nul_free b \<and> e' = e \<and> V w' = (if V w (bucket_key b) = None then (V w)(bucket_key b \<mapsto> []) else V w)"
proof -
  obtain st v w1 where g: "timed_Get R (bucket_key b) w = (st, v, w1)" "db_Get R (w_db w) (bucket_key b) = (st, v)"
    "w_db w1 = w_db w" by (rule timed_Get_cases [of R "bucket_key b" w]) simp
  obtain st2 w2 where p: "timed_Put R (bucket_key b) [] w1 = (st2, w2)"
    "db_Put R (w_db w) (bucket_key b) [] = (st2, w_db w2)"
    by (rule timed_Put_cases [of R "bucket_key b" "[]" w1]) (simp add: g(3))
  show "V w' = V w \<or> nul_free b \<and> V w (bucket_key b) = None \<and> V w' = (V w)(bucket_key b \<mapsto> [])"
    using assms Put_atomic [OF p(2)] Get_NotFound [OF g(2)] g(3)
    by (auto simp: create_bucket_def g(1) p(1) split: if_splits)
  show "r \<Longrightarrow> nul_free b \<and> e' = e \<and> V w' = (if V w (bucket_key b) = None then (V w)(bucket_key b \<mapsto> []) else V w)"
    using assms Put_ok [OF p(2)] Get_NotFound [OF g(2)] Get_ok [OF g(2)] g(3)
    by (auto simp: create_bucket_def g(1) p(1) split: if_splits)
qed

lemma seek_first:
  assumes "ok (it_status (db_Seek R d s))" "\<not> (Valid (db_Seek R d s) \<and> starts_with s (it_key (db_Seek R d s)))"
  shows "view d (s @ t) = None"
proof (rule ccontr)
  let ?it = "db_Seek R d s"
  assume "view d (s @ t) \<noteq> None"
  then obtain v where v: "view d (s @ t) = Some v" by auto
  note so = iter_entries_okD [OF Seek_entries [of d s]]
  show False
  proof (cases "it_entries ?it")
    case Nil
    then have "iter_complete (view d) s []"
      using assms(1) Seek_end [of d s] by (simp add: it_status_def Valid_def)
    with v show False by (auto simp: iter_complete_def)
  next
    case (Cons e es)
    then have ns: "\<not> starts_with s (fst e)" and e: "s \<le> fst e"
      using assms(2) so(2) [of "fst e" "snd e"] by (auto simp: Valid_def it_key_def)
    have "\<not> fst e \<le> s @ t" using ns e between_prefix by blast
    then have "s @ t < fst e" by simp
    moreover have "(s @ t, v) \<in> set (e # es)"
      using so(3) [OF v, of "fst e"] \<open>s @ t < fst e\<close> Cons by simp
    then have "fst e \<le> s @ t" using so(1) Cons by (auto simp: less_imp_le)
    ultimately show False by simp
  qed
qed

lemma delete_bucket_view:
  assumes "delete_bucket R b e w = (r, e', w')"
  shows "V w' = V w \<or> nul_free b \<and> no_objects b (V w) \<and> V w' = (V w)(bucket_key b := None)"
    and "r \<Longrightarrow> nul_free b \<and> no_objects b (V w) \<and> V w (bucket_key b) \<noteq> None \<and>
           V w' = (V w)(bucket_key b := None) \<and> e' = e"
proof -
  obtain ex e1 w1 where x: "bucket_exists R b e w = (ex, e1, w1)" and d: "w_db w1 = w_db w"
    by (rule bucket_exists_cases)
  obtain st w2 where t: "timed_Delete R (bucket_key b) w1 = (st, w2)"
    "db_Delete R (w_db w) (bucket_key b) = (st, w_db w2)"
    by (rule timed_Delete_cases [of R "bucket_key b" w1]) (simp add: d)
  let ?it = "db_Seek R (w_db w1) (meta_prefix b)"
  have none: "no_objects b (V w)"
    if "ok (it_status ?it)" "\<not> (Valid ?it \<and> starts_with (meta_prefix b) (it_key ?it))"
    using seek_first [OF that] d by (simp add: no_objects_def meta_key_def)
  show "V w' = V w \<or> nul_free b \<and> no_objects b (V w) \<and> V w' = (V w)(bucket_key b := None)"
    using assms Delete_atomic [OF t(2)] d none
    by (auto simp: delete_bucket_def x t(1) Let_def split: if_splits)
  show "r \<Longrightarrow> nul_free b \<and> no_objects b (V w) \<and> V w (bucket_key b) \<noteq> None \<and>
           V w' = (V w)(bucket_key b := None) \<and> e' = e"
    using assms Delete_ok [OF t(2)] none bucket_exists_True [of b e w e1 w1] x
    by (auto simp: delete_bucket_def t(1) Let_def split: if_splits)
qed

text \<open>What a successful read returns is in the database.\<close>

lemma get_object_data_sound:
  "get_object_data R b k e w = (Some d, e', w') \<Longrightarrow> V w (data_key b k) = Some d"
  by (rule timed_Get_cases [of R "data_key b k" w])
    (use Get_ok in \<open>auto simp: get_object_data_def split: if_splits\<close>)

lemma head_object_sound:
  assumes "head_object R b k e w = (Some m, e', w')"
  shows "V w (bucket_key b) \<noteq> None \<and> (\<exists>v. V w (meta_key b k) = Some v \<and> decode_meta v = Some m) \<and> e' = e"
proof -
  obtain ex e1 w1 where x: "bucket_exists R b e w = (ex, e1, w1)" and d: "w_db w1 = w_db w"
    by (rule bucket_exists_cases)
  obtain st v w2 where g: "timed_Get R (meta_key b k) w1 = (st, v, w2)"
    "db_Get R (w_db w) (meta_key b k) = (st, v)"
    by (rule timed_Get_cases [of R "meta_key b k" w1]) (simp add: d)
  show ?thesis
    using assms Get_ok [OF g(2)] bucket_exists_True [of b e w e1 w1] x
    by (auto simp: head_object_def g(1) split: if_splits option.splits)
qed

end

context rocksdb_healthy
begin

lemma bucket_exists_eq:
  assumes "nul_free b"
  obtains w' where "bucket_exists R b e w = (V w (bucket_key b) \<noteq> None, e, w')" "w_db w' = w_db w"
proof -
  obtain st v w' where g: "timed_Get R (bucket_key b) w = (st, v, w')"
    "db_Get R (w_db w) (bucket_key b) = (st, v)" "w_db w' = w_db w" by (rule timed_Get_cases)
  show thesis
    using that [of w'] Get_total [OF g(2)] Get_ok [OF g(2)] Get_NotFound [OF g(2)] assms
    by (cases st) (auto simp: bucket_exists_def g)
qed

lemma get_object_data_eq:
  assumes "nul_free b" "nul_free k"
  obtains w' where "get_object_data R b k e w =
      (V w (data_key b k), if V w (data_key b k) = None then set_err ''NoSuchKey'' e else e, w')"
    "w_db w' = w_db w"
proof -
  obtain st v w' where g: "timed_Get R (data_key b k) w = (st, v, w')"
    "db_Get R (w_db w) (data_key b k) = (st, v)" "w_db w' = w_db w" by (rule timed_Get_cases)
  show thesis
    using that [of w'] Get_total [OF g(2)] Get_ok [OF g(2)] Get_NotFound [OF g(2)] assms
    by (cases st) (auto simp: get_object_data_def g)
qed

lemma head_object_eq:
  assumes "nul_free b" "nul_free k"
  obtains w' where "head_object R b k e w = (fst (head_spec b k e (V w)), snd (head_spec b k e (V w)), w')"
    "w_db w' = w_db w"
proof -
  obtain w1 where x: "bucket_exists R b e w = (V w (bucket_key b) \<noteq> None, e, w1)" "w_db w1 = w_db w"
    using assms(1) by (rule bucket_exists_eq)
  obtain st v w2 where g: "timed_Get R (meta_key b k) w1 = (st, v, w2)"
    "db_Get R (w_db w) (meta_key b k) = (st, v)" "w_db w2 = w_db w"
    by (rule timed_Get_cases [of R "meta_key b k" w1]) (simp add: x)
  show thesis
    using that [of "if V w (bucket_key b) = None then w1 else w2"] x assms
      Get_total [OF g(2)] Get_ok [OF g(2)] Get_NotFound [OF g(2)]
    by (cases st) (auto simp: head_object_def head_spec_def g split: option.splits)
qed

end

section \<open>The invariant and the abstract object store\<close>

text \<open>
  The database holds bucket markers, data and metadata under their keys and nothing else; data
  and metadata come in pairs, the metadata decodes and records the length of the data.
\<close>

fun pair_ok :: "bytes option \<Rightarrow> bytes option \<Rightarrow> bool" where
  "pair_ok None None = True"
| "pair_ok (Some d) (Some v) = (\<exists>m. v = encode_meta m \<and> meta_ok m \<and> osize m = int (length d))"
| "pair_ok _ _ = False"

definition store_key :: "string \<Rightarrow> bool" where
  "store_key key \<longleftrightarrow>
     (\<exists>b. nul_free b \<and> key = bucket_key b) \<or>
     (\<exists>b k. nul_free b \<and> nul_free k \<and> (key = meta_key b k \<or> key = data_key b k))"

definition store_inv :: "kv \<Rightarrow> bool" where
  "store_inv V \<longleftrightarrow>
     (\<forall>key \<in> dom V. store_key key) \<and>
     (\<forall>b k. nul_free b \<longrightarrow> nul_free k \<longrightarrow> pair_ok (V (data_key b k)) (V (meta_key b k)))"

record ostore =
  os_buckets :: "string set"
  os_objects :: "string \<times> string \<Rightarrow> (bytes \<times> GwObjectMeta) option"

definition abs_object :: "kv \<Rightarrow> string \<Rightarrow> string \<Rightarrow> (bytes \<times> GwObjectMeta) option" where
  "abs_object V b k =
     (case (V (data_key b k), V (meta_key b k)) of
        (Some d, Some v) \<Rightarrow> map_option (Pair d) (decode_meta v)
      | _ \<Rightarrow> None)"

definition abs_ostore :: "kv \<Rightarrow> ostore" where
  "abs_ostore V =
     \<lparr>os_buckets = {b. nul_free b \<and> V (bucket_key b) \<noteq> None},
      os_objects = (\<lambda>(b, k). if nul_free b \<and> nul_free k then abs_object V b k else None)\<rparr>"

datatype store_op =
  CreateBucket string
  | DeleteBucket string
  | PutObject string string bytes string
  | DeleteObject string string

fun run_store_op :: "'db rocksdb \<Rightarrow> store_op \<Rightarrow> err \<Rightarrow> 'db world \<Rightarrow> bool \<times> err \<times> 'db world" where
  "run_store_op R (CreateBucket b) e w = create_bucket R b e w"
| "run_store_op R (DeleteBucket b) e w = delete_bucket R b e w"
| "run_store_op R (PutObject b k d ct) e w =
     (case put_object R b k d ct e w of (m, e', w') \<Rightarrow> (m \<noteq> None, e', w'))"
| "run_store_op R (DeleteObject b k) e w = delete_object R b k e w"

text \<open>The abstract operations: whether the operation is accepted, and the new store.\<close>

fun abs_store_op :: "store_op \<Rightarrow> GwObjectMeta \<Rightarrow> ostore \<Rightarrow> bool \<times> ostore" where
  "abs_store_op (CreateBucket b) m s =
     (if nul_free b then (True, s\<lparr>os_buckets := insert b (os_buckets s)\<rparr>) else (False, s))"
| "abs_store_op (DeleteBucket b) m s =
     (if b \<in> os_buckets s \<and> (\<forall>k. os_objects s (b, k) = None)
      then (True, s\<lparr>os_buckets := os_buckets s - {b}\<rparr>) else (False, s))"
| "abs_store_op (PutObject b k d ct) m s =
     (if nul_free b \<and> nul_free k then (True, s\<lparr>os_objects := (os_objects s)((b, k) \<mapsto> (d, m))\<rparr>)
      else (False, s))"
| "abs_store_op (DeleteObject b k) m s =
     (if b \<in> os_buckets s \<and> nul_free k
      then (True, s\<lparr>os_objects := (os_objects s)((b, k) := None)\<rparr>) else (False, s))"

text \<open>The meta data an operation writes, and the sizes and times it can represent.\<close>

fun op_meta :: "store_op \<Rightarrow> 'db world \<Rightarrow> GwObjectMeta" where
  "op_meta (PutObject b k d ct) w = new_meta d ct w"
| "op_meta _ w = new_meta [] [] w"

fun op_ok :: "store_op \<Rightarrow> 'db world \<Rightarrow> bool" where
  "op_ok (PutObject b k d ct) w \<longleftrightarrow> int (length d) < 2 ^ 63 \<and> in_i64 (w_system w (w_tick w))"
| "op_ok _ w \<longleftrightarrow> True"

lemma new_meta_ok: "op_ok (PutObject b k d ct) w \<Longrightarrow> meta_ok (new_meta d ct w) \<and> osize (new_meta d ct w) = int (length d)"
  by (simp add: new_meta_def meta_ok_def in_i64_def)

lemma store_key_simps [simp]:
  "nul_free b \<Longrightarrow> store_key (bucket_key b)"
  "nul_free b \<Longrightarrow> nul_free k \<Longrightarrow> store_key (meta_key b k)"
  "nul_free b \<Longrightarrow> nul_free k \<Longrightarrow> store_key (data_key b k)"
  unfolding store_key_def by blast+

lemma store_inv_empty: "store_inv Map.empty"
  by (simp add: store_inv_def)

lemma store_inv_put:
  "store_inv V \<Longrightarrow> nul_free b \<Longrightarrow> nul_free k \<Longrightarrow> meta_ok m \<Longrightarrow> osize m = int (length d) \<Longrightarrow>
   store_inv (put_kv b k d m V)"
  unfolding store_inv_def put_kv_def by (auto simp: key_lemmas)

lemma store_inv_delete: "store_inv V \<Longrightarrow> nul_free b \<Longrightarrow> nul_free k \<Longrightarrow> store_inv (delete_kv b k V)"
  unfolding store_inv_def delete_kv_def by (auto simp: key_lemmas)

lemma store_inv_bucket:
  "store_inv V \<Longrightarrow> nul_free b \<Longrightarrow> store_inv (V(bucket_key b := x))"
  unfolding store_inv_def by (auto simp: key_lemmas)

lemma store_inv_pair:
  "store_inv V \<Longrightarrow> nul_free b \<Longrightarrow> nul_free k \<Longrightarrow> pair_ok (V (data_key b k)) (V (meta_key b k))"
  by (simp add: store_inv_def)

lemma pair_ok_cases:
  assumes "pair_ok x y"
  obtains (absent) "x = None" "y = None"
  | (present) d m where "x = Some d" "y = Some (encode_meta m)" "meta_ok m" "osize m = int (length d)"
  using assms by (cases x; cases y) auto

lemma store_inv_meta_nul_free:
  assumes "store_inv V" "nul_free b" "V (meta_key b k) = Some v"
  shows "nul_free k"
proof -
  have "store_key (meta_key b k)" using assms by (auto simp: store_inv_def)
  then show ?thesis using assms(2) by (auto simp: store_key_def key_lemmas)
qed

lemma store_inv_bucket_nul_free:
  assumes "store_inv V" "V (bucket_key b) \<noteq> None"
  shows "nul_free b"
proof -
  have "store_key (bucket_key b)" using assms by (auto simp: store_inv_def)
  then show ?thesis by (auto simp: store_key_def key_lemmas)
qed

lemma no_objects_abs:
  assumes "store_inv V" "nul_free b"
  shows "no_objects b V \<longleftrightarrow> (\<forall>k. os_objects (abs_ostore V) (b, k) = None)"
proof -
  have "V (meta_key b k) = None \<longleftrightarrow> os_objects (abs_ostore V) (b, k) = None" for k
  proof (cases "nul_free k")
    case True
    from store_inv_pair [OF assms this] show ?thesis
      by (cases rule: pair_ok_cases) (use assms True in \<open>auto simp: abs_ostore_def abs_object_def\<close>)
  next
    case False
    then show ?thesis
      using store_inv_meta_nul_free [OF assms, of k] by (cases "V (meta_key b k)") (auto simp: abs_ostore_def)
  qed
  then show ?thesis by (simp add: no_objects_def)
qed

lemma abs_put:
  "nul_free b \<Longrightarrow> nul_free k \<Longrightarrow> meta_ok m \<Longrightarrow>
   abs_ostore (put_kv b k d m V) =
     (abs_ostore V)\<lparr>os_objects := (os_objects (abs_ostore V))((b, k) \<mapsto> (d, m))\<rparr>"
  by (auto simp: abs_ostore_def put_kv_def abs_object_def key_lemmas fun_eq_iff cong: option.case_cong)

lemma abs_delete:
  "nul_free b \<Longrightarrow> nul_free k \<Longrightarrow>
   abs_ostore (delete_kv b k V) =
     (abs_ostore V)\<lparr>os_objects := (os_objects (abs_ostore V))((b, k) := None)\<rparr>"
  by (auto simp: abs_ostore_def delete_kv_def abs_object_def key_lemmas fun_eq_iff)

lemma abs_create_bucket:
  "nul_free b \<Longrightarrow>
   abs_ostore (V(bucket_key b \<mapsto> x)) = (abs_ostore V)\<lparr>os_buckets := insert b (os_buckets (abs_ostore V))\<rparr>"
  by (auto simp: abs_ostore_def abs_object_def key_lemmas fun_eq_iff)

lemma abs_delete_bucket:
  "nul_free b \<Longrightarrow>
   abs_ostore (V(bucket_key b := None)) = (abs_ostore V)\<lparr>os_buckets := os_buckets (abs_ostore V) - {b}\<rparr>"
  by (auto simp: abs_ostore_def abs_object_def key_lemmas fun_eq_iff)

text \<open>A run of the store: any operations, in any order, whatever RocksDB answers.\<close>

inductive store_reach :: "'db rocksdb \<Rightarrow> 'db world \<Rightarrow> 'db world \<Rightarrow> bool" for R w0 where
  reach_init: "store_reach R w0 w0"
| reach_step: "store_reach R w0 w \<Longrightarrow> op_ok op w \<Longrightarrow> run_store_op R op e w = (r, e', w') \<Longrightarrow>
    store_reach R w0 w'"

context rocksdb_laws
begin

lemma run_store_op_inv:
  assumes "store_inv (V w)" "op_ok op w" "run_store_op R op e w = (r, e', w')"
  shows "store_inv (V w')"
proof (cases op)
  case (CreateBucket b)
  with assms create_bucket_view(1) [of b e w r e' w'] show ?thesis
    by (auto intro: store_inv_bucket)
next
  case (DeleteBucket b)
  with assms delete_bucket_view(1) [of b e w r e' w'] show ?thesis
    by (auto intro: store_inv_bucket)
next
  case (PutObject b k d ct)
  with assms(3) obtain m where p: "put_object R b k d ct e w = (m, e', w')"
    by (auto split: prod.splits)
  show ?thesis
  proof (cases "nul_free b \<and> nul_free k")
    case True
    with put_object_view(1) [OF _ _ p] assms(1,2) new_meta_ok [of b k d ct w] PutObject show ?thesis
      by (auto intro: store_inv_put)
  next
    case False
    with p assms(1) show ?thesis by (auto simp: put_object_def)
  qed
next
  case (DeleteObject b k)
  with assms delete_object_view(1) [of b k e w r e' w'] show ?thesis
    by (auto intro: store_inv_delete)
qed

lemma store_reach_inv: "store_reach R w0 w \<Longrightarrow> store_inv (V w0) \<Longrightarrow> store_inv (V w)"
  by (induction rule: store_reach.induct) (auto dest: run_store_op_inv)

end

context rocksdb_healthy
begin

lemma create_bucket_succeeds: "nul_free b \<Longrightarrow> fst (create_bucket R b e w)"
  by (rule timed_Get_cases [of R "bucket_key b" w], rule timed_Put_cases [of R "bucket_key b" "[]" "snd (snd (timed_Get R (bucket_key b) w))"])
    (use Get_total Put_total in \<open>auto simp: create_bucket_def\<close>)

lemma put_object_succeeds:
  assumes "nul_free b" "nul_free k"
  obtains w' where "put_object R b k d ct e w = (Some (new_meta d ct w), e, w')"
    "V w' = put_kv b k d (new_meta d ct w) (V w)"
proof -
  obtain st w' where p: "put_object R b k d ct e w =
      (if ok st then (Some (new_meta d ct w), e, w') else (None, set_err (ToString st) e, w'))"
    and wr: "db_Write R (w_db w) [BPut (data_key b k) d, BPut (meta_key b k) (encode_meta (new_meta d ct w))]
       = (st, w_db w')"
    by (rule put_object_cases [OF assms])
  show thesis using that [of w'] p Write_view [OF wr] by (simp add: put_kv_def)
qed

lemma delete_object_succeeds:
  assumes "nul_free b" "nul_free k" "V w (bucket_key b) \<noteq> None"
  shows "fst (delete_object R b k e w)"
proof -
  obtain w1 where x: "bucket_exists R b e w = (V w (bucket_key b) \<noteq> None, e, w1)"
    using assms(1) by (rule bucket_exists_eq)
  show ?thesis
    by (rule timed_Write_cases [of R "[BDelete (meta_key b k), BDelete (data_key b k)]" 0 w1])
      (use x assms Write_total in \<open>auto simp: delete_object_def\<close>)
qed

lemma seek_no_objects:
  assumes "no_objects b (view d)"
  shows "\<not> (Valid (db_Seek R d (meta_prefix b)) \<and> starts_with (meta_prefix b) (it_key (db_Seek R d (meta_prefix b))))"
proof
  let ?it = "db_Seek R d (meta_prefix b)"
  assume a: "Valid ?it \<and> starts_with (meta_prefix b) (it_key ?it)"
  then obtain k where "it_key ?it = meta_key b k" by (auto simp: starts_with_meta_prefix)
  moreover have "view d (it_key ?it) = Some (it_value ?it)"
    using a iter_entries_okD(2) [OF Seek_entries [of d "meta_prefix b"], of "it_key ?it" "it_value ?it"]
    by (cases "it_entries ?it") (auto simp: Valid_def it_key_def it_value_def)
  ultimately show False using assms by (simp add: no_objects_def)
qed

lemma delete_bucket_succeeds:
  assumes "nul_free b" "V w (bucket_key b) \<noteq> None" "no_objects b (V w)"
  shows "fst (delete_bucket R b e w)"
proof -
  obtain w1 where x: "bucket_exists R b e w = (V w (bucket_key b) \<noteq> None, e, w1)" "w_db w1 = w_db w"
    using assms(1) by (rule bucket_exists_eq)
  have "\<not> (Valid (db_Seek R (w_db w) (meta_prefix b)) \<and>
      starts_with (meta_prefix b) (it_key (db_Seek R (w_db w) (meta_prefix b))))"
    by (rule seek_no_objects [OF assms(3)])
  moreover obtain st w2 where t: "timed_Delete R (bucket_key b) w1 = (st, w2)"
    "db_Delete R (w_db w1) (bucket_key b) = (st, w_db w2)" by (rule timed_Delete_cases)
  ultimately show ?thesis
    using x assms(1,2) Delete_total [OF t(2)] Seek_total [of "w_db w" "meta_prefix b"]
    by (simp add: delete_bucket_def it_status_def Let_def t(1))
qed

lemma run_store_op_refines:
  assumes inv: "store_inv (V w)" and "op_ok op w" and run: "run_store_op R op e w = (r, e', w')"
  shows "(r, abs_ostore (V w')) = abs_store_op op (op_meta op w) (abs_ostore (V w))"
proof (cases op)
  case (CreateBucket b)
  show ?thesis
  proof (cases "nul_free b")
    case True
    then have r using CreateBucket run create_bucket_succeeds [of b e w] by simp
    with CreateBucket run create_bucket_view(2) [of b e w r e' w'] True show ?thesis
      by (cases "V w (bucket_key b)") (auto simp: abs_create_bucket, auto simp: abs_ostore_def)
  next
    case False
    with CreateBucket run show ?thesis by (auto simp: create_bucket_def)
  qed
next
  case (DeleteBucket b)
  have iff: "b \<in> os_buckets (abs_ostore (V w)) \<longleftrightarrow> nul_free b \<and> V w (bucket_key b) \<noteq> None"
    by (simp add: abs_ostore_def)
  show ?thesis
  proof (cases "nul_free b \<and> V w (bucket_key b) \<noteq> None \<and> no_objects b (V w)")
    case True
    then have r using DeleteBucket run delete_bucket_succeeds [of b w e] by simp
    with True DeleteBucket run delete_bucket_view(2) [of b e w r e' w'] show ?thesis
      using no_objects_abs [OF inv, of b] iff by (simp add: abs_delete_bucket)
  next
    case False
    then have "\<not> r" using DeleteBucket run delete_bucket_view(2) [of b e w r e' w'] by auto
    moreover have "V w' = V w"
      using False DeleteBucket run delete_bucket_view(1) [of b e w r e' w'] by auto
    ultimately show ?thesis
      using False iff no_objects_abs [OF inv, of b] DeleteBucket by auto
  qed
next
  case (PutObject b k d ct)
  show ?thesis
  proof (cases "nul_free b \<and> nul_free k")
    case True
    then obtain w2 where "put_object R b k d ct e w = (Some (new_meta d ct w), e, w2)"
      "V w2 = put_kv b k d (new_meta d ct w) (V w)"
      using put_object_succeeds by blast
    with True PutObject run new_meta_ok [of b k d ct w] assms(2) show ?thesis
      by (auto simp: abs_put)
  next
    case False
    with PutObject run show ?thesis by (auto simp: put_object_def)
  qed
next
  case (DeleteObject b k)
  show ?thesis
  proof (cases "nul_free b \<and> nul_free k \<and> V w (bucket_key b) \<noteq> None")
    case True
    then have r using DeleteObject run delete_object_succeeds [of b k w e] by simp
    with True DeleteObject run delete_object_view(2) [of b k e w r e' w'] show ?thesis
      by (simp add: abs_delete) (simp add: abs_ostore_def)
  next
    case False
    then have "\<not> r" using DeleteObject run delete_object_view(2) [of b k e w r e' w'] by auto
    moreover have "V w' = V w"
      using False DeleteObject run delete_object_view(1) [of b k e w r e' w'] by auto
    ultimately show ?thesis
      using False DeleteObject by (auto simp: abs_ostore_def)
  qed
qed

end

section \<open>Examples\<close>

definition demo_world :: "mem_db \<Rightarrow> mem_db world" where
  "demo_world d = \<lparr>w_db = d, w_metrics = None, w_steady = (\<lambda>n. int n), w_system = (\<lambda>_. 1700000000), w_tick = 0\<rparr>"

definition demo_meta :: GwObjectMeta where
  "demo_meta = \<lparr>etag = [], mtime = 1700000000, osize = 4, content_type = ''text/plain''\<rparr>"

definition demo_db :: mem_db where
  "demo_db =
     [(bucket_key ''pc'', []), (data_key ''pc'' ''obj'', ''ABCD''),
      (meta_key ''pc'' ''obj'', encode_meta demo_meta)]"

lemma demo_meta_ok: "meta_ok demo_meta \<and> osize demo_meta = 4"
  by (simp add: demo_meta_def meta_ok_def in_i64_def)

lemma demo_db_inv: "store_inv (map_of demo_db)"
proof -
  have "map_of demo_db = (put_kv ''pc'' ''obj'' ''ABCD'' demo_meta Map.empty)(bucket_key ''pc'' := Some [])"
    by (simp add: demo_db_def put_kv_def fun_eq_iff)
  then show ?thesis
    using demo_meta_ok by (simp add: store_inv_bucket store_inv_put store_inv_empty)
qed

lemmas demo_world_simps = demo_world_def demo_db_def mem_rocksdb_def

section \<open>Properties\<close>

text \<open>
  C33: The database keys of buckets, object data and object metadata never clash: for names
  without NUL they are injective and pairwise disjoint, and the metadata keys that start with a
  bucket's prefix are those of its own objects.  Without the NUL check they would clash.
\<close>

theorem object_keys_disjoint:
  assumes "nul_free b" "nul_free b'"
  shows "(bucket_key b = bucket_key b' \<longleftrightarrow> b = b') \<and>
    (data_key b k = data_key b' k' \<longleftrightarrow> b = b' \<and> k = k') \<and>
    (meta_key b k = meta_key b' k' \<longleftrightarrow> b = b' \<and> k = k') \<and>
    data_key b k \<noteq> meta_key b' k' \<and> data_key b k \<noteq> bucket_key b' \<and> meta_key b k \<noteq> bucket_key b' \<and>
    (starts_with (meta_prefix b) (meta_key b' k') \<longleftrightarrow> b = b') \<and>
    (\<exists>c c' j j'. (c, j) \<noteq> (c', j') \<and> data_key c j = data_key c' j')"
proof -
  have "data_key [CHR ''a'', CHR 0x00] [] = data_key ''a'' [CHR 0x00]" by (simp add: data_key_def)
  then have "\<exists>c c' j j'. (c, j) \<noteq> (c', j') \<and> data_key c j = data_key c' j'" by blast
  with assms show ?thesis by (simp add: key_lemmas)
qed

theorem object_keys_disjoint_witness:
  "data_key ''a'' ''b/c'' \<noteq> meta_key ''a/b'' ''c'' \<and> data_key ''a'' ''b/c'' \<noteq> data_key ''a/b'' ''c''"
  using object_keys_disjoint [of "''a''" "''a/b''" "''b/c''" "''c''"] by simp

text \<open>
  C34: \<open>decode_meta\<close> reads back every metadata record \<open>encode_meta\<close> wrote whose numbers fit an
  \<open>int64_t\<close> and whose entity tag has no NUL; the content type may hold any bytes.
\<close>

theorem meta_roundtrip:
  assumes "in_i64 (osize m)" "in_i64 (mtime m)" "nul_free (etag m)"
  shows "decode_meta (encode_meta m) = Some m"
  using assms by (simp add: meta_ok_def)

theorem meta_roundtrip_witness:
  "decode_meta (encode_meta \<lparr>etag = ''ab'', mtime = - 5, osize = 123, content_type = [CHR 0x00]\<rparr>) =
     Some \<lparr>etag = ''ab'', mtime = - 5, osize = 123, content_type = [CHR 0x00]\<rparr>"
  by (rule meta_roundtrip) (simp_all add: in_i64_def)

text \<open>
  Whatever operations run in whatever order, and even when RocksDB calls fail, the database
  stays consistent: only well-formed keys, an object's data and metadata are present together,
  and the metadata decodes and records the length of the data.
\<close>

theorem store_invariant:
  assumes "rocksdb_laws R view" "store_inv (view (w_db w0))" "store_reach R w0 w"
  shows "store_inv (view (w_db w))"
  using rocksdb_laws.store_reach_inv [OF assms(1,3,2)] .

theorem store_invariant_witness:
  "store_inv (map_of (w_db (snd (snd (delete_object mem_rocksdb ''pc'' ''obj'' None (demo_world demo_db))))))"
proof (rule store_invariant [OF mem_rocksdb_laws, of "demo_world demo_db"])
  let ?x = "delete_object mem_rocksdb ''pc'' ''obj'' None (demo_world demo_db)"
  show "store_inv (map_of (w_db (demo_world demo_db)))" by (simp add: demo_world_def demo_db_inv)
  show "store_reach mem_rocksdb (demo_world demo_db) (snd (snd ?x))"
    by (rule reach_step [where op = "DeleteObject ''pc'' ''obj''" and e = None and r = "fst ?x"
          and e' = "fst (snd ?x)", OF reach_init]) simp_all
qed

text \<open>
  C7: On a database that does not fail, creating and deleting buckets and putting and deleting
  objects implement the abstract object store, result and new state: a bucket is deleted only
  when it exists and has no object, a deletion touches only its object, a put writes exactly the
  data and the metadata.
\<close>

theorem store_op_refines:
  assumes "rocksdb_healthy R view" "store_inv (view (w_db w))" "op_ok op w"
    "run_store_op R op e w = (r, e', w')"
  shows "(r, abs_ostore (view (w_db w'))) = abs_store_op op (op_meta op w) (abs_ostore (view (w_db w)))"
  using rocksdb_healthy.run_store_op_refines [OF assms] .

theorem store_op_refines_witness:
  "\<exists>e' w'. run_store_op mem_rocksdb (DeleteBucket ''pc'') (Some []) (demo_world demo_db) = (False, e', w') \<and>
     abs_ostore (map_of (w_db w')) = abs_ostore (map_of demo_db)"
proof -
  obtain r e' w' where x: "run_store_op mem_rocksdb (DeleteBucket ''pc'') (Some []) (demo_world demo_db) = (r, e', w')"
    by (rule prod_cases3)
  have "os_objects (abs_ostore (map_of demo_db)) (''pc'', ''obj'') \<noteq> None"
    using demo_meta_ok by (simp add: abs_ostore_def demo_db_def abs_object_def key_lemmas)
  then show ?thesis
    using store_op_refines [OF mem_rocksdb_healthy _ _ x] demo_db_inv x
    by (auto simp: demo_world_def split: if_splits)
qed

text \<open>
  C8: On a database that does not fail, the reads return what the abstract store holds, with the
  error \<open>NoSuchBucket\<close> or \<open>NoSuchKey\<close> otherwise, and leave the database as it is.
  \<open>get_object_data\<close> does not look at the bucket.
\<close>

theorem store_reads_refine:
  fixes w :: "'db world"
  assumes "rocksdb_healthy R view" "store_inv (view (w_db w))" "nul_free b" "nul_free k"
    and s: "s = abs_ostore (view (w_db w))"
    and err: "err = (if b \<notin> os_buckets s then Some ''NoSuchBucket''
                     else if os_objects s (b, k) = None then Some ''NoSuchKey'' else Some [])"
  shows "(\<exists>w1. bucket_exists R b (Some []) w = (b \<in> os_buckets s, Some [], w1) \<and> w_db w1 = w_db w) \<and>
    (\<exists>w1. head_object R b k (Some []) w =
       (if b \<in> os_buckets s then map_option snd (os_objects s (b, k)) else None, err, w1) \<and> w_db w1 = w_db w) \<and>
    (\<exists>w1. get_object R b k (Some []) w =
       (if b \<in> os_buckets s then os_objects s (b, k) else None, err, w1) \<and> w_db w1 = w_db w) \<and>
    (\<exists>w1. get_object_data R b k (Some []) w =
       (map_option fst (os_objects s (b, k)),
        if os_objects s (b, k) = None then Some ''NoSuchKey'' else Some [], w1) \<and> w_db w1 = w_db w)"
proof (intro conjI)
  note pair = store_inv_pair [OF assms(2-4)]
  let ?V = "view (w_db w)"
  have sb: "b \<in> os_buckets s \<longleftrightarrow> ?V (bucket_key b) \<noteq> None"
    using assms(3) by (simp add: s abs_ostore_def)
  have so: "os_objects s (b, k) = abs_object ?V b k"
    using assms(3,4) by (simp add: s abs_ostore_def)
  show "\<exists>w1. bucket_exists R b (Some []) w = (b \<in> os_buckets s, Some [], w1) \<and> w_db w1 = w_db w"
    by (rule rocksdb_healthy.bucket_exists_eq [OF assms(1,3), of "Some []" w]) (use sb in auto)
  have hs: "head_spec b k (Some []) ?V =
      (if b \<in> os_buckets s then map_option snd (os_objects s (b, k)) else None, err)"
    using pair by (cases rule: pair_ok_cases)
      (auto simp: head_spec_def sb so err abs_object_def set_err_def set_err_if_empty_def)
  obtain w1 where h: "head_object R b k (Some []) w =
      (if b \<in> os_buckets s then map_option snd (os_objects s (b, k)) else None, err, w1)" "w_db w1 = w_db w"
    by (rule rocksdb_healthy.head_object_eq [OF assms(1,3,4), of "Some []" w]) (simp add: hs)
  then show "\<exists>w1. head_object R b k (Some []) w =
      (if b \<in> os_buckets s then map_option snd (os_objects s (b, k)) else None, err, w1) \<and> w_db w1 = w_db w"
    by blast
  have os: "map_option fst (os_objects s (b, k)) = ?V (data_key b k)"
    using pair by (cases rule: pair_ok_cases) (simp_all add: so abs_object_def)
  obtain w3 where d: "get_object_data R b k (Some []) w =
      (?V (data_key b k), if ?V (data_key b k) = None then set_err ''NoSuchKey'' (Some []) else Some [], w3)"
    "w_db w3 = w_db w"
    by (rule rocksdb_healthy.get_object_data_eq [OF assms(1,3,4)])
  have "os_objects s (b, k) = None \<longleftrightarrow> ?V (data_key b k) = None" by (simp flip: os)
  with d os show "\<exists>w1. get_object_data R b k (Some []) w =
       (map_option fst (os_objects s (b, k)),
        if os_objects s (b, k) = None then Some ''NoSuchKey'' else Some [], w1) \<and> w_db w1 = w_db w"
    by (simp add: set_err_def)
  obtain st v w2 where g: "timed_Get R (data_key b k) w1 = (st, v, w2)"
    "db_Get R (w_db w) (data_key b k) = (st, v)" "w_db w2 = w_db w"
    by (rule timed_Get_cases [of R "data_key b k" w1]) (simp add: h)
  show "\<exists>w1. get_object R b k (Some []) w =
       (if b \<in> os_buckets s then os_objects s (b, k) else None, err, w1) \<and> w_db w1 = w_db w"
  proof (cases "b \<in> os_buckets s \<and> os_objects s (b, k) \<noteq> None")
    case True
    then obtain d m where dm: "os_objects s (b, k) = Some (d, m)" by auto
    with os have "st = Status_OK" "v = d"
      using rocksdb_healthy.Get_Some [OF assms(1), of "w_db w" "data_key b k" d] g(2) by auto
    with True dm h g show ?thesis by (auto simp: get_object_def)
  next
    case False
    with h show ?thesis by (cases "os_objects s (b, k)") (auto simp: get_object_def)
  qed
qed

theorem store_reads_refine_witness:
  "\<exists>w1. get_object mem_rocksdb ''pc'' ''obj'' (Some []) (demo_world demo_db) = (Some (''ABCD'', demo_meta), Some [], w1)"
proof -
  have "''pc'' \<in> os_buckets (abs_ostore (map_of demo_db))" by (simp add: abs_ostore_def demo_db_def)
  moreover have "os_objects (abs_ostore (map_of demo_db)) (''pc'', ''obj'') = Some (''ABCD'', demo_meta)"
    using demo_meta_ok by (simp add: abs_ostore_def demo_db_def abs_object_def key_lemmas)
  ultimately show ?thesis
    using store_reads_refine [OF mem_rocksdb_healthy, of "demo_world demo_db" "''pc''" "''obj''"]
      demo_db_inv by (auto simp: demo_world_def)
qed

end
