(* ===== verification/Base64.thy ===== *)
theory Base64
  imports Util
begin

text \<open>
  What \<open>base64_encode\<close> and \<open>base64_decode\<close> of \<open>util.cpp\<close> rely on in OpenSSL, as a locale: the
  encoder pads with one or two \<open>=\<close> signs, and the decoder turns the text back into the bytes,
  with one zero byte for each \<open>=\<close>.  The client lemma is the round trip of the two \<open>util.cpp\<close>
  functions, which take the zero bytes off again.  The locale is interpreted on an implementation
  of RFC 4648.
\<close>

definition b64_pad :: "bytes \<Rightarrow> nat" where
  "b64_pad x = (3 - length x mod 3) mod 3"

locale openssl_base64 =
  fixes ssl :: "'md openssl"
  assumes Decode_Encode: "EVP_DecodeBlock ssl (EVP_EncodeBlock ssl x) = Some (x @ replicate (b64_pad x) (CHR 0x00))"
    and Encode_text: "\<exists>t. EVP_EncodeBlock ssl x = t @ replicate (b64_pad x) (CHR ''='') \<and>
      CHR ''='' \<notin> set t \<and> CHR 0x00 \<notin> set t \<and> (x \<noteq> [] \<longrightarrow> t \<noteq> [])"
begin

lemma base64_encode_nonempty: "x \<noteq> [] \<Longrightarrow> base64_encode ssl x \<noteq> []"
  using Encode_text [of x] by (auto simp: base64_encode_def)

lemma base64_encode_nul_free: "CHR 0x00 \<notin> set (base64_encode ssl x)"
  using Encode_text [of x] by (auto simp: base64_encode_def)

lemma base64_roundtrip: "base64_decode ssl (base64_encode ssl x) = Some x"
proof -
  obtain t where t: "EVP_EncodeBlock ssl x = t @ replicate (b64_pad x) (CHR ''='')"
    "CHR ''='' \<notin> set t" "x \<noteq> [] \<longrightarrow> t \<noteq> []" using Encode_text by blast
  have eq: "t = [] \<Longrightarrow> b64_pad x = 0" using t(3) by (cases "x = []") (auto simp: b64_pad_def)
  have last_t: "t \<noteq> [] \<Longrightarrow> last t \<noteq> CHR ''=''" using t(2) last_in_set by metis
  have nth_t: "i < length t \<Longrightarrow> t ! i \<noteq> CHR ''=''" for i using t(2) nth_mem by metis
  have "b64_pad x < 3" by (simp add: b64_pad_def)
  then consider "b64_pad x = 0" | "b64_pad x = 1" | "b64_pad x = 2" by linarith
  then have "(if t @ replicate (b64_pad x) (CHR ''='') \<noteq> [] \<and> last (t @ replicate (b64_pad x) (CHR ''='')) = CHR ''='' then 1 else 0)
      + (if 2 \<le> length (t @ replicate (b64_pad x) (CHR ''='')) \<and>
            (t @ replicate (b64_pad x) (CHR ''='')) ! (length (t @ replicate (b64_pad x) (CHR ''='')) - 2) = CHR ''='' then 1 else (0 :: nat))
      = b64_pad x"
  proof cases
    case 1
    then show ?thesis using last_t nth_t [of "length t - 2"] by (cases "t = []") auto
  next
    case 2
    then have "t \<noteq> []" using eq by auto
    with 2 nth_t [of "length t - 1"] show ?thesis by (auto simp: nth_append)
  next
    case 3
    then show ?thesis by (simp add: nth_append numeral_2_eq_2)
  qed
  then show ?thesis
    using Decode_Encode [of x] by (simp add: base64_decode_def base64_encode_def t(1))
qed

end

section \<open>Base64 of RFC 4648\<close>

definition b64_alphabet :: string where
  "b64_alphabet = ''ABCDEFGHIJKLMNOPQRSTUVWXYZabcdefghijklmnopqrstuvwxyz0123456789+/''"

definition b64_char :: "nat \<Rightarrow> char" where
  "b64_char n = b64_alphabet ! n"

definition b64_value :: "char \<Rightarrow> nat option" where
  "b64_value c = (if c = CHR ''='' then Some 0 else find_char c b64_alphabet)"

definition b64_chars :: "nat \<Rightarrow> string" where
  "b64_chars n = [b64_char (n div 64 div 64 div 64 mod 64), b64_char (n div 64 div 64 mod 64),
                  b64_char (n div 64 mod 64), b64_char (n mod 64)]"

fun b64_encode :: "bytes \<Rightarrow> string" where
  "b64_encode [] = []"
| "b64_encode [a] = take 2 (b64_chars (of_char a * 65536)) @ ''==''"
| "b64_encode [a, b] = take 3 (b64_chars (of_char a * 65536 + of_char b * 256)) @ ''=''"
| "b64_encode (a # b # c # s) =
     b64_chars (of_char a * 65536 + of_char b * 256 + of_char c) @ b64_encode s"

fun b64_decode :: "string \<Rightarrow> bytes option" where
  "b64_decode [] = Some []"
| "b64_decode (p # q # r # s # rest) =
     (case (b64_value p, b64_value q, b64_value r, b64_value s, b64_decode rest) of
        (Some p, Some q, Some r, Some s, Some out) \<Rightarrow>
          let n = ((p * 64 + q) * 64 + r) * 64 + s
          in Some (char_of (n div 65536 mod 256) # char_of (n div 256 mod 256) # char_of (n mod 256) # out)
      | _ \<Rightarrow> None)"
| "b64_decode _ = None"

lemma b64_table: "\<forall>i \<in> set [0..<64]. b64_value (b64_char i) = Some i \<and>
    b64_char i \<noteq> CHR ''='' \<and> b64_char i \<noteq> CHR 0x00"
  by code_simp

lemma b64_char_props [simp]:
  assumes "i < 64"
  shows "b64_value (b64_char i) = Some i" and "b64_char i \<noteq> CHR ''=''" and "b64_char i \<noteq> CHR 0x00"
  using b64_table assms by auto

lemma b64_value_pad [simp]: "b64_value (CHR ''='') = Some 0"
  by (simp add: b64_value_def)

lemma b64_digits:
  assumes "n < 16777216"
  shows "((n div 64 div 64 div 64 mod 64 * 64 + n div 64 div 64 mod 64) * 64 + n div 64 mod 64) * 64 + n mod 64 = (n :: nat)"
proof -
  have "n div 64 div 64 div 64 < 64" using assms by (simp add: less_mult_imp_div_less)
  then show ?thesis by (simp add: div_mult_mod_eq)
qed

lemma b64_decode_chars:
  "n < 16777216 \<Longrightarrow> b64_decode (b64_chars n @ rest) =
     map_option (\<lambda>out. char_of (n div 65536 mod 256) # char_of (n div 256 mod 256) # char_of (n mod 256) # out)
       (b64_decode rest)"
  using b64_digits [of n] by (cases "b64_decode rest") (simp_all add: b64_chars_def Let_def)

lemma b64_pad_step: "b64_pad (a # b # c # s) = b64_pad s"
  by (simp add: b64_pad_def)

lemma byte_digits:
  assumes "x < 256" "y < 256" "z < (256 :: nat)"
  shows "(x * 65536 + y * 256 + z) div 65536 mod 256 = x" and "(x * 65536 + y * 256 + z) div 256 mod 256 = y"
    and "(x * 65536 + y * 256 + z) mod 256 = z"
proof -
  have n: "x * 65536 + y * 256 + z = z + (y + x * 256) * 256" by simp
  have d: "(z + (y + x * 256) * 256) div 256 = y + x * 256"
    using assms(3) by (subst div_mult_self1) simp_all
  show "(x * 65536 + y * 256 + z) mod 256 = z" unfolding n using assms(3) by (subst mod_mult_self1) simp
  show "(x * 65536 + y * 256 + z) div 256 mod 256 = y" unfolding n d using assms(2) by (subst mod_mult_self1) simp
  have "(x * 65536 + y * 256 + z) div 65536 = (x * 65536 + y * 256 + z) div 256 div 256"
    by (simp add: div_mult2_eq [symmetric])
  also have "\<dots> = x" unfolding n d using assms(2) by (subst div_mult_self1) simp_all
  finally show "(x * 65536 + y * 256 + z) div 65536 mod 256 = x" using assms(1) by simp
qed

lemma take_3_b64_chars:
  "take 3 (b64_chars n) = [b64_char (n div 64 div 64 div 64 mod 64), b64_char (n div 64 div 64 mod 64),
     b64_char (n div 64 mod 64)]"
  by (simp add: b64_chars_def numeral_3_eq_3)

lemma b64_decode_encode: "b64_decode (b64_encode x) = Some (x @ replicate (b64_pad x) (CHR 0x00))"
proof (induction x rule: b64_encode.induct)
  case (2 a)
  define n where "n = (of_char a * 65536 :: nat)"
  have a: "of_char a < (256 :: nat)" by simp
  have n: "n < 16777216" "n div 65536 mod 256 = of_char a" "n div 256 mod 256 = 0" "n mod 256 = 0"
    using a by (simp_all add: n_def)
  have z: "n div 64 mod 64 = 0" "n mod 64 = 0" by (simp_all add: n_def)
  have c: "char_of (n div 65536) = a" "char_of (n div 256) = CHR 0x00" "char_of n = CHR 0x00"
    unfolding char_of_mod_256 [of "n div 65536", symmetric] char_of_mod_256 [of "n div 256", symmetric]
      char_of_mod_256 [of n, symmetric] n
    by (simp, simp_all add: char_of_def)
  show ?case
    using b64_digits [OF n(1)] n z
    by (simp add: b64_chars_def b64_pad_def numeral_2_eq_2 Let_def c flip: n_def)
next
  case (3 a b)
  define n where "n = (of_char a * 65536 + of_char b * 256 :: nat)"
  have ab: "of_char a < (256 :: nat)" "of_char b < (256 :: nat)" by simp_all
  have n: "n < 16777216" "n div 65536 mod 256 = of_char a" "n div 256 mod 256 = of_char b" "n mod 256 = 0"
    using ab unfolding n_def by (linarith, simp_all)
  have z: "n mod 64 = 0" unfolding n_def by presburger
  have e: "b64_encode [a, b] = take 3 (b64_chars n) @ ''=''" by (simp add: n_def)
  have "b64_decode (b64_encode [a, b]) =
      Some [char_of (n div 65536 mod 256), char_of (n div 256 mod 256), char_of (n mod 256)]"
    using b64_digits [OF n(1)] z unfolding e take_3_b64_chars by (simp add: Let_def)
  also have "\<dots> = Some ([a, b] @ replicate (b64_pad [a, b]) (CHR 0x00))"
    unfolding n by (simp add: b64_pad_def, simp add: char_of_def)
  finally show ?case .
next
  case (4 a b c s)
  let ?n = "of_char a * 65536 + of_char b * 256 + of_char c :: nat"
  have "?n < 16777216" using of_char_less_256 [of a] of_char_less_256 [of b] of_char_less_256 [of c] by linarith
  moreover have "?n div 65536 mod 256 = of_char a" "?n div 256 mod 256 = of_char b" "?n mod 256 = of_char c"
    by (rule byte_digits; simp)+
  ultimately show ?case using 4 by (simp add: b64_decode_chars b64_pad_step)
qed (simp add: b64_pad_def)

lemma b64_chars_safe [simp]: "CHR ''='' \<notin> set (b64_chars n)" "CHR 0x00 \<notin> set (b64_chars n)"
proof -
  have "m mod 64 < 64" for m :: nat by simp
  then have "\<exists>i < 64. c = b64_char i" if "c \<in> set (b64_chars n)" for c
    using that unfolding b64_chars_def by (auto simp del: mod_less_divisor)
  then show "CHR ''='' \<notin> set (b64_chars n)" "CHR 0x00 \<notin> set (b64_chars n)"
    using b64_char_props(2,3) by metis+
qed

lemma take_b64_safe:
  "CHR ''='' \<notin> set (take k (b64_chars n))" "CHR 0x00 \<notin> set (take k (b64_chars n))"
  "0 < k \<Longrightarrow> take k (b64_chars n) \<noteq> []"
  using b64_chars_safe [of n] set_take_subset [of k "b64_chars n"]
  by (blast, blast, simp add: b64_chars_def)

lemma b64_chars_nonempty: "b64_chars n \<noteq> []"
  by (simp add: b64_chars_def)

lemma b64_pad_short: "b64_pad [a] = 2" "b64_pad [a, b] = 1"
  by (simp_all add: b64_pad_def)

lemma replicate_two: "replicate 2 x = [x, x]"
  by (simp add: numeral_2_eq_2)

lemma b64_encode_text:
  "\<exists>t. b64_encode x = t @ replicate (b64_pad x) (CHR ''='') \<and>
      CHR ''='' \<notin> set t \<and> CHR 0x00 \<notin> set t \<and> (x \<noteq> [] \<longrightarrow> t \<noteq> [])"
proof (induction x rule: b64_encode.induct)
  case (2 a)
  show ?case
    unfolding b64_pad_short replicate_two b64_encode.simps
    by (intro exI conjI impI, simp) (simp_all add: take_b64_safe b64_chars_nonempty)
next
  case (3 a b)
  show ?case
    unfolding b64_pad_short b64_encode.simps
    by (intro exI conjI impI, simp) (simp_all add: take_b64_safe b64_chars_nonempty)
next
  case (4 a b c s)
  then obtain t where t: "b64_encode s = t @ replicate (b64_pad s) (CHR ''='')"
    "CHR ''='' \<notin> set t" "CHR 0x00 \<notin> set t" by blast
  show ?case
    by (rule exI [of _ "b64_chars (of_char a * 65536 + of_char b * 256 + of_char c) @ t"])
      (use t in \<open>auto simp: b64_pad_step\<close>, simp add: b64_chars_def)
qed (simp add: b64_pad_def)

text \<open>
  An OpenSSL for the examples: base64 as above, and injective functions of key and text in the
  place of the digests.
\<close>

definition demo_ssl :: "unit openssl" where
  "demo_ssl =
     \<lparr>EVP_sha256 = Some (), EVP_md5 = Some (), EVP_MD_CTX_new = True,
      EVP_DigestInit_ex = (\<lambda>_. True), EVP_DigestUpdate = (\<lambda>_ _. True), EVP_MD_size = (\<lambda>_. 32),
      EVP_DigestFinal_ex = (\<lambda>_ d. Some d),
      HMAC = (\<lambda>_ k d. Some (to_string (int (length k)) @ ''.'' @ k @ d)),
      EVP_EncodeBlock = b64_encode, EVP_DecodeBlock = b64_decode\<rparr>"

interpretation rfc4648: openssl_base64 demo_ssl
  by unfold_locales (simp_all add: demo_ssl_def b64_decode_encode b64_encode_text)

lemma demo_ssl_base64: "openssl_base64 demo_ssl"
  by unfold_locales

end
