(* ===== verification/Listing.thy ===== *)
theory Listing
  imports ObjectStore Base64
begin

text \<open>
  The listings of \<open>storage.cpp\<close>.  The loop of \<open>list_objects_v2\<close> is related to the sorted list of
  the bucket's objects with the prefix: a page is a segment of that list, the continuation token
  of a page leads to the segment after it, and a client that follows the tokens sees every object
  once, in order.
\<close>

text \<open>The entries of a database that stand for the objects of a bucket with a key prefix.\<close>

definition matching :: "string \<Rightarrow> (string \<times> bytes) list \<Rightarrow> (string \<times> bytes) list" where
  "matching p es = takeWhile (\<lambda>e. starts_with p (fst e)) es"

definition listed :: "string \<Rightarrow> string \<times> bytes \<Rightarrow> ListedObject" where
  "listed mp e = \<lparr>lo_key = drop (length mp) (fst e), lo_meta = the (decode_meta (snd e))\<rparr>"

definition all_decode :: "(string \<times> bytes) list \<Rightarrow> bool" where
  "all_decode es \<longleftrightarrow> (\<forall>e \<in> set es. decode_meta (snd e) \<noteq> None)"

text \<open>The client's loop: ask for pages until one is not truncated.\<close>

fun list_pages ::
  "nat \<Rightarrow> 'md openssl \<Rightarrow> 'db rocksdb \<Rightarrow> string \<Rightarrow> string \<Rightarrow> int \<Rightarrow> string \<Rightarrow> 'db world \<Rightarrow> ListedObject list option" where
  "list_pages 0 ssl R b pfx n token w = None"
| "list_pages (Suc fuel) ssl R b pfx n token w =
     (case list_objects_v2 ssl R b pfx n token (Some []) w of
        (lr, err, w') \<Rightarrow>
          if err \<noteq> Some [] then None
          else if is_truncated lr
          then map_option (\<lambda>os. lr_objects lr @ os)
                 (list_pages fuel ssl R b pfx n (next_continuation_token lr) w')
          else Some (lr_objects lr))"

section \<open>The loop\<close>

lemma starts_with_split:
  "starts_with (mp @ pfx) ks \<longleftrightarrow> starts_with mp ks \<and> (pfx = [] \<or> starts_with pfx (drop (length mp) ks))"
  by (auto simp: starts_with_iff)

lemma list_loop_eq:
  assumes "all_decode (matching (mp @ pfx) es)" "cnt < max_keys"
  shows "fst (list_loop ssl R d mp pfx max_keys cnt res es) =
    (let L = matching (mp @ pfx) es; n = nat (max_keys - cnt);
         res' = res\<lparr>lr_objects := lr_objects res @ map (listed mp) (take n L)\<rparr>
     in if length L < n then res' else look_ahead ssl R d mp pfx (fst (L ! (n - 1))) res')"
  using assms
proof (induction es arbitrary: cnt res)
  case Nil
  then show ?case by (simp add: matching_def)
next
  case (Cons e es)
  obtain ks vs where e: "e = (ks, vs)" by (cases e)
  show ?case
  proof (cases "starts_with (mp @ pfx) ks")
    case False
    then have "matching (mp @ pfx) (e # es) = []" by (simp add: matching_def e)
    moreover have "fst (list_loop ssl R d mp pfx max_keys cnt res (e # es)) = res"
      using False by (auto simp: e starts_with_split)
    ultimately show ?thesis using Cons.prems(2) by simp
  next
    case True
    then have m: "matching (mp @ pfx) (e # es) = (ks, vs) # matching (mp @ pfx) es"
      by (simp add: matching_def e)
    with Cons.prems(1) obtain meta where meta: "decode_meta vs = Some meta"
      and ad: "all_decode (matching (mp @ pfx) es)" by (auto simp: all_decode_def)
    have l: "listed mp (ks, vs) = \<lparr>lo_key = drop (length mp) ks, lo_meta = meta\<rparr>"
      by (simp add: listed_def meta)
    show ?thesis
    proof (cases "max_keys \<le> cnt + 1")
      case True
      with Cons.prems(2) have "nat (max_keys - cnt) = 1" by simp
      with True \<open>starts_with (mp @ pfx) ks\<close> show ?thesis
        by (auto simp: e m [unfolded e] meta l starts_with_split Let_def)
    next
      case False
      then have n: "nat (max_keys - cnt) = Suc (nat (max_keys - (cnt + 1)))"
        "0 < nat (max_keys - (cnt + 1))" by simp_all
      have "fst (list_loop ssl R d mp pfx max_keys cnt res (e # es)) =
          fst (list_loop ssl R d mp pfx max_keys (cnt + 1)
            (res\<lparr>lr_objects := lr_objects res @ [listed mp (ks, vs)]\<rparr>) es)"
        using False \<open>starts_with (mp @ pfx) ks\<close> by (auto simp: e meta l starts_with_split Let_def)
      then show ?thesis
        using Cons.IH [OF ad, of "cnt + 1"] False n by (simp add: m Let_def nth_Cons')
    qed
  qed
qed

section \<open>Seeking into the sorted entries\<close>

lemma takeWhile_drop:
  "n \<le> length (takeWhile P xs) \<Longrightarrow> takeWhile P (drop n xs) = drop n (takeWhile P xs)"
proof (induction xs arbitrary: n)
  case (Cons x xs)
  then show ?case by (cases n) auto
qed simp

lemma takeWhile_eq_filter:
  "sorted_wrt (\<lambda>a b. P b \<longrightarrow> P a) xs \<Longrightarrow> takeWhile P xs = filter P xs"
proof (induction xs)
  case (Cons x xs)
  then show ?case by (auto simp: filter_empty_conv)
qed simp

definition objects_at :: "'db rocksdb \<Rightarrow> 'db \<Rightarrow> string \<Rightarrow> string \<Rightarrow> (string \<times> bytes) list" where
  "objects_at R d b pfx =
     matching (meta_prefix b @ pfx) (it_entries (db_Seek R d (meta_prefix b @ pfx)))"

lemma look_ahead_alt:
  "look_ahead ssl R d mp pfx key res =
     (let it = db_Seek R d key; it = (if Valid it then Next it else it)
      in if Valid it \<and> starts_with (mp @ pfx) (it_key it)
         then res\<lparr>is_truncated := True, next_continuation_token := base64_encode ssl key\<rparr>
         else res)"
  unfolding look_ahead_def starts_with_split Let_def by (rule refl)

text \<open>A page of the objects: \<open>n\<close> of them from position \<open>off\<close>.\<close>

definition page :: "'md openssl \<Rightarrow> string \<Rightarrow> nat \<Rightarrow> nat \<Rightarrow> (string \<times> bytes) list \<Rightarrow> ListResult" where
  "page ssl mp off n F =
     \<lparr>lr_objects = map (listed mp) (take n (drop off F)), is_truncated = (off + n < length F),
      next_continuation_token = (if off + n < length F then base64_encode ssl (fst (F ! (off + n - 1))) else [])\<rparr>"

text \<open>The token that leads to position \<open>off\<close>: the key before it.\<close>

definition token_at :: "'md openssl \<Rightarrow> nat \<Rightarrow> (string \<times> bytes) list \<Rightarrow> string" where
  "token_at ssl off F = (if off = 0 then [] else base64_encode ssl (fst (F ! (off - 1))))"

context rocksdb_healthy
begin

abbreviation entries :: "'db \<Rightarrow> string \<Rightarrow> (string \<times> bytes) list" where
  "entries d s \<equiv> it_entries (db_Seek R d s)"

lemma sorted_entries: "sorted_wrt (<) (map fst (entries d s))"
  by (rule iter_entries_okD(1) [OF Seek_entries])

lemma set_entries: "(k, v) \<in> set (entries d s) \<longleftrightarrow> view d k = Some v \<and> s \<le> k"
  using iter_entries_okD(2) [OF Seek_entries [of d s], of k v] Seek_complete [of d s]
  unfolding iter_complete_def by blast

text \<open>Seeking to a key that the iterator shows gives the rest of the iterator.\<close>

lemma seek_at:
  assumes "i < length (entries d s)"
  shows "entries d (fst (entries d s ! i)) = drop i (entries d s)"
proof (rule sorted_fst_unique [OF sorted_entries])
  let ?es = "entries d s"
  show so: "sorted_wrt (<) (map fst (drop i ?es))"
    using sorted_entries [of d s] by (simp add: drop_map [symmetric] sorted_wrt_drop)
  have "(k, v) \<in> set (drop i ?es) \<longleftrightarrow> (k, v) \<in> set ?es \<and> fst (?es ! i) \<le> k" for k v
  proof
    assume "(k, v) \<in> set (drop i ?es)"
    then obtain j where j: "j < length ?es - i" "(k, v) = ?es ! (i + j)"
      by (auto simp: in_set_conv_nth add.commute)
    then have "fst (?es ! i) \<le> fst (?es ! (i + j))"
      using sorted_wrt_nth_less [OF sorted_entries, of i "i + j" d s] assms
      by (cases "j = 0") (auto simp: less_imp_le)
    with j show "(k, v) \<in> set ?es \<and> fst (?es ! i) \<le> k"
      by (metis fst_conv less_diff_conv add.commute nth_mem)
  next
    assume a: "(k, v) \<in> set ?es \<and> fst (?es ! i) \<le> k"
    then obtain j where j: "j < length ?es" "(k, v) = ?es ! j" by (metis in_set_conv_nth)
    have "i \<le> j"
      using sorted_wrt_nth_less [OF sorted_entries, of j i d s] a j assms
      by (metis fst_conv leD length_map not_le nth_map)
    with j assms show "(k, v) \<in> set (drop i ?es)"
      by (metis add_diff_inverse_nat diff_less_mono in_set_conv_nth length_drop not_less nth_drop less_imp_le)
  qed
  moreover have "s \<le> fst (?es ! i)"
    using set_entries [of "fst (?es ! i)" "snd (?es ! i)" d s] assms by simp
  ultimately show "set (entries d (fst (?es ! i))) = set (drop i ?es)"
    by (auto simp: set_entries intro: order_trans)
qed

lemma matching_eq_filter: "matching p (entries d p) = filter (\<lambda>e. starts_with p (fst e)) (entries d p)"
  unfolding matching_def
proof (rule takeWhile_eq_filter, rule sorted_wrt_mono_rel [of _ "\<lambda>a b. fst a < fst b"])
  fix x y assume xy: "x \<in> set (entries d p)" "fst x < fst y"
  then have "p \<le> fst x" using set_entries [of "fst x" "snd x" d p] by simp
  with xy show "starts_with p (fst y) \<longrightarrow> starts_with p (fst x)"
    unfolding starts_with_iff [of p "fst y"] by (metis between_prefix less_imp_le)
qed (use sorted_entries [of d p] in \<open>simp add: sorted_wrt_map\<close>)

lemma set_objects_at:
  "(k, v) \<in> set (objects_at R d b pfx) \<longleftrightarrow> (\<exists>key. k = meta_key b (pfx @ key) \<and> view d k = Some v)"
  using le_append [of "meta_prefix b @ pfx"]
  by (auto simp: objects_at_def matching_eq_filter set_entries starts_with_iff meta_key_def)

lemma sorted_objects_at: "sorted_wrt (<) (map fst (objects_at R d b pfx))"
  using sorted_entries [of d "meta_prefix b @ pfx"]
  by (simp add: objects_at_def matching_eq_filter sorted_wrt_map sorted_wrt_filter)

lemma all_decode_objects_at:
  assumes "store_inv (view d)" "nul_free b"
  shows "all_decode (objects_at R d b pfx)"
  unfolding all_decode_def
proof
  fix e assume "e \<in> set (objects_at R d b pfx)"
  then obtain key where k: "view d (meta_key b (pfx @ key)) = Some (snd e)"
    using set_objects_at [of "fst e" "snd e" d b pfx] by auto
  then have "nul_free (pfx @ key)" using store_inv_meta_nul_free [OF assms] by blast
  from store_inv_pair [OF assms this] k show "decode_meta (snd e) \<noteq> None"
    by (cases rule: pair_ok_cases) (auto dest!: decode_encode_meta)
qed

lemma look_ahead_at:
  assumes "i < length (objects_at R d b pfx)"
  shows "look_ahead ssl R d (meta_prefix b) pfx (fst (objects_at R d b pfx ! i)) res =
    (if Suc i < length (objects_at R d b pfx)
     then res\<lparr>is_truncated := True, next_continuation_token := base64_encode ssl (fst (objects_at R d b pfx ! i))\<rparr>
     else res)"
proof -
  let ?p = "meta_prefix b @ pfx" and ?P = "\<lambda>e. starts_with (meta_prefix b @ pfx) (fst e)"
  let ?es = "entries d ?p"
  have F: "objects_at R d b pfx = takeWhile ?P ?es" by (simp add: objects_at_def matching_def)
  have len: "length (takeWhile ?P ?es) \<le> length ?es" by (rule length_takeWhile_le)
  with assms have i: "i < length ?es" "takeWhile ?P ?es ! i = ?es ! i"
    by (simp_all add: F takeWhile_nth)
  have nx: "it_entries (Next (db_Seek R d (fst (?es ! i)))) = drop (Suc i) ?es"
    using seek_at [OF i(1)] by (simp add: Next_def drop_Suc tl_drop)
  have v: "Valid (db_Seek R d (fst (?es ! i)))" using seek_at [OF i(1)] i(1) by (simp add: Valid_def)
  have "Suc i < length (takeWhile ?P ?es) \<longleftrightarrow> Suc i < length ?es \<and> ?P (?es ! Suc i)"
  proof
    assume "Suc i < length (takeWhile ?P ?es)"
    then show "Suc i < length ?es \<and> ?P (?es ! Suc i)"
      using len takeWhile_nth [of "Suc i" ?P ?es] nth_mem [of "Suc i" "takeWhile ?P ?es"] set_takeWhileD by fastforce
  next
    assume a: "Suc i < length ?es \<and> ?P (?es ! Suc i)"
    then have "Suc i \<noteq> length (takeWhile ?P ?es)"
      using nth_length_takeWhile [of ?P ?es] by auto
    with assms show "Suc i < length (takeWhile ?P ?es)" by (simp add: F)
  qed
  moreover have "Valid (Next (db_Seek R d (fst (?es ! i)))) \<longleftrightarrow> Suc i < length ?es"
    by (auto simp: Valid_def nx)
  moreover have "Suc i < length ?es \<Longrightarrow> it_key (Next (db_Seek R d (fst (?es ! i)))) = fst (?es ! Suc i)"
    by (simp add: it_key_def nx hd_drop_conv_nth)
  ultimately show ?thesis
    unfolding look_ahead_alt F i(2) Let_def by (auto simp: v)
qed

lemma list_loop_page:
  assumes "store_inv (view d)" "nul_free b" "off \<le> length (objects_at R d b pfx)" "0 < n"
  shows "fst (list_loop ssl R d (meta_prefix b) pfx (int n) 0 empty_ListResult
      (drop off (entries d (meta_prefix b @ pfx)))) = page ssl (meta_prefix b) off n (objects_at R d b pfx)"
proof -
  let ?mp = "meta_prefix b" and ?F = "objects_at R d b pfx"
  have m: "matching (?mp @ pfx) (drop off (entries d (?mp @ pfx))) = drop off ?F"
    using assms(3) unfolding objects_at_def matching_def by (rule takeWhile_drop)
  have ad: "all_decode (drop off ?F)"
    using all_decode_objects_at [OF assms(1,2)] in_set_dropD by (fastforce simp: all_decode_def)
  show ?thesis
  proof (cases "length (drop off ?F) < n")
    case True
    with assms(4) show ?thesis
      by (simp add: list_loop_eq m ad page_def empty_ListResult_def)
  next
    case False
    with assms(4) have "off + n - 1 < length ?F" by auto
    moreover have "drop off ?F ! (n - 1) = ?F ! (off + n - 1)" using False assms(3,4) by (simp add: nth_drop)
    ultimately show ?thesis
      using False assms(4) by (auto simp: list_loop_eq m ad page_def empty_ListResult_def look_ahead_at)
  qed
qed

text \<open>The iterator the loop starts from, for the token of position \<open>off\<close>.\<close>

lemma seek_token:
  assumes "openssl_base64 ssl" "off \<le> length (objects_at R d b pfx)"
  obtains sk where
    "(if token_at ssl off (objects_at R d b pfx) \<noteq> [] then base64_decode ssl (token_at ssl off (objects_at R d b pfx))
      else Some (meta_prefix b @ pfx)) = Some sk"
    "it_entries (if token_at ssl off (objects_at R d b pfx) \<noteq> [] \<and> Valid (db_Seek R d sk) \<and> it_key (db_Seek R d sk) = sk
       then Next (db_Seek R d sk) else db_Seek R d sk) = drop off (entries d (meta_prefix b @ pfx))"
    "nul_free (token_at ssl off (objects_at R d b pfx))"
proof (cases off)
  case 0
  with that [of "meta_prefix b @ pfx"] show thesis by (simp add: token_at_def)
next
  case (Suc i)
  let ?P = "\<lambda>e. starts_with (meta_prefix b @ pfx) (fst e)" and ?es = "entries d (meta_prefix b @ pfx)"
  let ?F = "objects_at R d b pfx"
  have F: "?F = takeWhile ?P ?es" by (simp add: objects_at_def matching_def)
  have i: "i < length ?es" "?F ! i = ?es ! i"
    using assms(2) Suc length_takeWhile_le [of ?P ?es] by (simp_all add: F takeWhile_nth)
  let ?k = "fst (?F ! i)"
  have tok: "token_at ssl off ?F = base64_encode ssl ?k" using Suc by (simp add: token_at_def)
  have "?k \<noteq> []"
  proof -
    have "?F ! i \<in> set ?F" using assms(2) Suc by simp
    then obtain key where "?k = meta_key b (pfx @ key)"
      using set_objects_at [of "?k" "snd (?F ! i)" d b pfx] by auto
    then show ?thesis by (simp add: meta_key_def meta_prefix_def)
  qed
  then have ne: "token_at ssl off ?F \<noteq> []"
    unfolding tok by (rule openssl_base64.base64_encode_nonempty [OF assms(1)])
  have dec: "base64_decode ssl (token_at ssl off ?F) = Some ?k"
    unfolding tok by (rule openssl_base64.base64_roundtrip [OF assms(1)])
  have se: "entries d ?k = drop i ?es" using seek_at [OF i(1)] i(2) by simp
  then have v: "Valid (db_Seek R d ?k) \<and> it_key (db_Seek R d ?k) = ?k"
    using i by (auto simp: Valid_def it_key_def hd_drop_conv_nth)
  show thesis
    using that [of ?k] ne dec v se openssl_base64.base64_encode_nul_free [OF assms(1)] tok Suc
    by (simp add: Next_def drop_Suc tl_drop)
qed

lemma list_objects_v2_page:
  assumes "openssl_base64 ssl" "store_inv (V w)" "nul_free b" "nul_free pfx" "V w (bucket_key b) \<noteq> None"
    "off \<le> length (objects_at R (w_db w) b pfx)"
  obtains w' where
    "list_objects_v2 ssl R b pfx mk (token_at ssl off (objects_at R (w_db w) b pfx)) e w =
       (page ssl (meta_prefix b) off (nat (clamp_max_keys mk)) (objects_at R (w_db w) b pfx), e, w')"
    "w_db w' = w_db w"
proof -
  let ?F = "objects_at R (w_db w) b pfx" and ?mp = "meta_prefix b"
  let ?tok = "token_at ssl off ?F"
  obtain w1 where x: "bucket_exists R b e w = (V w (bucket_key b) \<noteq> None, e, w1)" "w_db w1 = w_db w"
    using assms(3) by (rule bucket_exists_eq)
  obtain sk where sk: "(if ?tok \<noteq> [] then base64_decode ssl ?tok else Some (?mp @ pfx)) = Some sk"
    "it_entries (if ?tok \<noteq> [] \<and> Valid (db_Seek R (w_db w) sk) \<and> it_key (db_Seek R (w_db w) sk) = sk
       then Next (db_Seek R (w_db w) sk) else db_Seek R (w_db w) sk) = drop off (entries (w_db w) (?mp @ pfx))"
    "nul_free ?tok"
    by (rule seek_token [OF assms(1,6)])
  have n: "0 < clamp_max_keys mk" by (simp add: clamp_max_keys_def Let_def)
  then have lp: "fst (list_loop ssl R (w_db w) ?mp pfx (clamp_max_keys mk) 0 empty_ListResult
      (drop off (entries (w_db w) (?mp @ pfx)))) = page ssl ?mp off (nat (clamp_max_keys mk)) ?F"
    using list_loop_page [OF assms(2,3,6), of "nat (clamp_max_keys mk)" ssl] by simp
  obtain res left where ll: "list_loop ssl R (w_db w) ?mp pfx (clamp_max_keys mk) 0 empty_ListResult
      (drop off (entries (w_db w) (?mp @ pfx))) = (res, left)" by fastforce
  let ?it = "db_Seek R (w_db w) sk"
  have st: "ok (it_status (?it\<lparr>it_entries := l\<rparr>))" "ok (it_status ((Next ?it)\<lparr>it_entries := l\<rparr>))" for l
    using Seek_total [of "w_db w" sk] by (simp_all add: it_status_def Valid_def Next_def)
  have "\<exists>w'. list_objects_v2 ssl R b pfx mk ?tok e w = (page ssl ?mp off (nat (clamp_max_keys mk)) ?F, e, w') \<and> w_db w' = w_db w"
  proof (cases "?tok \<noteq> [] \<and> Valid ?it \<and> it_key ?it = sk")
    case True
    then have "it_entries (Next ?it) = drop off (entries (w_db w) (?mp @ pfx))" using sk(2) by simp
    with True assms(3-5) x sk(1,3) lp ll st show ?thesis
      by (simp add: list_objects_v2_def Let_def Clock_now_def)
  next
    case False
    then have "entries (w_db w) sk = drop off (entries (w_db w) (?mp @ pfx))" using sk(2) by presburger
    with False assms(3-5) x sk(1,3) lp ll st show ?thesis
      by (auto simp: list_objects_v2_def Let_def Clock_now_def)
  qed
  then show thesis using that by blast
qed

lemma list_pages_eq:
  assumes "openssl_base64 ssl" "nul_free b" "nul_free pfx"
  shows "store_inv (V w) \<Longrightarrow> V w (bucket_key b) \<noteq> None \<Longrightarrow>
    off \<le> length (objects_at R (w_db w) b pfx) \<Longrightarrow> length (objects_at R (w_db w) b pfx) - off < fuel \<Longrightarrow>
    list_pages fuel ssl R b pfx mk (token_at ssl off (objects_at R (w_db w) b pfx)) w =
      Some (map (listed (meta_prefix b)) (drop off (objects_at R (w_db w) b pfx)))"
proof (induction fuel arbitrary: off w)
  case (Suc fuel)
  let ?F = "objects_at R (w_db w) b pfx" and ?n = "nat (clamp_max_keys mk)"
  obtain w' where p: "list_objects_v2 ssl R b pfx mk (token_at ssl off ?F) (Some []) w =
      (page ssl (meta_prefix b) off ?n ?F, Some [], w')" "w_db w' = w_db w"
    by (rule list_objects_v2_page [OF assms(1) Suc.prems(1) assms(2,3) Suc.prems(2,3)])
  have n: "0 < ?n" by (simp add: clamp_max_keys_def Let_def)
  show ?case
  proof (cases "off + ?n < length ?F")
    case True
    then have "next_continuation_token (page ssl (meta_prefix b) off ?n ?F) = token_at ssl (off + ?n) ?F"
      using n by (simp add: page_def token_at_def)
    moreover have "list_pages fuel ssl R b pfx mk (token_at ssl (off + ?n) ?F) w' =
        Some (map (listed (meta_prefix b)) (drop (off + ?n) ?F))"
      using Suc.IH [of w' "off + ?n"] Suc.prems p(2) True n by simp
    moreover have "take ?n (drop off ?F) @ drop (off + ?n) ?F = drop off ?F"
      by (metis add.commute append_take_drop_id drop_drop)
    ultimately show ?thesis
      using True p(1) by (simp add: page_def map_append [symmetric] del: map_append)
  next
    case False
    with p(1) show ?thesis by (simp add: page_def)
  qed
qed simp

end

section \<open>Bounds that hold for every database and every token\<close>

lemma look_ahead_objects [simp]: "lr_objects (look_ahead ssl R d mp pfx k res) = lr_objects res"
  by (simp add: look_ahead_def Let_def)

lemma list_loop_bounds:
  assumes "cnt < max_keys"
  shows "length (lr_objects (fst (list_loop ssl R d mp pfx max_keys cnt res es))) \<le>
      length (lr_objects res) + nat (max_keys - cnt) \<and>
    (\<forall>x \<in> set (lr_objects (fst (list_loop ssl R d mp pfx max_keys cnt res es))).
      x \<in> set (lr_objects res) \<or> starts_with pfx (lo_key x))"
  using assms
proof (induction es arbitrary: cnt res)
  case (Cons e es)
  obtain ks vs where e: "e = (ks, vs)" by (cases e)
  show ?case
  proof (cases "starts_with (mp @ pfx) ks \<and> decode_meta vs \<noteq> None \<and> cnt + 1 < max_keys")
    case True
    then obtain meta where m: "decode_meta vs = Some meta" by auto
    let ?r = "res\<lparr>lr_objects := lr_objects res @ [\<lparr>lo_key = drop (length mp) ks, lo_meta = meta\<rparr>]\<rparr>"
    have "list_loop ssl R d mp pfx max_keys cnt res (e # es) = list_loop ssl R d mp pfx max_keys (cnt + 1) ?r es"
      using True m by (auto simp: e starts_with_split Let_def)
    moreover have "pfx = [] \<or> starts_with pfx (drop (length mp) ks)" using True by (simp add: starts_with_split)
    ultimately show ?thesis using Cons.IH [of "cnt + 1" ?r] True by fastforce
  next
    case False
    with Cons show ?thesis
      by (auto simp: e starts_with_split Let_def split: option.splits)
  qed
qed simp

section \<open>Bucket listing\<close>

lemma list_buckets_loop_eq:
  "list_buckets_loop es =
     (map (\<lambda>e. drop 2 (fst e)) (matching [CHR ''B'', CHR 0x00] es),
      dropWhile (\<lambda>e. starts_with [CHR ''B'', CHR 0x00] (fst e)) es)"
  by (induction es) (auto simp: matching_def)

context rocksdb_healthy
begin

lemma listed_objects:
  assumes "store_inv (view d)" "nul_free b"
  shows "\<lparr>lo_key = k, lo_meta = m\<rparr> \<in> listed (meta_prefix b) ` set (objects_at R d b pfx) \<longleftrightarrow>
    starts_with pfx k \<and> (\<exists>x. os_objects (abs_ostore (view d)) (b, k) = Some (x, m))"
proof -
  have "\<lparr>lo_key = k, lo_meta = m\<rparr> \<in> listed (meta_prefix b) ` set (objects_at R d b pfx) \<longleftrightarrow>
      starts_with pfx k \<and> (\<exists>v. view d (meta_key b k) = Some v \<and> the (decode_meta v) = m)"
    (is "?L \<longleftrightarrow> ?R")
  proof
    assume ?L
    then obtain k' v where e: "(k', v) \<in> set (objects_at R d b pfx)" "listed (meta_prefix b) (k', v) = \<lparr>lo_key = k, lo_meta = m\<rparr>"
      by auto
    then show ?R by (auto simp: set_objects_at listed_def)
  next
    assume ?R
    then obtain v where v: "view d (meta_key b k) = Some v" "the (decode_meta v) = m" "starts_with pfx k" by auto
    then have "(meta_key b k, v) \<in> set (objects_at R d b pfx)" by (auto simp: set_objects_at starts_with_iff)
    then show ?L using v by (auto simp: listed_def intro!: rev_image_eqI)
  qed
  moreover have "(\<exists>v. view d (meta_key b k) = Some v \<and> the (decode_meta v) = m) \<longleftrightarrow>
      (\<exists>x. os_objects (abs_ostore (view d)) (b, k) = Some (x, m))"
  proof (cases "nul_free k")
    case True
    from store_inv_pair [OF assms True] show ?thesis
      by (cases rule: pair_ok_cases) (use assms True in \<open>auto simp: abs_ostore_def abs_object_def\<close>)
  next
    case False
    then show ?thesis using store_inv_meta_nul_free [OF assms, of k] by (auto simp: abs_ostore_def)
  qed
  ultimately show ?thesis by simp
qed

lemma sorted_listed: "sorted_wrt (<) (map lo_key (map (listed (meta_prefix b)) (objects_at R d b pfx)))"
proof -
  have "lo_key (listed (meta_prefix b) e) < lo_key (listed (meta_prefix b) e')"
    if "e \<in> set (objects_at R d b pfx)" "e' \<in> set (objects_at R d b pfx)" "fst e < fst e'" for e e'
    using that set_objects_at [of "fst e" "snd e" d b pfx] set_objects_at [of "fst e'" "snd e'" d b pfx]
    by (auto simp: listed_def meta_key_def)
  with sorted_objects_at [of d b pfx] show ?thesis
    by (simp add: sorted_wrt_map) (rule sorted_wrt_mono_rel [of _ "\<lambda>a b. fst a < fst b"], auto)
qed

lemma list_buckets_eq:
  obtains w' where "list_buckets R e w =
      (map (\<lambda>e. drop 2 (fst e)) (matching [CHR ''B'', CHR 0x00] (entries (w_db w) [CHR ''B'', CHR 0x00])), e, w')"
    "w_db w' = w_db w"
proof -
  have "ok (it_status (db_Seek R (w_db w) s\<lparr>it_entries := l\<rparr>))" for s l
    using Seek_total [of "w_db w" s] by (simp add: it_status_def Valid_def)
  then show thesis
    using that by (simp add: list_buckets_def Clock_now_def Let_def list_buckets_loop_eq)
qed

lemma bucket_names:
  assumes "store_inv (view d)"
  shows "(\<lambda>e. drop 2 (fst e)) ` set (matching [CHR ''B'', CHR 0x00] (entries d [CHR ''B'', CHR 0x00])) =
    os_buckets (abs_ostore (view d))"
proof -
  have "b \<in> (\<lambda>e. drop 2 (fst e)) ` set (matching [CHR ''B'', CHR 0x00] (entries d [CHR ''B'', CHR 0x00])) \<longleftrightarrow>
      view d (bucket_key b) \<noteq> None" for b
    using le_append [of "[CHR ''B'', CHR 0x00]" b]
    by (force simp: matching_eq_filter image_iff set_entries starts_with_iff bucket_key_def)
  then show ?thesis using store_inv_bucket_nul_free [OF assms] by (auto simp: abs_ostore_def)
qed

lemma sorted_bucket_names:
  "sorted_wrt (<) (map (\<lambda>e. drop 2 (fst e)) (matching [CHR ''B'', CHR 0x00] (entries d [CHR ''B'', CHR 0x00])))"
proof -
  let ?p = "[CHR ''B'', CHR 0x00]" and ?es = "entries d [CHR ''B'', CHR 0x00]"
  have "sorted_wrt (\<lambda>a b. fst a < fst b) (filter (\<lambda>e. starts_with ?p (fst e)) ?es)"
    using sorted_entries [of d ?p] by (simp add: sorted_wrt_map sorted_wrt_filter)
  moreover have "drop 2 (fst e) < drop 2 (fst e')"
    if "starts_with ?p (fst e)" "starts_with ?p (fst e')" "fst e < fst e'" for e e' :: "string \<times> bytes"
    using that by (auto simp: starts_with_iff)
  ultimately show ?thesis
    by (simp add: matching_eq_filter sorted_wrt_map) (rule sorted_wrt_mono_rel, auto)
qed

end

section \<open>Properties\<close>

text \<open>
  C14: A client that lists a bucket page by page, following the continuation tokens, receives
  every object of the bucket whose key has the prefix exactly once, in ascending key order, with
  its metadata; the number of pages is bounded, so the loop ends, for every page size.
\<close>

theorem list_pages_complete:
  assumes "rocksdb_healthy R view" "openssl_base64 ssl" "store_inv (view (w_db w))"
    "nul_free b" "nul_free pfx" "view (w_db w) (bucket_key b) \<noteq> None"
  shows "\<exists>os. (\<forall>fuel > length os. list_pages fuel ssl R b pfx max_keys [] w = Some os) \<and>
    sorted_wrt (<) (map lo_key os) \<and>
    (\<forall>k m. \<lparr>lo_key = k, lo_meta = m\<rparr> \<in> set os \<longleftrightarrow>
       starts_with pfx k \<and> (\<exists>d. os_objects (abs_ostore (view (w_db w))) (b, k) = Some (d, m)))"
proof -
  let ?F = "objects_at R (w_db w) b pfx"
  let ?os = "map (listed (meta_prefix b)) ?F"
  have "list_pages fuel ssl R b pfx max_keys [] w = Some ?os" if "length ?os < fuel" for fuel
    using rocksdb_healthy.list_pages_eq [OF assms(1,2,4,5,3,6), of 0 fuel max_keys] that
    by (simp add: token_at_def)
  then show ?thesis
    using rocksdb_healthy.sorted_listed [OF assms(1)] rocksdb_healthy.listed_objects [OF assms(1,3,4)]
    by (intro exI [of _ ?os]) simp
qed

theorem list_pages_complete_witness:
  "\<exists>os. list_pages (Suc (length os)) demo_ssl mem_rocksdb ''pc'' ''o'' 1 [] (demo_world demo_db) = Some os \<and>
     \<lparr>lo_key = ''obj'', lo_meta = demo_meta\<rparr> \<in> set os"
proof -
  have "os_objects (abs_ostore (map_of demo_db)) (''pc'', ''obj'') = Some (''ABCD'', demo_meta)"
    using demo_meta_ok by (simp add: abs_ostore_def demo_db_def abs_object_def key_lemmas)
  moreover have "map_of demo_db (bucket_key ''pc'') \<noteq> None" by (simp add: demo_db_def)
  ultimately obtain os where "\<forall>fuel > length os. list_pages fuel demo_ssl mem_rocksdb ''pc'' ''o'' 1 [] (demo_world demo_db) = Some os"
    "\<lparr>lo_key = ''obj'', lo_meta = demo_meta\<rparr> \<in> set os"
    using list_pages_complete [OF mem_rocksdb_healthy demo_ssl_base64, of "demo_world demo_db" "''pc''" "''o''" 1]
      demo_db_inv by (auto simp: demo_world_def starts_with_def)
  then show ?thesis by (intro exI [of _ os]) (simp del: list_pages.simps)
qed

text \<open>
  Whatever the database and the continuation token are, a page holds at most the requested
  number of objects and never more than 1000, and every listed key has the prefix.
\<close>

theorem list_page_limit:
  "length (lr_objects (fst (list_objects_v2 ssl R b pfx max_keys token e w))) \<le> nat (clamp_max_keys max_keys) \<and>
   1 \<le> clamp_max_keys max_keys \<and> clamp_max_keys max_keys \<le> 1000 \<and>
   clamp_max_keys max_keys = (if 1 \<le> max_keys then min max_keys 1000 else 1000) \<and>
   list_all (\<lambda>x. starts_with pfx (lo_key x)) (lr_objects (fst (list_objects_v2 ssl R b pfx max_keys token e w)))"
proof -
  let ?n = "clamp_max_keys max_keys"
  have n: "1 \<le> ?n" "?n \<le> 1000" "?n = (if 1 \<le> max_keys then min max_keys 1000 else 1000)"
    by (auto simp: clamp_max_keys_def Let_def min_def)
  obtain ex e' w' where x: "bucket_exists R b e w = (ex, e', w')" by (cases "bucket_exists R b e w")
  have ll: "length (lr_objects (fst (list_loop ssl R d mp pfx ?n 0 empty_ListResult es))) \<le> nat ?n \<and>
      (\<forall>x \<in> set (lr_objects (fst (list_loop ssl R d mp pfx ?n 0 empty_ListResult es))). starts_with pfx (lo_key x))"
    for d mp es
    using list_loop_bounds [of 0 ?n ssl R d mp pfx empty_ListResult es] n(1) by (simp add: empty_ListResult_def)
  have "length (lr_objects (fst (list_objects_v2 ssl R b pfx max_keys token e w))) \<le> nat ?n \<and>
      (\<forall>x \<in> set (lr_objects (fst (list_objects_v2 ssl R b pfx max_keys token e w))). starts_with pfx (lo_key x))"
    using ll by (auto simp: list_objects_v2_def x Let_def split_beta empty_ListResult_def split: option.splits)
  with n show ?thesis by (auto simp: list_all_iff)
qed

text \<open>
  C38: On a database that does not fail, \<open>list_buckets\<close> returns the names of the existing buckets, each
  once, in ascending order, and changes nothing.
\<close>

theorem list_buckets_complete:
  assumes "rocksdb_healthy R view" "store_inv (view (w_db w))"
  shows "\<exists>bs w'. list_buckets R e w = (bs, e, w') \<and> w_db w' = w_db w \<and> sorted_wrt (<) bs \<and>
    set bs = os_buckets (abs_ostore (view (w_db w)))"
proof -
  let ?m = "matching [CHR ''B'', CHR 0x00] (it_entries (db_Seek R (w_db w) [CHR ''B'', CHR 0x00]))"
  obtain w' where "list_buckets R e w = (map (\<lambda>e. drop 2 (fst e)) ?m, e, w')" "w_db w' = w_db w"
    by (rule rocksdb_healthy.list_buckets_eq [OF assms(1)])
  with rocksdb_healthy.sorted_bucket_names [OF assms(1)] rocksdb_healthy.bucket_names [OF assms]
  show ?thesis by auto
qed

theorem list_buckets_complete_witness:
  "\<exists>bs w'. list_buckets mem_rocksdb None (demo_world demo_db) = (bs, None, w') \<and> ''pc'' \<in> set bs"
  using list_buckets_complete [OF mem_rocksdb_healthy, of "demo_world demo_db" None] demo_db_inv
  by (auto simp: demo_world_def abs_ostore_def demo_db_def)

end
