(* ===== verification/Http.thy ===== *)
theory Http
  imports Prelude "HOL-Library.AList"
begin

text \<open>
  The messages of Boost.Beast as the gateway uses them.  A request is the record of the accessors
  the code calls; \<open>rq_find\<close> is the look-up of a header field (\<open>req.find\<close>, \<open>None\<close> for
  \<open>end()\<close>), which belongs to Beast.  \<open>req.method()\<close> compares as the verb whose name is
  \<open>method_string()\<close>.  A response holds what the code sets: \<open>set\<close> replaces a field.
\<close>

record Request =
  rq_method :: string
  rq_target :: string
  rq_version :: nat
  rq_find :: "string \<Rightarrow> string option"
  rq_keep_alive :: bool
  rq_body :: bytes

record Response =
  rs_status :: nat
  rs_version :: nat
  rs_fields :: "(string \<times> string) list"
  rs_keep_alive :: bool
  rs_content_length :: "int option"
  rs_body :: bytes

definition new_Response :: "nat \<Rightarrow> nat \<Rightarrow> Response" where
  "new_Response st version =
     \<lparr>rs_status = st, rs_version = version, rs_fields = [], rs_keep_alive = False,
      rs_content_length = None, rs_body = []\<rparr>"

definition set_field :: "string \<Rightarrow> string \<Rightarrow> Response \<Rightarrow> Response" where
  "set_field name v res = res\<lparr>rs_fields := AList.update name v (rs_fields res)\<rparr>"

definition field :: "Response \<Rightarrow> string \<Rightarrow> string option" where
  "field res name = map_of (rs_fields res) name"

lemma field_set_field [simp]: "field (set_field n v res) m = (if n = m then Some v else field res m)"
  by (simp add: field_def set_field_def update_conv')

lemma field_updates [simp]:
  "field (res\<lparr>rs_body := b\<rparr>) n = field res n" "field (res\<lparr>rs_keep_alive := k\<rparr>) n = field res n"
  "field (res\<lparr>rs_content_length := l\<rparr>) n = field res n" "field (new_Response st v) n = None"
  by (simp_all add: field_def new_Response_def)

lemma set_field_sel [simp]:
  "rs_status (set_field n v res) = rs_status res" "rs_body (set_field n v res) = rs_body res"
  "rs_version (set_field n v res) = rs_version res" "rs_keep_alive (set_field n v res) = rs_keep_alive res"
  "rs_content_length (set_field n v res) = rs_content_length res"
  by (simp_all add: set_field_def)

lemma new_Response_sel [simp]:
  "rs_status (new_Response st v) = st" "rs_version (new_Response st v) = v"
  "rs_body (new_Response st v) = []" "rs_content_length (new_Response st v) = None"
  by (simp_all add: new_Response_def)

end
