(* ===== verification/Sigv4.thy ===== *)
theory Sigv4
  imports Util Http Base64
begin

text \<open>
  The gateway's \<open>sigv4.hpp\<close> and \<open>sigv4.cpp\<close>: verification of AWS Signature Version 4, by header
  and by presigned query, in the order of the file.  Digests and HMAC are OpenSSL's, an argument.

  The lemmas show that a request signed as the protocol prescribes is accepted, that whatever is
  accepted carries the HMAC of its canonical request under the configured secret, and which parts
  of the request this binds: method, path, query and payload hash.
\<close>

record Credentials =
  cr_access_key :: string
  cr_secret_key :: string

datatype Mode = Mode_None | Mode_SigV4

record Result =
  auth_ok :: bool
  error_code :: string
  error_message :: string

definition to_lower :: "string \<Rightarrow> string" where
  "to_lower s = map tolower s"

function split_str :: "string \<Rightarrow> char \<Rightarrow> string list" where
  "split_str s delim =
     (case find_char delim s of
        None \<Rightarrow> [s]
      | Some pos \<Rightarrow> take pos s # split_str (drop (Suc pos) s) delim)"
  by pat_completeness auto
termination
  by (relation "measure (length \<circ> fst)") (auto dest: find_char_less_length)

declare split_str.simps [simp del]

definition header_value :: "Request \<Rightarrow> string \<Rightarrow> string option" where
  "header_value req name = rq_find req name"

definition canonical_uri :: "string \<Rightarrow> string" where
  "canonical_uri path =
     (case percent_decode path of
        None \<Rightarrow> percent_encode path False
      | Some decoded \<Rightarrow> percent_encode decoded False)"

text \<open>\<open>ParsedTarget\<close> of this file: path and query.\<close>

definition sig_parse_target :: "string \<Rightarrow> string \<times> string" where
  "sig_parse_target target =
     (let (path, query) =
        (case find_char (CHR ''?'') target of
           None \<Rightarrow> (target, [])
         | Some q \<Rightarrow> (take q target, drop (Suc q) target))
      in (if path = [] then ''/'' else path, query))"

text \<open>The canonical header lines and the joined names; a name the request does not have is skipped.\<close>

fun canonical_headers_loop :: "Request \<Rightarrow> string list \<Rightarrow> bool \<Rightarrow> string \<times> string" where
  "canonical_headers_loop req [] first = ([], [])"
| "canonical_headers_loop req (hname # hs) first =
     (case rq_find req hname of
        None \<Rightarrow> canonical_headers_loop req hs first
      | Some value \<Rightarrow>
          let (ch, sh) = canonical_headers_loop req hs False
          in (hname @ '':'' @ trim_and_collapse_ws value @ [CHR 0x0A] @ ch,
              (if first then [] else '';'') @ hname @ sh))"

definition canonical_headers :: "Request \<Rightarrow> string list \<Rightarrow> string \<times> string" where
  "canonical_headers req signed_headers_lower = canonical_headers_loop req signed_headers_lower True"

definition derive_signing_key :: "'md openssl \<Rightarrow> string \<Rightarrow> string \<Rightarrow> string \<Rightarrow> string \<Rightarrow> bytes" where
  "derive_signing_key ssl secret_key yyyymmdd region service =
     (let ksecret = ''AWS4'' @ secret_key;
          k_date = hmac_sha256 ssl ksecret yyyymmdd;
          k_region = hmac_sha256 ssl k_date region;
          k_service = hmac_sha256 ssl k_region service
      in hmac_sha256 ssl k_service ''aws4_request'')"

definition auth_fail :: "string \<Rightarrow> string \<Rightarrow> Result" where
  "auth_fail code msg = \<lparr>auth_ok = False, error_code = code, error_message = msg\<rparr>"

definition auth_accept :: Result where
  "auth_accept = \<lparr>auth_ok = True, error_code = [], error_message = []\<rparr>"

section \<open>The Authorization header\<close>

record AuthHeader =
  ah_access_key :: string
  ah_date :: string
  ah_region :: string
  ah_service :: string
  ah_signed_headers :: string
  ah_signature :: string
  ah_signed_headers_list :: "string list"
  ah_amz_date :: string
  ah_payload_hash :: string

text \<open>One \<open>k=v\<close> part of the header, trimmed; and the loop over the parts between commas.\<close>

definition auth_part :: "string \<Rightarrow> (string \<Rightarrow> string option) \<Rightarrow> string \<Rightarrow> string option" where
  "auth_part part kv =
     (let part = trim_ws part in
      case find_char (CHR ''='') part of
        None \<Rightarrow> kv
      | Some eq \<Rightarrow> kv(take eq part \<mapsto> drop (Suc eq) part))"

function auth_parts :: "string \<Rightarrow> (string \<Rightarrow> string option) \<Rightarrow> string \<Rightarrow> string option" where
  "auth_parts s kv =
     (if s = [] then kv
      else case find_char (CHR '','') s of
             None \<Rightarrow> auth_part s kv
           | Some comma \<Rightarrow> auth_parts (drop (Suc comma) s) (auth_part (take comma s) kv))"
  by pat_completeness auto
termination
  by (relation "measure (length \<circ> fst)") (auto dest: find_char_less_length)

declare auth_parts.simps [simp del]

definition parse_authorization_sigv4 :: "'md openssl \<Rightarrow> Request \<Rightarrow> AuthHeader option" where
  "parse_authorization_sigv4 ssl req =
     (case header_value req ''Authorization'' of
        None \<Rightarrow> None
      | Some s \<Rightarrow>
          if \<not> starts_with ''AWS4-HMAC-SHA256'' s then None
          else
            let kv = auth_parts (dropWhile isspace (drop 16 s)) Map.empty in
            case (kv ''Credential'', kv ''SignedHeaders'', kv ''Signature'') of
              (Some cred, Some sh, Some sig) \<Rightarrow>
                (let parts = split_str cred (CHR ''/'') in
                 if length parts < 5 then None
                 else
                   case header_value req ''x-amz-date'' of
                     None \<Rightarrow> None
                   | Some amz_date \<Rightarrow>
                       Some \<lparr>ah_access_key = parts ! 0, ah_date = parts ! 1, ah_region = parts ! 2,
                             ah_service = parts ! 3, ah_signed_headers = sh, ah_signature = sig,
                             ah_signed_headers_list = map to_lower (split_str sh (CHR '';'')),
                             ah_amz_date = amz_date,
                             ah_payload_hash =
                               (case header_value req ''x-amz-content-sha256'' of
                                  Some payload \<Rightarrow> payload
                                | None \<Rightarrow> sha256_hex ssl (rq_body req))\<rparr>)
            | _ \<Rightarrow> None)"

section \<open>Presigned queries\<close>

record PresignedQuery =
  pq_access_key :: string
  pq_date :: string
  pq_region :: string
  pq_service :: string
  pq_signed_headers :: string
  pq_signature :: string
  pq_amz_date :: string
  pq_expires :: string
  pq_signed_headers_list :: "string list"

fun query_get :: "(string \<times> string) list \<Rightarrow> string \<Rightarrow> string option" where
  "query_get [] k = None"
| "query_get (kv # q) k = (if fst kv = k then Some (snd kv) else query_get q k)"

definition parse_presigned :: "Request \<Rightarrow> PresignedQuery option" where
  "parse_presigned req =
     (let q = parse_query (snd (sig_parse_target (rq_target req))) in
      case (query_get q ''X-Amz-Algorithm'', query_get q ''X-Amz-Credential'', query_get q ''X-Amz-Date'',
            query_get q ''X-Amz-Expires'', query_get q ''X-Amz-SignedHeaders'', query_get q ''X-Amz-Signature'') of
        (Some alg, Some cred, Some date, Some expires, Some sh, Some sig) \<Rightarrow>
          if alg \<noteq> ''AWS4-HMAC-SHA256'' then None
          else
            let parts = split_str cred (CHR ''/'') in
            if length parts < 5 then None
            else Some \<lparr>pq_access_key = parts ! 0, pq_date = parts ! 1, pq_region = parts ! 2,
                       pq_service = parts ! 3, pq_signed_headers = sh, pq_signature = sig,
                       pq_amz_date = date, pq_expires = expires,
                       pq_signed_headers_list = map to_lower (split_str sh (CHR '';''))\<rparr>
      | _ \<Rightarrow> None)"

section \<open>Verification\<close>

text \<open>The first half of \<open>verify_with_parts\<close>: the canonical request.\<close>

definition canonical_request :: "Request \<Rightarrow> string list \<Rightarrow> string \<Rightarrow> bool \<Rightarrow> string" where
  "canonical_request req signed_headers_lower payload_hash presigned =
     (let (path, query) = sig_parse_target (rq_target req);
          can_uri = canonical_uri path;
          params = parse_query query;
          can_query = canonical_query_string params (if presigned then Some ''X-Amz-Signature'' else None);
          (can_headers, signed_headers_joined) = canonical_headers req signed_headers_lower
      in rq_method req @ nl @ can_uri @ nl @ can_query @ nl @ can_headers @ nl
           @ signed_headers_joined @ nl @ payload_hash)"

definition string_to_sign :: "'md openssl \<Rightarrow> string \<Rightarrow> string \<Rightarrow> string \<Rightarrow> string \<Rightarrow> string \<Rightarrow> string" where
  "string_to_sign ssl amz_date yyyymmdd region service creq =
     ''AWS4-HMAC-SHA256'' @ nl @ amz_date @ nl @ yyyymmdd @ ''/'' @ region @ ''/'' @ service @ ''/aws4_request'' @ nl
       @ sha256_hex ssl creq"

definition verify_with_parts ::
  "'md openssl \<Rightarrow> Request \<Rightarrow> Credentials \<Rightarrow> string \<Rightarrow> string \<Rightarrow> string \<Rightarrow> string \<Rightarrow> string \<Rightarrow> string list \<Rightarrow> string \<Rightarrow> string \<Rightarrow> bool \<Rightarrow> Result" where
  "verify_with_parts ssl req creds access_key yyyymmdd region service amz_date signed_headers_lower
     payload_hash signature_hex presigned =
     (if service \<noteq> ''s3'' then auth_fail ''InvalidRequest'' ''Credential scope service must be s3''
      else if access_key \<noteq> cr_access_key creds then auth_fail ''SignatureDoesNotMatch'' ''Unknown access key''
      else
        let creq = canonical_request req signed_headers_lower payload_hash presigned;
            sts = string_to_sign ssl amz_date yyyymmdd region service creq;
            signing_key = derive_signing_key ssl (cr_secret_key creds) yyyymmdd region service;
            sig_bin = hmac_sha256 ssl signing_key sts;
            sig_hex = hex_lower sig_bin
        in if \<not> constant_time_equal sig_hex signature_hex
           then auth_fail ''SignatureDoesNotMatch''
             ''The request signature we calculated does not match the signature you provided.''
           else auth_accept)"

definition verify_sigv4 :: "'md openssl \<Rightarrow> Request \<Rightarrow> Mode \<Rightarrow> Credentials \<Rightarrow> Result" where
  "verify_sigv4 ssl req mode creds =
     (if mode = Mode_None then auth_accept
      else
        case parse_authorization_sigv4 ssl req of
          Some ah \<Rightarrow>
            if ah_payload_hash ah = ''STREAMING-AWS4-HMAC-SHA256-PAYLOAD''
            then auth_fail ''NotImplemented'' ''Streaming SigV4 payload signing is not implemented''
            else verify_with_parts ssl req creds (ah_access_key ah) (ah_date ah) (ah_region ah) (ah_service ah)
                   (ah_amz_date ah) (ah_signed_headers_list ah) (ah_payload_hash ah) (ah_signature ah) False
        | None \<Rightarrow>
            (case parse_presigned req of
               Some pq \<Rightarrow>
                 verify_with_parts ssl req creds (pq_access_key pq) (pq_date pq) (pq_region pq) (pq_service pq)
                   (pq_amz_date pq) (pq_signed_headers_list pq) ''UNSIGNED-PAYLOAD'' (pq_signature pq) True
             | None \<Rightarrow> auth_fail ''AccessDenied'' ''Missing or invalid authentication''))"

section \<open>Lemmas: splitting\<close>

lemma split_str_single: "c \<notin> set a \<Longrightarrow> split_str a c = [a]"
  by (subst split_str.simps) (simp add: find_char_None_iff [THEN iffD2])

lemma split_str_sep: "c \<notin> set a \<Longrightarrow> split_str (a @ c # b) c = a # split_str b c"
  by (subst split_str.simps) simp

lemma split_str_join:
  "hs \<noteq> [] \<Longrightarrow> \<forall>h \<in> set hs. c \<notin> set h \<Longrightarrow> split_str (join [c] hs) c = hs"
proof (induction hs)
  case (Cons h hs)
  then show ?case by (cases "hs = []") (simp_all add: split_str_single split_str_sep join_Cons)
qed simp

lemma auth_parts_comma:
  "CHR '','' \<notin> set a \<Longrightarrow> auth_parts (a @ CHR '','' # b) kv = auth_parts b (auth_part a kv)"
  by (subst auth_parts.simps) simp

lemma auth_parts_last: "CHR '','' \<notin> set a \<Longrightarrow> a \<noteq> [] \<Longrightarrow> auth_parts a kv = auth_part a kv"
  by (subst auth_parts.simps) (simp add: find_char_None_iff [THEN iffD2])

lemma trim_ws_Cons: "isspace c \<Longrightarrow> trim_ws (c # s) = trim_ws s"
  by (simp add: trim_ws_def)

lemma auth_part_kv:
  assumes "CHR ''='' \<notin> set k" "k \<noteq> []" "\<not> isspace (hd k)" "\<not> isspace (last (CHR ''='' # v))"
  shows "auth_part (k @ CHR ''='' # v) kv = kv(k \<mapsto> v)"
    and "auth_part (CHR '' '' # k @ CHR ''='' # v) kv = kv(k \<mapsto> v)"
proof -
  have "trim_ws (k @ CHR ''='' # v) = k @ CHR ''='' # v"
    using assms(2-4) by (intro trim_id) (simp split: if_splits)
  then show "auth_part (k @ CHR ''='' # v) kv = kv(k \<mapsto> v)"
    and "auth_part (CHR '' '' # k @ CHR ''='' # v) kv = kv(k \<mapsto> v)"
    using assms(1) by (simp_all add: auth_part_def trim_ws_Cons)
qed

section \<open>The signature a client sends\<close>

text \<open>The signature the protocol prescribes, and the header a client builds from it.\<close>

definition expected_signature ::
  "'md openssl \<Rightarrow> Credentials \<Rightarrow> string \<Rightarrow> string \<Rightarrow> string \<Rightarrow> string \<Rightarrow> string" where
  "expected_signature ssl creds date region amz_date creq =
     hex_lower (hmac_sha256 ssl (derive_signing_key ssl (cr_secret_key creds) date region ''s3'')
       (string_to_sign ssl amz_date date region ''s3'' creq))"

definition authorization_header :: "string \<Rightarrow> string \<Rightarrow> string \<Rightarrow> string list \<Rightarrow> string \<Rightarrow> string" where
  "authorization_header access_key date region hs sig =
     ''AWS4-HMAC-SHA256 Credential='' @ access_key @ ''/'' @ date @ ''/'' @ region @ ''/s3/aws4_request, SignedHeaders=''
       @ join '';'' hs @ '', Signature='' @ sig"

definition scope_text_ok :: "string \<Rightarrow> bool" where
  "scope_text_ok s \<longleftrightarrow> CHR '','' \<notin> set s \<and> CHR ''/'' \<notin> set s"

definition header_name_ok :: "string \<Rightarrow> bool" where
  "header_name_ok h \<longleftrightarrow> h \<noteq> [] \<and>
     list_all (\<lambda>c. \<not> isspace c \<and> \<not> isupper c \<and> c \<noteq> CHR '','' \<and> c \<noteq> CHR '';'') h"




lemma verify_with_parts_iff:
  "auth_ok (verify_with_parts ssl req creds ak date region service amz hs payload sig presigned) \<longleftrightarrow>
   service = ''s3'' \<and> ak = cr_access_key creds \<and>
   sig = expected_signature ssl creds date region amz (canonical_request req hs payload presigned)"
  by (auto simp: verify_with_parts_def auth_fail_def auth_accept_def expected_signature_def Let_def)

lemma hex_digit_alnum: "n < 16 \<Longrightarrow> isdigit (hex_digit n) \<or> islower (hex_digit n)"
  by (drule nibble_cases) (auto simp: hex_digit_def isdigit_def islower_def)

lemma set_hex_lower: "c \<in> set (hex_lower bs) \<Longrightarrow> isdigit c \<or> islower c"
proof -
  assume "c \<in> set (hex_lower bs)"
  then obtain b where "c = hex_digit (of_char b div 16) \<or> c = hex_digit (of_char b mod 16)"
    by (auto simp: hex_lower_def nibbles_of_char)
  moreover have "(of_char b :: nat) div 16 < 16" for b
    using of_char_less_256 [of b] by (simp add: less_mult_imp_div_less)
  ultimately show ?thesis
    using hex_digit_alnum [of "of_char b div 16"] hex_digit_alnum [of "of_char b mod 16"] by auto
qed

lemma alnum_not_space: "isdigit c \<or> islower c \<Longrightarrow> \<not> isspace c \<and> c \<noteq> CHR '','' \<and> c \<noteq> CHR 0x0A"
  by (auto simp: isdigit_def islower_def isspace_def)

lemma last_join_ok:
  assumes "hs \<noteq> []" "list_all header_name_ok hs"
  shows "join '';'' hs \<noteq> [] \<and> \<not> isspace (last (join '';'' hs)) \<and> CHR '','' \<notin> set (join '';'' hs)"
  using assms
proof (induction hs)
  case (Cons h hs)
  have h: "h \<noteq> []" "\<not> isspace (last h)" "CHR '','' \<notin> set h"
    using Cons.prems(2) by (auto simp: header_name_ok_def list_all_iff)
  show ?case
  proof (cases "hs = []")
    case True
    with h show ?thesis by simp
  next
    case False
    with Cons h show ?thesis by (simp add: join_Cons)
  qed
qed simp

lemma map_to_lower_ok: "list_all header_name_ok hs \<Longrightarrow> map to_lower hs = hs"
  by (induction hs) (auto simp: to_lower_def header_name_ok_def tolower_def list_all_iff map_idI)

lemma auth_parts_header:
  assumes "scope_text_ok ak" "scope_text_ok date" "scope_text_ok region"
    "hs \<noteq> []" "list_all header_name_ok hs" "sig = hex_lower bs"
  shows "auth_parts (dropWhile isspace (drop 16 (authorization_header ak date region hs sig))) Map.empty =
    [''Credential'' \<mapsto> ak @ ''/'' @ date @ ''/'' @ region @ ''/s3/aws4_request'',
     ''SignedHeaders'' \<mapsto> join '';'' hs, ''Signature'' \<mapsto> sig]"
proof -
  let ?cred = "ak @ ''/'' @ date @ ''/'' @ region @ ''/s3/aws4_request''"
  let ?c1 = "''Credential'' @ CHR ''='' # ?cred"
  let ?c2 = "CHR '' '' # ''SignedHeaders'' @ CHR ''='' # join '';'' hs"
  let ?c3 = "CHR '' '' # ''Signature'' @ CHR ''='' # sig"
  have body: "dropWhile isspace (drop 16 (authorization_header ak date region hs sig)) =
      ?c1 @ CHR '','' # ?c2 @ CHR '','' # ?c3"
    by (simp add: authorization_header_def isspace_def)
  have "CHR '','' \<notin> set sig"
    using assms(6) set_hex_lower [of "CHR '',''" bs] by (auto simp: isdigit_def islower_def)
  moreover have "\<not> isspace (last (CHR ''='' # sig))"
  proof (cases "sig = []")
    case False
    then show ?thesis
      using set_hex_lower [of "last sig" bs] alnum_not_space [of "last sig"] assms(6) by simp
  qed (simp add: isspace_def)
  ultimately have sig: "CHR '','' \<notin> set sig" "\<not> isspace (last (CHR ''='' # sig))" by simp_all
  note j = last_join_ok [OF assms(4,5)]
  have "CHR '','' \<notin> set ?c1" using assms(1-3) by (auto simp: scope_text_ok_def)
  moreover have "CHR '','' \<notin> set ?c2" using j by simp
  moreover have "CHR '','' \<notin> set ?c3" using sig by simp
  moreover have "auth_part ?c1 Map.empty = [''Credential'' \<mapsto> ?cred]"
    by (rule auth_part_kv(1)) (auto simp: isspace_def)
  moreover have "auth_part ?c2 kv = kv(''SignedHeaders'' \<mapsto> join '';'' hs)" for kv
    by (rule auth_part_kv(2)) (use j in \<open>auto simp: isspace_def\<close>)
  moreover have "auth_part ?c3 kv = kv(''Signature'' \<mapsto> sig)" for kv
    by (rule auth_part_kv(2)) (use sig in \<open>auto simp: isspace_def\<close>)
  ultimately show ?thesis
    unfolding body by (simp only: auth_parts_comma auth_parts_last list.distinct not_False_eq_True)
qed

lemma split_scope:
  assumes "scope_text_ok ak" "scope_text_ok date" "scope_text_ok region"
  shows "split_str (ak @ ''/'' @ date @ ''/'' @ region @ ''/s3/aws4_request'') (CHR ''/'') =
    [ak, date, region, ''s3'', ''aws4_request'']"
  using assms split_str_sep [of "CHR ''/''" "''s3''" "''aws4_request''"]
  by (simp add: scope_text_ok_def split_str_sep split_str_single)

lemma parse_signed_header:
  assumes "rq_find req ''Authorization'' = Some (authorization_header ak date region hs sig)"
    "rq_find req ''x-amz-date'' = Some amz"
    "scope_text_ok ak" "scope_text_ok date" "scope_text_ok region"
    "hs \<noteq> []" "list_all header_name_ok hs" "sig = hex_lower bs"
  shows "parse_authorization_sigv4 ssl req =
    Some \<lparr>ah_access_key = ak, ah_date = date, ah_region = region, ah_service = ''s3'',
          ah_signed_headers = join '';'' hs, ah_signature = sig, ah_signed_headers_list = hs, ah_amz_date = amz,
          ah_payload_hash = (case rq_find req ''x-amz-content-sha256'' of
                               Some payload \<Rightarrow> payload | None \<Rightarrow> sha256_hex ssl (rq_body req))\<rparr>"
proof -
  have "\<forall>h \<in> set hs. CHR '';'' \<notin> set h" using assms(7) by (auto simp: header_name_ok_def list_all_iff)
  then have hs: "map to_lower (split_str (join '';'' hs) (CHR '';'')) = hs"
    using split_str_join [OF assms(6)] map_to_lower_ok [OF assms(7)] by simp
  have pre: "starts_with ''AWS4-HMAC-SHA256'' (authorization_header ak date region hs sig)"
    by (simp add: authorization_header_def starts_with_def)
  show ?thesis
    using hs pre assms(1,2) auth_parts_header [OF assms(3-8)] split_scope [OF assms(3-5)]
    by (simp add: parse_authorization_sigv4_def header_value_def Let_def)
qed

text \<open>The parts of a canonical request that stand on lines of their own.\<close>

lemma nl_notin_canonical_uri: "CHR 0x0A \<notin> set (canonical_uri p)"
  by (simp add: canonical_uri_def split: option.splits)

lemma nl_notin_join: "CHR 0x0A \<notin> set sep \<Longrightarrow> \<forall>x \<in> set xs. CHR 0x0A \<notin> set x \<Longrightarrow> CHR 0x0A \<notin> set (join sep xs)"
  by (induction sep xs rule: join.induct) auto

lemma nl_notin_canonical_query: "CHR 0x0A \<notin> set (canonical_query_string ps ex)"
  unfolding canonical_query_string_def Let_def by (rule nl_notin_join) auto

lemma append_last_sep_inject:
  fixes c :: char
  assumes "c \<notin> set b" "c \<notin> set b'" "a @ c # b = a' @ c # b'"
  shows "a = a' \<and> b = b'"
  using append_sep_inject [of c "rev b" "rev b'" "rev a" "rev a'"] assms
  by (metis append.assoc append_Cons append_Nil rev.simps(2) rev_append rev_rev_ident set_rev)

lemma canonical_request_inject:
  assumes "canonical_request req hs p pre = canonical_request req' hs' p' pre'"
    "CHR 0x0A \<notin> set (rq_method req)" "CHR 0x0A \<notin> set (rq_method req')"
    "CHR 0x0A \<notin> set p" "CHR 0x0A \<notin> set p'"
  shows "rq_method req = rq_method req' \<and>
    canonical_uri (fst (sig_parse_target (rq_target req))) = canonical_uri (fst (sig_parse_target (rq_target req'))) \<and>
    canonical_query_string (parse_query (snd (sig_parse_target (rq_target req)))) (if pre then Some ''X-Amz-Signature'' else None) =
    canonical_query_string (parse_query (snd (sig_parse_target (rq_target req')))) (if pre' then Some ''X-Amz-Signature'' else None) \<and>
    p = p'"
proof -
  let ?u = "\<lambda>r. canonical_uri (fst (sig_parse_target (rq_target r)))"
  let ?q = "\<lambda>r pre. canonical_query_string (parse_query (snd (sig_parse_target (rq_target r)))) (if pre then Some ''X-Amz-Signature'' else None)"
  let ?h = "\<lambda>r hs. fst (canonical_headers r hs) @ nl @ snd (canonical_headers r hs)"
  have c: "canonical_request r hs p pre = rq_method r @ CHR 0x0A # ?u r @ CHR 0x0A # ?q r pre @ CHR 0x0A # ?h r hs @ CHR 0x0A # p"
    for r hs p pre
    by (simp add: canonical_request_def nl_def split_beta Let_def)
  note eq = assms(1) [unfolded c]
  have m: "rq_method req = rq_method req'"
    and r1: "?u req @ CHR 0x0A # ?q req pre @ CHR 0x0A # ?h req hs @ CHR 0x0A # p =
      ?u req' @ CHR 0x0A # ?q req' pre' @ CHR 0x0A # ?h req' hs' @ CHR 0x0A # p'"
    using iffD1 [OF append_sep_inject [OF assms(2,3)] eq] by auto
  have u: "?u req = ?u req'"
    and r2: "?q req pre @ CHR 0x0A # ?h req hs @ CHR 0x0A # p = ?q req' pre' @ CHR 0x0A # ?h req' hs' @ CHR 0x0A # p'"
    using iffD1 [OF append_sep_inject [OF nl_notin_canonical_uri nl_notin_canonical_uri] r1] by auto
  have q: "?q req pre = ?q req' pre'" and r3: "?h req hs @ CHR 0x0A # p = ?h req' hs' @ CHR 0x0A # p'"
    using iffD1 [OF append_sep_inject [OF nl_notin_canonical_query nl_notin_canonical_query] r2] by auto
  from append_last_sep_inject [OF assms(4,5) r3] m u q show ?thesis by simp
qed

lemma string_to_sign_inject:
  assumes "string_to_sign ssl amz date region service c = string_to_sign ssl amz' date' region' service' c'"
  shows "sha256_bin ssl c = sha256_bin ssl c'"
proof -
  have n: "CHR 0x0A \<notin> set (hex_lower x)" for x
    using set_hex_lower [of "CHR 0x0A" x] by (auto simp: isdigit_def islower_def)
  let ?a = "\<lambda>amz date region service. ''AWS4-HMAC-SHA256'' @ nl @ amz @ nl @ date @ ''/'' @ region @ ''/'' @ service @ ''/aws4_request''"
  have "?a amz date region service @ CHR 0x0A # hex_lower (sha256_bin ssl c) =
      ?a amz' date' region' service' @ CHR 0x0A # hex_lower (sha256_bin ssl c')"
    using assms by (simp add: string_to_sign_def sha256_hex_def nl_def)
  from append_last_sep_inject [OF n n this] show ?thesis by (simp add: hex_lower_inject)
qed

lemma signed_header_accepted:
  assumes "rq_find req ''Authorization'' =
      Some (authorization_header (cr_access_key creds) date region hs
        (expected_signature ssl creds date region amz (canonical_request req hs payload False)))"
    and "rq_find req ''x-amz-date'' = Some amz"
    and "payload = (case rq_find req ''x-amz-content-sha256'' of Some p \<Rightarrow> p | None \<Rightarrow> sha256_hex ssl (rq_body req))"
    and "payload \<noteq> ''STREAMING-AWS4-HMAC-SHA256-PAYLOAD''"
    and "scope_text_ok (cr_access_key creds)" "scope_text_ok date" "scope_text_ok region"
    and "hs \<noteq> []" "list_all header_name_ok hs"
  shows "verify_sigv4 ssl req Mode_SigV4 creds = auth_accept"
proof -
  let ?sig = "expected_signature ssl creds date region amz (canonical_request req hs payload False)"
  have "?sig = hex_lower (hmac_sha256 ssl (derive_signing_key ssl (cr_secret_key creds) date region ''s3'')
      (string_to_sign ssl amz date region ''s3'' (canonical_request req hs payload False)))"
    by (simp add: expected_signature_def)
  note p = parse_signed_header [OF assms(1,2,5-9) this, of ssl, folded assms(3)]
  show ?thesis
    using assms(4) by (simp add: verify_sigv4_def p verify_with_parts_def expected_signature_def Let_def)
qed




text \<open>Where the body does not enter.\<close>

lemma body_irrelevant:
  assumes "rq_find req ''x-amz-content-sha256'' = Some h"
  shows "canonical_request (req\<lparr>rq_body := body\<rparr>) hs p pre = canonical_request req hs p pre"
    and "parse_authorization_sigv4 ssl (req\<lparr>rq_body := body\<rparr>) = parse_authorization_sigv4 ssl req"
    and "parse_presigned (req\<lparr>rq_body := body\<rparr>) = parse_presigned req"
proof -
  have ch: "canonical_headers_loop (req\<lparr>rq_body := body\<rparr>) hs first = canonical_headers_loop req hs first" for hs first
    by (induction hs arbitrary: first) (simp_all split: option.splits)
  show "canonical_request (req\<lparr>rq_body := body\<rparr>) hs p pre = canonical_request req hs p pre"
    by (simp add: canonical_request_def canonical_headers_def ch)
  have hv: "header_value (req\<lparr>rq_body := body\<rparr>) n = header_value req n" for n
    by (simp add: header_value_def)
  have h: "header_value req ''x-amz-content-sha256'' = Some h" using assms by (simp add: header_value_def)
  show "parse_authorization_sigv4 ssl (req\<lparr>rq_body := body\<rparr>) = parse_authorization_sigv4 ssl req"
    unfolding parse_authorization_sigv4_def hv h option.case by (rule refl)
  show "parse_presigned (req\<lparr>rq_body := body\<rparr>) = parse_presigned req"
    by (simp add: parse_presigned_def)
qed

section \<open>Examples\<close>

definition demo_creds :: Credentials where
  "demo_creds = \<lparr>cr_access_key = ''AKID'', cr_secret_key = ''secret''\<rparr>"

text \<open>A request with the given header fields.\<close>

definition demo_request :: "string \<Rightarrow> string \<Rightarrow> (string \<times> string) list \<Rightarrow> bytes \<Rightarrow> Request" where
  "demo_request meth target hs body =
     \<lparr>rq_method = meth, rq_target = target, rq_version = 11, rq_find = map_of hs, rq_keep_alive = True,
      rq_body = body\<rparr>"

text \<open>The same request with the signature of a client that signs the header \<open>host\<close>.\<close>

definition demo_signed :: "string \<Rightarrow> string \<Rightarrow> bytes \<Rightarrow> Request" where
  "demo_signed meth target body =
     (let hs = [(''host'', ''s3.local''), (''x-amz-date'', ''20240101T000000Z''), (''x-amz-content-sha256'', ''UNSIGNED-PAYLOAD'')];
          sig = expected_signature demo_ssl demo_creds ''20240101'' ''us-east-1'' ''20240101T000000Z''
                  (canonical_request (demo_request meth target hs body) [''host''] ''UNSIGNED-PAYLOAD'' False)
      in demo_request meth target
           ((''Authorization'', authorization_header ''AKID'' ''20240101'' ''us-east-1'' [''host''] sig) # hs) body)"

lemma canonical_request_cong:
  "rq_method r = rq_method r' \<Longrightarrow> rq_target r = rq_target r' \<Longrightarrow> canonical_headers r hs = canonical_headers r' hs \<Longrightarrow>
   canonical_request r hs p pre = canonical_request r' hs p pre"
  by (simp add: canonical_request_def)

lemma demo_signed_accepted:
  "verify_sigv4 demo_ssl (demo_signed meth target body) Mode_SigV4 demo_creds = auth_accept"
proof (rule signed_header_accepted [where date = "''20240101''" and region = "''us-east-1''" and hs = "[''host'']"
      and amz = "''20240101T000000Z''" and payload = "''UNSIGNED-PAYLOAD''"])
  let ?hs = "[(''host'', ''s3.local''), (''x-amz-date'', ''20240101T000000Z''), (''x-amz-content-sha256'', ''UNSIGNED-PAYLOAD'')]"
  have "canonical_request (demo_signed meth target body) [''host''] p False =
      canonical_request (demo_request meth target ?hs body) [''host''] p False" for p
    by (rule canonical_request_cong)
      (simp_all add: demo_signed_def demo_request_def Let_def canonical_headers_def)
  then show "rq_find (demo_signed meth target body) ''Authorization'' =
      Some (authorization_header (cr_access_key demo_creds) ''20240101'' ''us-east-1'' [''host'']
        (expected_signature demo_ssl demo_creds ''20240101'' ''us-east-1'' ''20240101T000000Z''
          (canonical_request (demo_signed meth target body) [''host''] ''UNSIGNED-PAYLOAD'' False)))"
    by (simp add: demo_signed_def demo_request_def Let_def) (simp add: demo_creds_def)
qed (simp_all add: demo_signed_def demo_request_def Let_def demo_creds_def scope_text_ok_def header_name_ok_def
    isspace_def isupper_def)

lemma demo_signed_parses:
  "\<exists>ah. parse_authorization_sigv4 demo_ssl (demo_signed meth target body) = Some ah \<and>
     ah_payload_hash ah = ''UNSIGNED-PAYLOAD''"
proof -
  obtain sig bs where "rq_find (demo_signed meth target body) ''Authorization'' =
      Some (authorization_header ''AKID'' ''20240101'' ''us-east-1'' [''host''] sig)" "sig = hex_lower bs"
    by (simp add: demo_signed_def demo_request_def Let_def expected_signature_def)
  from parse_signed_header [OF this(1) _ _ _ _ _ _ this(2), of "''20240101T000000Z''" demo_ssl] show ?thesis
    by (simp add: demo_signed_def demo_request_def Let_def scope_text_ok_def header_name_ok_def isspace_def isupper_def)
qed

section \<open>Properties\<close>






text \<open>
  C12: With SigV4 switched on, a request is accepted only when it names the configured access key
  and the service \<open>s3\<close> and carries, in the \<open>Authorization\<close> header or else in the query, the
  signature of its own canonical request under the configured secret; a streaming payload is
  refused.  Without authentication data the answer is \<open>AccessDenied\<close>.
\<close>

theorem sigv4_sound:
  assumes "auth_ok (verify_sigv4 ssl req Mode_SigV4 creds)"
  shows "(\<exists>ah. parse_authorization_sigv4 ssl req = Some ah \<and>
      ah_payload_hash ah \<noteq> ''STREAMING-AWS4-HMAC-SHA256-PAYLOAD'' \<and>
      ah_access_key ah = cr_access_key creds \<and> ah_service ah = ''s3'' \<and>
      ah_signature ah = expected_signature ssl creds (ah_date ah) (ah_region ah) (ah_amz_date ah)
        (canonical_request req (ah_signed_headers_list ah) (ah_payload_hash ah) False)) \<or>
    (\<exists>pq. parse_authorization_sigv4 ssl req = None \<and> parse_presigned req = Some pq \<and>
      pq_access_key pq = cr_access_key creds \<and> pq_service pq = ''s3'' \<and>
      pq_signature pq = expected_signature ssl creds (pq_date pq) (pq_region pq) (pq_amz_date pq)
        (canonical_request req (pq_signed_headers_list pq) ''UNSIGNED-PAYLOAD'' True))"
  using assms
  by (auto simp: verify_sigv4_def verify_with_parts_iff auth_fail_def split: option.splits if_splits)

theorem sigv4_sound_witness:
  "(\<exists>ah. parse_authorization_sigv4 demo_ssl (demo_signed ''GET'' ''/a'' []) = Some ah \<and> ah_access_key ah = ''AKID'') \<or>
   (\<exists>pq. parse_presigned (demo_signed ''GET'' ''/a'' []) = Some pq \<and> pq_access_key pq = ''AKID'')"
proof -
  have "auth_ok (verify_sigv4 demo_ssl (demo_signed ''GET'' ''/a'' []) Mode_SigV4 demo_creds)"
    by (simp add: demo_signed_accepted auth_accept_def)
  from sigv4_sound [OF this] show ?thesis by (auto simp: demo_creds_def)
qed

text \<open>
  C18: A signature binds what it signs: when two accepted requests carry the same signature in
  their \<open>Authorization\<close> headers, and neither the HMAC nor SHA-256 collides on them, they have the
  same method, the same canonical path, the same query parameters and the same payload hash.
\<close>

theorem sigv4_binds_request:
  assumes "auth_ok (verify_sigv4 ssl req Mode_SigV4 creds)" "auth_ok (verify_sigv4 ssl req' Mode_SigV4 creds)"
    and "parse_authorization_sigv4 ssl req = Some ah" "parse_authorization_sigv4 ssl req' = Some ah'"
    and "ah_signature ah = ah_signature ah'"
    and c: "c = canonical_request req (ah_signed_headers_list ah) (ah_payload_hash ah) False"
    and c': "c' = canonical_request req' (ah_signed_headers_list ah') (ah_payload_hash ah') False"
    and t: "t = string_to_sign ssl (ah_amz_date ah) (ah_date ah) (ah_region ah) ''s3'' c"
    and t': "t' = string_to_sign ssl (ah_amz_date ah') (ah_date ah') (ah_region ah') ''s3'' c'"
    and no_mac_collision:
      "hmac_sha256 ssl (derive_signing_key ssl (cr_secret_key creds) (ah_date ah) (ah_region ah) ''s3'') t =
       hmac_sha256 ssl (derive_signing_key ssl (cr_secret_key creds) (ah_date ah') (ah_region ah') ''s3'') t' \<Longrightarrow> t = t'"
    and no_hash_collision: "sha256_bin ssl c = sha256_bin ssl c' \<Longrightarrow> c = c'"
    and lines: "CHR 0x0A \<notin> set (rq_method req)" "CHR 0x0A \<notin> set (rq_method req')"
      "CHR 0x0A \<notin> set (ah_payload_hash ah)" "CHR 0x0A \<notin> set (ah_payload_hash ah')"
  shows "rq_method req = rq_method req' \<and>
    canonical_uri (fst (sig_parse_target (rq_target req))) = canonical_uri (fst (sig_parse_target (rq_target req'))) \<and>
    mset (parse_query (snd (sig_parse_target (rq_target req)))) = mset (parse_query (snd (sig_parse_target (rq_target req')))) \<and>
    ah_payload_hash ah = ah_payload_hash ah'"
proof -
  have "ah_signature ah = expected_signature ssl creds (ah_date ah) (ah_region ah) (ah_amz_date ah) c"
    "ah_signature ah' = expected_signature ssl creds (ah_date ah') (ah_region ah') (ah_amz_date ah') c'"
    using assms(1-4) c c' by (auto simp: verify_sigv4_def verify_with_parts_iff auth_fail_def split: if_splits)
  with assms(5) t t' no_mac_collision have "t = t'"
    by (simp add: expected_signature_def hex_lower_inject)
  with t t' no_hash_collision have "c = c'" using string_to_sign_inject by blast
  then have eq: "canonical_request req (ah_signed_headers_list ah) (ah_payload_hash ah) False =
      canonical_request req' (ah_signed_headers_list ah') (ah_payload_hash ah') False" by (simp add: c c')
  have "sort (parse_query (snd (sig_parse_target (rq_target req)))) = sort (parse_query (snd (sig_parse_target (rq_target req'))))"
    using canonical_request_inject [OF eq lines]
      parse_canonical [of "parse_query (snd (sig_parse_target (rq_target req)))" None]
      parse_canonical [of "parse_query (snd (sig_parse_target (rq_target req')))" None] by simp
  then have "mset (parse_query (snd (sig_parse_target (rq_target req)))) = mset (parse_query (snd (sig_parse_target (rq_target req'))))"
    by (metis mset_sort)
  with canonical_request_inject [OF eq lines] show ?thesis by simp
qed

theorem sigv4_binds_request_witness:
  "\<exists>ah ah'. parse_authorization_sigv4 demo_ssl (demo_signed ''GET'' ''/a'' ''x'') = Some ah \<and>
     parse_authorization_sigv4 demo_ssl ((demo_signed ''GET'' ''/a'' ''x'')\<lparr>rq_body := ''y''\<rparr>) = Some ah' \<and>
     ah_payload_hash ah = ah_payload_hash ah'"
proof -
  let ?r = "demo_signed ''GET'' ''/a'' ''x''"
  have find: "rq_find ?r ''x-amz-content-sha256'' = Some ''UNSIGNED-PAYLOAD''"
    by (simp add: demo_signed_def demo_request_def Let_def)
  note irr = body_irrelevant [OF find, where body = "''y''"]
  obtain ah where ah: "parse_authorization_sigv4 demo_ssl ?r = Some ah"
    using demo_signed_parses by blast
  have pl: "ah_payload_hash ah = ''UNSIGNED-PAYLOAD''"
    using demo_signed_parses [of "''GET''" "''/a''" "''x''"] ah by simp
  have ok: "auth_ok (verify_sigv4 demo_ssl ?r Mode_SigV4 demo_creds)"
    "auth_ok (verify_sigv4 demo_ssl (?r\<lparr>rq_body := ''y''\<rparr>) Mode_SigV4 demo_creds)"
    using demo_signed_accepted [of "''GET''" "''/a''" "''x''"]
    unfolding verify_sigv4_def verify_with_parts_def irr by (simp_all add: auth_accept_def)
  have "ah_payload_hash ah = ah_payload_hash ah"
    using sigv4_binds_request [OF ok ah irr(2) [of demo_ssl, unfolded ah] refl refl refl refl refl] irr(1)
    by (simp add: pl demo_signed_def demo_request_def Let_def)
  then show ?thesis using ah irr(2) [of demo_ssl] by auto
qed

text \<open>
  C32: When the header \<open>x-amz-content-sha256\<close> is present, the answer does not depend on the body:
  the body is never compared with the signed hash, so it can be exchanged under a valid signature.
\<close>

theorem sigv4_ignores_body:
  assumes "rq_find req ''x-amz-content-sha256'' = Some h"
  shows "verify_sigv4 ssl (req\<lparr>rq_body := body\<rparr>) mode creds = verify_sigv4 ssl req mode creds"
  unfolding verify_sigv4_def verify_with_parts_def body_irrelevant [OF assms] by (rule refl)

theorem sigv4_ignores_body_witness:
  "verify_sigv4 demo_ssl ((demo_signed ''PUT'' ''/pc/obj'' ''good'')\<lparr>rq_body := ''evil''\<rparr>) Mode_SigV4 demo_creds = auth_accept"
proof -
  have h: "rq_find (demo_signed ''PUT'' ''/pc/obj'' ''good'') ''x-amz-content-sha256'' = Some ''UNSIGNED-PAYLOAD''"
    by (simp add: demo_signed_def demo_request_def Let_def)
  show ?thesis unfolding sigv4_ignores_body [OF h] by (rule demo_signed_accepted)
qed

end
