(* ===== verification/Calendar.thy ===== *)
theory Calendar
  imports Prelude
begin

text \<open>
  The time texts of the gateway: \<open>util::rfc1123_gmt\<close> (the \<open>Last-Modified\<close> header) and
  \<open>iso8601_gmt\<close> of \<open>s3_api.cpp\<close> (the listings).  \<open>gmtime_r\<close> is the proleptic Gregorian calendar:
  the year is the one whose first day is the last not after the given day, the month is found by
  counting off the months' lengths.  When the year does not fit an \<open>int\<close>, \<open>gmtime_r\<close> fails and
  leaves the zeroed \<open>tm\<close>.

  The lemmas show that the broken-down time is in range and denotes the second it was made from,
  so different times print differently.
\<close>

record tm =
  tm_sec :: int
  tm_min :: int
  tm_hour :: int
  tm_mday :: int
  tm_mon :: int
  tm_year :: int
  tm_wday :: int

definition leap_year :: "int \<Rightarrow> bool" where
  "leap_year y \<longleftrightarrow> y mod 4 = 0 \<and> (y mod 100 \<noteq> 0 \<or> y mod 400 = 0)"

text \<open>Days from 1970-01-01 to the first of January.\<close>

definition days_before_year :: "int \<Rightarrow> int" where
  "days_before_year y = 365 * (y - 1970) + ((y - 1) div 4 - (y - 1) div 100 + (y - 1) div 400 - 477)"

definition month_days :: "int \<Rightarrow> int list" where
  "month_days y = [31, if leap_year y then 29 else 28, 31, 30, 31, 30, 31, 31, 30, 31, 30, 31]"

lemma div_step:
  fixes y k :: int
  assumes "0 < k"
  shows "y div k = (y - 1) div k + (if y mod k = 0 then 1 else 0)"
proof (cases "y mod k = 0")
  case True
  then obtain q where q: "y = k * q" by auto
  have "(k * q - 1) div k = q - 1"
    using assms by (intro int_div_pos_eq [of _ _ _ "k - 1"]) (simp_all add: algebra_simps)
  with True q assms show ?thesis by simp
next
  case False
  define q r where "q = y div k" and "r = y mod k"
  have y: "y = k * q + r" by (simp add: q_def r_def)
  have "0 < r" "r < k" using False assms pos_mod_sign [of k y] pos_mod_bound [of k y] by (auto simp: r_def less_le)
  then have "(y - 1) div k = q" by (intro int_div_pos_eq [of _ _ _ "r - 1"]) (simp_all add: y)
  with False show ?thesis by (simp add: q_def)
qed

lemma days_before_year_Suc: "days_before_year (y + 1) = days_before_year y + (if leap_year y then 366 else 365)"
proof -
  define a b c where "a = (y - 1) div 4" and "b = (y - 1) div 100" and "c = (y - 1) div 400"
  define P Q S where "P \<longleftrightarrow> y mod 4 = 0" and "Q \<longleftrightarrow> y mod 100 = 0" and "S \<longleftrightarrow> y mod 400 = 0"
  have "y div 4 = a + (if P then 1 else 0)" "y div 100 = b + (if Q then 1 else 0)"
    "y div 400 = c + (if S then 1 else 0)"
    unfolding a_def b_def c_def P_def Q_def S_def by (rule div_step; simp)+
  moreover have "Q \<Longrightarrow> P" "S \<Longrightarrow> Q"
    unfolding P_def Q_def S_def mod_eq_0_iff_dvd by (rule dvd_trans [rotated], assumption, simp)+
  ultimately show ?thesis
    unfolding days_before_year_def leap_year_def add_diff_cancel_right' a_def [symmetric] b_def [symmetric]
      c_def [symmetric] P_def [symmetric] Q_def [symmetric] S_def [symmetric]
    by (cases P; cases Q; cases S) simp_all
qed

lemma days_before_year_1970 [simp]: "days_before_year 1970 = 0"
  by (simp add: days_before_year_def)

lemma days_before_year_up: "days_before_year (1970 + int q) \<le> 366 * int q"
proof (induction q)
  case (Suc q)
  then show ?case using days_before_year_Suc [of "1970 + int q"] by (simp add: ac_simps split: if_splits)
qed simp

lemma days_before_year_down: "days_before_year (1970 - int q) \<le> - 365 * int q"
proof (induction q)
  case (Suc q)
  then show ?case using days_before_year_Suc [of "1970 - int (Suc q)"] by (simp split: if_splits)
qed simp

section \<open>Broken-down time\<close>

text \<open>The year of a day, searched upwards from a year that is not too late.\<close>

function find_year :: "int \<Rightarrow> int \<Rightarrow> int" where
  "find_year n y = (if n < days_before_year (y + 1) then y else find_year n (y + 1))"
  by pat_completeness auto
termination
  by (relation "measure (\<lambda>(n, y). nat (n - days_before_year y + 1))")
    (auto simp: days_before_year_Suc split: if_splits)

declare find_year.simps [simp del]

definition year_of :: "int \<Rightarrow> int" where
  "year_of n = find_year n (1970 + (if 0 \<le> n then n div 366 else n div 365))"

text \<open>The month and the day of the month, counted from zero.\<close>

fun find_month :: "int \<Rightarrow> int list \<Rightarrow> int \<times> int" where
  "find_month d [] = (0, d)"
| "find_month d (m # ms) = (if d < m then (0, d) else let (i, r) = find_month (d - m) ms in (i + 1, r))"

definition zero_tm :: tm where
  "zero_tm = \<lparr>tm_sec = 0, tm_min = 0, tm_hour = 0, tm_mday = 0, tm_mon = 0, tm_year = 0, tm_wday = 0\<rparr>"

definition gmtime :: "int \<Rightarrow> tm" where
  "gmtime t =
     (let n = t div 86400; s = t mod 86400; y = year_of n;
          (mon, day) = find_month (n - days_before_year y) (month_days y)
      in if in_i32 (y - 1900)
         then \<lparr>tm_sec = s mod 60, tm_min = s div 60 mod 60, tm_hour = s div 3600, tm_mday = day + 1,
               tm_mon = mon, tm_year = y - 1900, tm_wday = (n + 4) mod 7\<rparr>
         else zero_tm)"

section \<open>Texts\<close>

definition two_digits :: "int \<Rightarrow> string" where
  "two_digits i = pad_left 2 (CHR ''0'') (nat_to_dec (nat i))"

definition day_names :: "string list" where
  "day_names = [''Sun'', ''Mon'', ''Tue'', ''Wed'', ''Thu'', ''Fri'', ''Sat'']"

definition month_names :: "string list" where
  "month_names = [''Jan'', ''Feb'', ''Mar'', ''Apr'', ''May'', ''Jun'', ''Jul'', ''Aug'', ''Sep'', ''Oct'', ''Nov'', ''Dec'']"

definition clock_text :: "tm \<Rightarrow> string" where
  "clock_text gm = two_digits (tm_hour gm) @ '':'' @ two_digits (tm_min gm) @ '':'' @ two_digits (tm_sec gm)"

definition rfc1123_gmt :: "int \<Rightarrow> string" where
  "rfc1123_gmt epoch_seconds =
     (let gm = gmtime epoch_seconds
      in day_names ! nat (tm_wday gm) @ '', '' @ two_digits (tm_mday gm) @ '' '' @ month_names ! nat (tm_mon gm)
           @ '' '' @ to_string (tm_year gm + 1900) @ '' '' @ clock_text gm @ '' GMT'')"

definition iso8601_gmt :: "int \<Rightarrow> string" where
  "iso8601_gmt epoch_seconds =
     (let gm = gmtime epoch_seconds
      in to_string (tm_year gm + 1900) @ ''-'' @ two_digits (tm_mon gm + 1) @ ''-'' @ two_digits (tm_mday gm)
           @ ''T'' @ clock_text gm @ ''.000Z'')"

section \<open>Lemmas\<close>

lemma find_year_bounds:
  "days_before_year y \<le> n \<Longrightarrow> days_before_year (find_year n y) \<le> n \<and> n < days_before_year (find_year n y + 1)"
proof (induction n y rule: find_year.induct)
  case (1 n y)
  then show ?case by (subst (1 2) find_year.simps) auto
qed

lemma year_of_bounds: "days_before_year (year_of n) \<le> n \<and> n < days_before_year (year_of n + 1)"
  unfolding year_of_def
proof (rule find_year_bounds)
  show "days_before_year (1970 + (if 0 \<le> n then n div 366 else n div 365)) \<le> n"
  proof (cases "0 \<le> n")
    case True
    then have "0 \<le> n div 366" by (simp add: pos_imp_zdiv_nonneg_iff)
    moreover have "366 * (n div 366) \<le> n" using div_mult_mod_eq [of n 366] pos_mod_sign [of 366 n] by linarith
    ultimately show ?thesis using True days_before_year_up [of "nat (n div 366)"] by simp
  next
    case False
    then have "n div 365 < 0" by (simp add: pos_imp_zdiv_neg_iff)
    moreover have "365 * (n div 365) \<le> n" using div_mult_mod_eq [of n 365] pos_mod_sign [of 365 n] by linarith
    ultimately show ?thesis using False days_before_year_down [of "nat (- (n div 365))"] by simp
  qed
qed

lemma find_month_spec:
  assumes "0 \<le> d" "d < sum_list ms" "find_month d ms = (i, r)"
  shows "0 \<le> i \<and> i < int (length ms) \<and> 0 \<le> r \<and> r < ms ! nat i \<and> d = sum_list (take (nat i) ms) + r"
  using assms
proof (induction ms arbitrary: d i)
  case (Cons m ms)
  show ?case
  proof (cases "d < m")
    case True
    with Cons.prems show ?thesis by auto
  next
    case False
    with Cons.prems obtain j where j: "find_month (d - m) ms = (j, r)" "i = j + 1"
      by (auto split: prod.splits)
    with Cons.IH [of "d - m" j] Cons.prems False show ?thesis
      by (auto simp: nat_add_distrib)
  qed
qed simp

lemma sum_month_days: "sum_list (month_days y) = (if leap_year y then 366 else 365)"
  by (simp add: month_days_def)

text \<open>The second a broken-down time denotes.\<close>

definition timegm :: "tm \<Rightarrow> int" where
  "timegm gm =
     86400 * (days_before_year (tm_year gm + 1900)
              + sum_list (take (nat (tm_mon gm)) (month_days (tm_year gm + 1900))) + (tm_mday gm - 1))
       + 3600 * tm_hour gm + 60 * tm_min gm + tm_sec gm"

definition tm_ok :: "tm \<Rightarrow> bool" where
  "tm_ok gm \<longleftrightarrow>
     0 \<le> tm_sec gm \<and> tm_sec gm < 60 \<and> 0 \<le> tm_min gm \<and> tm_min gm < 60 \<and> 0 \<le> tm_hour gm \<and> tm_hour gm < 24 \<and>
     0 \<le> tm_mon gm \<and> tm_mon gm < 12 \<and> 0 \<le> tm_wday gm \<and> tm_wday gm < 7 \<and>
     1 \<le> tm_mday gm \<and> tm_mday gm \<le> month_days (tm_year gm + 1900) ! nat (tm_mon gm)"

definition year_in_range :: "int \<Rightarrow> bool" where
  "year_in_range t \<longleftrightarrow> in_i32 (year_of (t div 86400) - 1900)"

lemma clock_split:
  fixes s :: int
  shows "3600 * (s div 3600) + 60 * (s div 60 mod 60) + s mod 60 = s"
proof -
  have "s div 3600 = s div 60 div 60" by (simp add: zdiv_zmult2_eq [symmetric])
  moreover have "60 * (s div 60 div 60) + s div 60 mod 60 = s div 60" "60 * (s div 60) + s mod 60 = s"
    by (simp_all add: mult_div_mod_eq)
  ultimately show ?thesis by linarith
qed

lemma int_div_less_24: "s < 86400 \<Longrightarrow> s div 3600 < (24 :: int)"
  using div_mult_mod_eq [of s 3600] pos_mod_sign [of 3600 s] by linarith

lemma gmtime_spec:
  assumes "year_in_range t"
  shows "tm_ok (gmtime t) \<and> timegm (gmtime t) = t"
proof -
  define n s y where "n = t div 86400" and "s = t mod 86400" and "y = year_of n"
  obtain mon day where md: "find_month (n - days_before_year y) (month_days y) = (mon, day)" by fastforce
  have "days_before_year y \<le> n" "n < days_before_year (y + 1)" using year_of_bounds [of n] by (simp_all add: y_def)
  then have m: "0 \<le> mon" "mon < 12" "0 \<le> day" "day < month_days y ! nat mon"
    "n - days_before_year y = sum_list (take (nat mon) (month_days y)) + day"
    using find_month_spec [OF _ _ md] sum_month_days [of y] days_before_year_Suc [of y]
    by (simp_all add: month_days_def split: if_splits)
  have s: "0 \<le> s" "s < 86400" "t = 86400 * n + s" by (simp_all add: s_def n_def)
  then have h: "0 \<le> s div 3600" "s div 3600 < 24"
    by (simp_all add: pos_imp_zdiv_nonneg_iff int_div_less_24)
  have g: "gmtime t = \<lparr>tm_sec = s mod 60, tm_min = s div 60 mod 60, tm_hour = s div 3600, tm_mday = day + 1,
      tm_mon = mon, tm_year = y - 1900, tm_wday = (n + 4) mod 7\<rparr>"
    using assms md by (simp add: gmtime_def year_in_range_def Let_def n_def [symmetric] s_def [symmetric] y_def [symmetric])
  have "tm_ok (gmtime t)" using m h by (simp add: g tm_ok_def)
  moreover have "timegm (gmtime t) = 86400 * n + (3600 * (s div 3600) + 60 * (s div 60 mod 60) + s mod 60)"
    using m(5) unfolding g timegm_def by (simp add: algebra_simps)
  then have "timegm (gmtime t) = t" using s(3) clock_split [of s] by simp
  ultimately show ?thesis ..
qed

section \<open>Properties\<close>

text \<open>
  For every time whose year an \<open>int\<close> can hold, the broken-down time is in range (the day does
  not exceed the month's length, 29 in February of leap years only) and denotes that very second.
\<close>

theorem gmtime_roundtrip:
  assumes "year_in_range t"
  shows "tm_ok (gmtime t) \<and> timegm (gmtime t) = t"
  using gmtime_spec [OF assms] .

lemma year_in_range_2024: "year_in_range 1709210096"
  by code_simp

theorem gmtime_roundtrip_witness:
  "timegm (gmtime 1709210096) = 1709210096 \<and> rfc1123_gmt 1709210096 = ''Thu, 29 Feb 2024 12:34:56 GMT''"
proof
  show "timegm (gmtime 1709210096) = 1709210096"
    using gmtime_roundtrip [OF year_in_range_2024] by simp
  show "rfc1123_gmt 1709210096 = ''Thu, 29 Feb 2024 12:34:56 GMT''"
    by code_simp
qed

end
