(* ===== verification/S3Api.thy ===== *)
theory S3Api
  imports Listing Sigv4 Calendar
begin

text \<open>
  The gateway's \<open>s3_api.hpp\<close> and \<open>s3_api.cpp\<close>: the S3 requests over the object store, in the order
  of the file.  \<open>Api::handle\<close> is composed of its parts: the guards, the service (\<open>GET /\<close>), the
  bucket requests and the object requests.  The state is the store's world and the request counter;
  the static atomic wraps at 64 bits.  Status codes are their numbers.

  The properties say what each request answers and does: the ranges of a \<open>GET\<close>, that a request
  that is refused changes nothing, that a \<open>PUT\<close> is read back by \<open>GET\<close> and \<open>HEAD\<close>, and that no
  text of a client can break out of the XML.
\<close>

record s3_config =
  cfg_auth_mode :: Mode
  cfg_creds :: Credentials
  cfg_virtual_host_suffix :: string
  cfg_max_object_bytes :: nat

record 'db gateway =
  gw_world :: "'db world"
  gw_reqid :: "64 word"

definition new_request_id :: "64 word \<Rightarrow> string \<times> 64 word" where
  "new_request_id g_reqid = (nat_to_hex (unat g_reqid), g_reqid + 1)"

definition xml_escape_char :: "char \<Rightarrow> string" where
  "xml_escape_char c =
     (if c = CHR ''&'' then ''&amp;''
      else if c = CHR ''<'' then ''&lt;''
      else if c = CHR ''>'' then ''&gt;''
      else if c = CHR 0x22 then ''&quot;''
      else if c = CHR 0x27 then ''&apos;''
      else [c])"

definition xml_escape :: "string \<Rightarrow> string" where
  "xml_escape s = concat (map xml_escape_char s)"

section \<open>Targets\<close>

record ParsedTarget =
  pt_bucket :: string
  pt_key :: string
  pt_path :: string
  pt_query :: string
  pt_query_params :: "(string \<times> string) list"

definition host_without_port :: "string \<Rightarrow> string" where
  "host_without_port host = (case find_char (CHR '':'') host of None \<Rightarrow> host | Some colon \<Rightarrow> take colon host)"

definition bucket_from_host :: "string \<Rightarrow> string \<Rightarrow> string option" where
  "bucket_from_host host sfx =
     (if sfx = [] then None
      else
        let h = host_without_port host in
        if length h \<le> length sfx then None
        else if drop (length h - length sfx) h \<noteq> sfx then None
        else
          let dotpos = length h - length sfx in
          if dotpos = 0 \<or> h ! (dotpos - 1) \<noteq> CHR ''.'' then None
          else
            let bucket = take (dotpos - 1) h in
            if bucket = [] then None else Some bucket)"

definition drop_slash :: "string \<Rightarrow> string" where
  "drop_slash p = (if p \<noteq> [] \<and> hd p = CHR ''/'' then tl p else p)"

definition api_parse_target :: "Request \<Rightarrow> string \<Rightarrow> ParsedTarget" where
  "api_parse_target req vhost_suffix =
     (let target = rq_target req;
          (path, query) =
            (case find_char (CHR ''?'') target of
               None \<Rightarrow> (target, [])
             | Some q \<Rightarrow> (take q target, drop (Suc q) target));
          path = (if path = [] then ''/'' else path);
          pt = \<lparr>pt_bucket = [], pt_key = [], pt_path = path, pt_query = query,
                pt_query_params = parse_query query\<rparr>;
          host = (case rq_find req ''Host'' of Some h \<Rightarrow> h | None \<Rightarrow> [])
      in case bucket_from_host host vhost_suffix of
           Some bh \<Rightarrow> pt\<lparr>pt_bucket := bh, pt_key := decode_or_raw (drop_slash path)\<rparr>
         | None \<Rightarrow>
             let p = drop_slash path in
             if p = [] then pt
             else
               let slash = find_char (CHR ''/'') p;
                   bucket_enc = (case slash of None \<Rightarrow> p | Some i \<Rightarrow> take i p);
                   key_enc = (case slash of None \<Rightarrow> [] | Some i \<Rightarrow> drop (Suc i) p)
               in pt\<lparr>pt_bucket := decode_or_raw bucket_enc, pt_key := decode_or_raw key_enc\<rparr>)"

definition qp_get :: "ParsedTarget \<Rightarrow> string \<Rightarrow> string option" where
  "qp_get pt key = query_get (pt_query_params pt) key"

section \<open>Responses\<close>

definition make_xml_response :: "nat \<Rightarrow> string \<Rightarrow> bool \<Rightarrow> nat \<Rightarrow> Response" where
  "make_xml_response st body_xml keep_alive version =
     (let res = new_Response st version;
          res = set_field ''Server'' ''s3_rocksdb_gateway'' res;
          res = set_field ''Content-Type'' ''application/xml'' res;
          res = res\<lparr>rs_keep_alive := keep_alive\<rparr>;
          res = res\<lparr>rs_body := body_xml\<rparr>
      in res\<lparr>rs_content_length := Some (int (length (rs_body res)))\<rparr>)"

definition make_empty_response :: "nat \<Rightarrow> bool \<Rightarrow> nat \<Rightarrow> Response" where
  "make_empty_response st keep_alive version =
     (set_field ''Server'' ''s3_rocksdb_gateway'' (new_Response st version))
       \<lparr>rs_keep_alive := keep_alive, rs_content_length := Some 0\<rparr>"

definition xml_decl :: string where
  "xml_decl = ''<?xml version='' @ [CHR 0x22] @ ''1.0'' @ [CHR 0x22] @ '' encoding='' @ [CHR 0x22] @ ''UTF-8'' @ [CHR 0x22] @ ''?>''"

definition xmlns :: string where
  "xmlns = '' xmlns='' @ [CHR 0x22] @ ''http://s3.amazonaws.com/doc/2006-03-01/'' @ [CHR 0x22]"

definition s3_error_xml :: "string \<Rightarrow> string \<Rightarrow> string \<Rightarrow> string \<Rightarrow> string" where
  "s3_error_xml code msg resource request_id =
     xml_decl @ ''<Error><Code>'' @ xml_escape code @ ''</Code><Message>'' @ xml_escape msg
       @ ''</Message><Resource>'' @ xml_escape resource @ ''</Resource><RequestId>'' @ xml_escape request_id
       @ ''</RequestId></Error>''"

definition s3_error :: "nat \<Rightarrow> string \<Rightarrow> string \<Rightarrow> string \<Rightarrow> string \<Rightarrow> bool \<Rightarrow> nat \<Rightarrow> Response" where
  "s3_error st code msg resource request_id keep_alive version =
     make_xml_response st (s3_error_xml code msg resource request_id) keep_alive version"

text \<open>\<open>err.find("Invalid continuation-token")\<close>.\<close>

fun contains_str :: "string \<Rightarrow> string \<Rightarrow> bool" where
  "contains_str p [] = (p = [])"
| "contains_str p (c # s) = (starts_with p (c # s) \<or> contains_str p s)"

definition map_storage_error :: "string \<Rightarrow> nat \<times> string" where
  "map_storage_error err =
     (if err = ''NoSuchBucket'' then (404, ''NoSuchBucket'')
      else if err = ''NoSuchKey'' then (404, ''NoSuchKey'')
      else if err = ''BucketNotEmpty'' then (409, ''BucketNotEmpty'')
      else if starts_with ''Invalid'' err then (400, ''InvalidRequest'')
      else if contains_str ''Invalid continuation-token'' err then (400, ''InvalidRequest'')
      else (500, ''InternalError''))"

section \<open>Ranges\<close>

record ByteRange =
  br_start :: int
  br_end :: int

definition parse_single_range :: "string \<Rightarrow> int \<Rightarrow> ByteRange option" where
  "parse_single_range header_val sz =
     (if sz \<le> 0 then None
      else
        let v = trim_and_collapse_ws header_val in
        if \<not> starts_with ''bytes='' v then None
        else
          let v = drop 6 v in
          if find_char (CHR '','') v \<noteq> None then None
          else
            case find_char (CHR ''-'') v of
              None \<Rightarrow> None
            | Some dash \<Rightarrow>
                let left = take dash v; right = drop (Suc dash) v in
                if left = [] then
                  (case from_chars_i64 right of
                     None \<Rightarrow> None
                   | Some sfx \<Rightarrow>
                       if sfx \<le> 0 then None
                       else if sfx \<ge> sz
                       then Some \<lparr>br_start = 0, br_end = (if sz > 0 then sz - 1 else 0)\<rparr>
                       else Some \<lparr>br_start = sz - sfx, br_end = sz - 1\<rparr>)
                else
                  (case from_chars_i64 left of
                     None \<Rightarrow> None
                   | Some start \<Rightarrow>
                       (case (if right \<noteq> [] then from_chars_i64 right
                              else Some (if sz > 0 then sz - 1 else 0)) of
                          None \<Rightarrow> None
                        | Some stop \<Rightarrow>
                            if start < 0 \<or> start \<ge> sz then None
                            else if stop < start then None
                            else Some \<lparr>br_start = start, br_end = (if stop \<ge> sz then sz - 1 else stop)\<rparr>)))"

section \<open>The requests\<close>

text \<open>What every response of one request shares.\<close>

record req_ctx =
  rc_request_id :: string
  rc_keep_alive :: bool
  rc_version :: nat

definition err_response :: "req_ctx \<Rightarrow> nat \<Rightarrow> string \<Rightarrow> string \<Rightarrow> string \<Rightarrow> Response" where
  "err_response rc st code msg resource =
     s3_error st code msg resource (rc_request_id rc) (rc_keep_alive rc) (rc_version rc)"

definition storage_error_response :: "req_ctx \<Rightarrow> string \<Rightarrow> string \<Rightarrow> Response" where
  "storage_error_response rc err resource =
     (let (st, code) = map_storage_error err in err_response rc st code err resource)"

definition bucket_xml :: "string \<Rightarrow> string \<Rightarrow> string" where
  "bucket_xml now b =
     ''<Bucket><Name>'' @ xml_escape b @ ''</Name><CreationDate>'' @ now @ ''</CreationDate></Bucket>''"

definition handle_root :: "'db rocksdb \<Rightarrow> Request \<Rightarrow> ParsedTarget \<Rightarrow> req_ctx \<Rightarrow> 'db world \<Rightarrow> Response \<times> 'db world" where
  "handle_root R req pt rc w =
     (if rq_method req \<noteq> ''GET''
      then (err_response rc 405 ''MethodNotAllowed'' ''Unsupported method'' (pt_path pt), w)
      else
        let (buckets, err, w) = list_buckets R (Some []) w in
        if the err \<noteq> [] then (storage_error_response rc (the err) (pt_path pt), w)
        else
          let (t, w) = unix_now_seconds w;
              now = iso8601_gmt t;
              body = xml_decl @ ''<ListAllMyBucketsResult'' @ xmlns @ ''>''
                       @ ''<Owner><ID></ID><DisplayName></DisplayName></Owner><Buckets>''
                       @ concat (map (bucket_xml now) buckets) @ ''</Buckets></ListAllMyBucketsResult>''
          in (make_xml_response 200 body (rc_keep_alive rc) (rc_version rc), w))"

definition listed_xml :: "ListedObject \<Rightarrow> string" where
  "listed_xml obj =
     ''<Contents><Key>'' @ xml_escape (lo_key obj) @ ''</Key><LastModified>'' @ iso8601_gmt (mtime (lo_meta obj))
       @ ''</LastModified><ETag>'' @ [CHR 0x22] @ xml_escape (etag (lo_meta obj)) @ [CHR 0x22]
       @ ''</ETag><Size>'' @ to_string (osize (lo_meta obj)) @ ''</Size><StorageClass>STANDARD</StorageClass></Contents>''"

definition list_xml :: "string \<Rightarrow> string \<Rightarrow> int \<Rightarrow> string \<Rightarrow> ListResult \<Rightarrow> string" where
  "list_xml bucket pfx max_keys cont lr =
     xml_decl @ ''<ListBucketResult'' @ xmlns @ ''><Name>'' @ xml_escape bucket @ ''</Name><Prefix>'' @ xml_escape pfx
       @ ''</Prefix><MaxKeys>'' @ to_string max_keys @ ''</MaxKeys><KeyCount>'' @ to_string (int (length (lr_objects lr)))
       @ ''</KeyCount><IsTruncated>'' @ (if is_truncated lr then ''true'' else ''false'') @ ''</IsTruncated>''
       @ (if cont \<noteq> [] then ''<ContinuationToken>'' @ xml_escape cont @ ''</ContinuationToken>'' else [])
       @ (if is_truncated lr \<and> next_continuation_token lr \<noteq> []
          then ''<NextContinuationToken>'' @ xml_escape (next_continuation_token lr) @ ''</NextContinuationToken>''
          else [])
       @ concat (map listed_xml (lr_objects lr)) @ ''</ListBucketResult>''"

definition handle_list :: "'md openssl \<Rightarrow> 'db rocksdb \<Rightarrow> ParsedTarget \<Rightarrow> req_ctx \<Rightarrow> 'db world \<Rightarrow> Response \<times> 'db world" where
  "handle_list ssl R pt rc w =
     (let pfx = (case qp_get pt ''prefix'' of Some p \<Rightarrow> p | None \<Rightarrow> []);
          max_keys = (case qp_get pt ''max-keys'' of
                        Some mk \<Rightarrow> (case stoll mk of Some v \<Rightarrow> v | None \<Rightarrow> 1000)
                      | None \<Rightarrow> 1000);
          cont = (case qp_get pt ''continuation-token'' of Some t \<Rightarrow> t | None \<Rightarrow> []);
          (lr, err, w) = list_objects_v2 ssl R (pt_bucket pt) pfx max_keys cont (Some []) w
      in if the err \<noteq> [] then (storage_error_response rc (the err) (pt_path pt), w)
         else (make_xml_response 200 (list_xml (pt_bucket pt) pfx max_keys cont lr) (rc_keep_alive rc) (rc_version rc), w))"

definition handle_bucket ::
  "'md openssl \<Rightarrow> 'db rocksdb \<Rightarrow> Request \<Rightarrow> ParsedTarget \<Rightarrow> req_ctx \<Rightarrow> 'db world \<Rightarrow> Response \<times> 'db world" where
  "handle_bucket ssl R req pt rc w =
     (if rq_method req = ''PUT'' then
        (let (created, err, w) = create_bucket R (pt_bucket pt) (Some []) w in
         if \<not> created then (storage_error_response rc (the err) (pt_path pt), w)
         else (make_empty_response 200 (rc_keep_alive rc) (rc_version rc), w))
      else if rq_method req = ''HEAD'' then
        (let (ex, err, w) = bucket_exists R (pt_bucket pt) (Some []) w in
         if the err \<noteq> [] then (storage_error_response rc (the err) (pt_path pt), w)
         else if \<not> ex
         then (err_response rc 404 ''NoSuchBucket'' ''The specified bucket does not exist'' (pt_path pt), w)
         else (make_empty_response 200 (rc_keep_alive rc) (rc_version rc), w))
      else if rq_method req = ''DELETE'' then
        (let (deleted, err, w) = delete_bucket R (pt_bucket pt) (Some []) w in
         if \<not> deleted
         then (let (st, code) = map_storage_error (the err);
                   msg = (if code = ''BucketNotEmpty'' then ''The bucket you tried to delete is not empty'' else the err)
               in (err_response rc st code msg (pt_path pt), w))
         else (make_empty_response 204 (rc_keep_alive rc) (rc_version rc), w))
      else if rq_method req = ''GET'' then handle_list ssl R pt rc w
      else (err_response rc 405 ''MethodNotAllowed'' ''Unsupported method'' (pt_path pt), w))"

definition quoted :: "string \<Rightarrow> string" where
  "quoted s = [CHR 0x22] @ s @ [CHR 0x22]"

definition handle_put :: "'db rocksdb \<Rightarrow> Request \<Rightarrow> ParsedTarget \<Rightarrow> req_ctx \<Rightarrow> 'db world \<Rightarrow> Response \<times> 'db world" where
  "handle_put R req pt rc w =
     (let ctype = (case rq_find req ''Content-Type'' of Some c \<Rightarrow> c | None \<Rightarrow> ''application/octet-stream'')
      in case put_object R (pt_bucket pt) (pt_key pt) (rq_body req) ctype (Some []) w of
           (None, err, w) \<Rightarrow> (storage_error_response rc (the err) (pt_path pt), w)
         | (Some meta, err, w) \<Rightarrow>
             (let res = new_Response 200 (rc_version rc);
                  res = set_field ''Server'' ''s3_rocksdb_gateway'' res;
                  res = set_field ''ETag'' (quoted (etag meta)) res
              in res\<lparr>rs_keep_alive := rc_keep_alive rc, rs_content_length := Some 0\<rparr>, w))"

definition key_error_response :: "req_ctx \<Rightarrow> string \<Rightarrow> string \<Rightarrow> Response" where
  "key_error_response rc err resource =
     (let (st, code) = map_storage_error err;
          msg = (if code = ''NoSuchKey'' then ''The specified key does not exist'' else err)
      in err_response rc st code msg resource)"

text \<open>The response to a \<open>GET\<close> whose data was read.\<close>

definition get_response :: "Request \<Rightarrow> req_ctx \<Rightarrow> string \<Rightarrow> bytes \<Rightarrow> Response" where
  "get_response req rc resource data =
     (let sz = int (length data);
          ok_response = (\<lambda>range.
            let res = new_Response (if range \<noteq> None then 206 else 200) (rc_version rc);
                res = set_field ''Server'' ''s3_rocksdb_gateway'' res;
                res = set_field ''Content-Type'' ''application/octet-stream'' res;
                res = set_field ''Accept-Ranges'' ''bytes'' res;
                res = res\<lparr>rs_keep_alive := rc_keep_alive rc\<rparr>;
                res = (case range of
                         Some r \<Rightarrow>
                           (let start = nat (br_start r); stop = nat (br_end r);
                                res = set_field ''Content-Range''
                                        (''bytes '' @ to_string (int start) @ ''-'' @ to_string (int stop) @ ''/'' @ to_string sz) res
                            in res\<lparr>rs_body := take (stop + 1 - start) (drop start data)\<rparr>)
                       | None \<Rightarrow> res\<lparr>rs_body := data\<rparr>)
            in res\<lparr>rs_content_length := Some (int (length (rs_body res)))\<rparr>)
      in case rq_find req ''Range'' of
           None \<Rightarrow> ok_response None
         | Some h \<Rightarrow>
             (case parse_single_range h sz of
                None \<Rightarrow>
                  set_field ''Content-Range'' (''bytes */'' @ to_string sz)
                    (err_response rc 416 ''InvalidRange'' ''The requested range is not satisfiable'' resource)
              | Some r \<Rightarrow> ok_response (Some r)))"

definition handle_get :: "'db rocksdb \<Rightarrow> Request \<Rightarrow> ParsedTarget \<Rightarrow> req_ctx \<Rightarrow> 'db world \<Rightarrow> Response \<times> 'db world" where
  "handle_get R req pt rc w =
     (case get_object_data R (pt_bucket pt) (pt_key pt) (Some []) w of
        (None, err, w) \<Rightarrow> (key_error_response rc (the err) (pt_path pt), w)
      | (Some data, err, w) \<Rightarrow> (get_response req rc (pt_path pt) data, w))"

definition handle_head :: "'db rocksdb \<Rightarrow> Request \<Rightarrow> ParsedTarget \<Rightarrow> req_ctx \<Rightarrow> 'db world \<Rightarrow> Response \<times> 'db world" where
  "handle_head R req pt rc w =
     (case head_object R (pt_bucket pt) (pt_key pt) (Some []) w of
        (None, err, w) \<Rightarrow> (key_error_response rc (the err) (pt_path pt), w)
      | (Some meta, err, w) \<Rightarrow>
          (let res = new_Response 200 (rc_version rc);
               res = set_field ''Server'' ''s3_rocksdb_gateway'' res;
               res = set_field ''Content-Type''
                       (if content_type meta = [] then ''application/octet-stream'' else content_type meta) res;
               res = set_field ''ETag'' (quoted (etag meta)) res;
               res = set_field ''Last-Modified'' (rfc1123_gmt (mtime meta)) res;
               res = set_field ''Accept-Ranges'' ''bytes'' res
           in res\<lparr>rs_keep_alive := rc_keep_alive rc, rs_content_length := Some (osize meta mod 2 ^ 64)\<rparr>, w))"

definition handle_delete :: "'db rocksdb \<Rightarrow> Request \<Rightarrow> ParsedTarget \<Rightarrow> req_ctx \<Rightarrow> 'db world \<Rightarrow> Response \<times> 'db world" where
  "handle_delete R req pt rc w =
     (let (deleted, err, w) = delete_object R (pt_bucket pt) (pt_key pt) (Some []) w in
      if \<not> deleted then (storage_error_response rc (the err) (pt_path pt), w)
      else (make_empty_response 204 (rc_keep_alive rc) (rc_version rc), w))"

definition handle_object :: "'db rocksdb \<Rightarrow> Request \<Rightarrow> ParsedTarget \<Rightarrow> req_ctx \<Rightarrow> 'db world \<Rightarrow> Response \<times> 'db world" where
  "handle_object R req pt rc w =
     (if pt_key pt = [] then (err_response rc 400 ''InvalidRequest'' ''Missing key'' (pt_path pt), w)
      else if rq_method req = ''PUT'' then handle_put R req pt rc w
      else if rq_method req = ''GET'' then handle_get R req pt rc w
      else if rq_method req = ''HEAD'' then handle_head R req pt rc w
      else if rq_method req = ''DELETE'' then handle_delete R req pt rc w
      else (err_response rc 405 ''MethodNotAllowed'' ''Unsupported method'' (pt_path pt), w))"

definition handle ::
  "'md openssl \<Rightarrow> 'db rocksdb \<Rightarrow> s3_config \<Rightarrow> Request \<Rightarrow> 'db gateway \<Rightarrow> Response \<times> 'db gateway" where
  "handle ssl R cfg req g =
     (let (request_id, reqid) = new_request_id (gw_reqid g);
          g = g\<lparr>gw_reqid := reqid\<rparr>;
          rc = \<lparr>rc_request_id = request_id, rc_keep_alive = rq_keep_alive req, rc_version = rq_version req\<rparr>;
          ar = verify_sigv4 ssl req (cfg_auth_mode cfg) (cfg_creds cfg)
      in if \<not> auth_ok ar then
           (err_response rc 403 (if error_code ar = [] then ''AccessDenied'' else error_code ar)
              (if error_message ar = [] then ''Access denied'' else error_message ar) (rq_target req), g)
         else if rq_method req = ''PUT'' \<and> length (rq_body req) > cfg_max_object_bytes cfg then
           (err_response rc 413 ''EntityTooLarge'' ''Object too large'' (rq_target req), g)
         else
           let pt = api_parse_target req (cfg_virtual_host_suffix cfg);
               (res, w) = (if pt_bucket pt = [] then handle_root R req pt rc (gw_world g)
                           else if pt_key pt = [] then handle_bucket ssl R req pt rc (gw_world g)
                           else handle_object R req pt rc (gw_world g))
           in (res, g\<lparr>gw_world := w\<rparr>))"

section \<open>Lemmas: responses\<close>

lemma make_xml_response_sel [simp]:
  "rs_status (make_xml_response st b k v) = st" "rs_body (make_xml_response st b k v) = b"
  "rs_content_length (make_xml_response st b k v) = Some (int (length b))"
  "rs_keep_alive (make_xml_response st b k v) = k" "rs_version (make_xml_response st b k v) = v"
  by (simp_all add: make_xml_response_def)

lemma make_empty_response_sel [simp]:
  "rs_status (make_empty_response st k v) = st" "rs_body (make_empty_response st k v) = []"
  "rs_content_length (make_empty_response st k v) = Some 0"
  "rs_keep_alive (make_empty_response st k v) = k" "rs_version (make_empty_response st k v) = v"
  by (simp_all add: make_empty_response_def)

lemma err_response_sel [simp]:
  "rs_status (err_response rc st c m r) = st"
  "rs_body (err_response rc st c m r) = s3_error_xml c m r (rc_request_id rc)"
  "rs_content_length (err_response rc st c m r) = Some (int (length (s3_error_xml c m r (rc_request_id rc))))"
  "rs_keep_alive (err_response rc st c m r) = rc_keep_alive rc" "rs_version (err_response rc st c m r) = rc_version rc"
  by (simp_all add: err_response_def s3_error_def)

text \<open>A response whose declared length is that of its body, for the protocol version and connection of the request.\<close>

definition framed :: "req_ctx \<Rightarrow> Response \<Rightarrow> bool" where
  "framed rc res \<longleftrightarrow> rs_content_length res = Some (int (length (rs_body res))) \<and>
     rs_keep_alive res = rc_keep_alive rc \<and> rs_version res = rc_version rc"

lemma framed_simps [simp]:
  "framed rc (make_xml_response st b (rc_keep_alive rc) (rc_version rc))"
  "framed rc (make_empty_response st (rc_keep_alive rc) (rc_version rc))"
  "framed rc (err_response rc st c m r)" "framed rc (storage_error_response rc e r)"
  "framed rc (key_error_response rc e r)" "framed rc (set_field n v res) = framed rc res"
  by (simp_all add: framed_def storage_error_response_def key_error_response_def split_beta Let_def)

lemma error_response_sel [simp]:
  "rs_keep_alive (storage_error_response rc e r) = rc_keep_alive rc" "rs_version (storage_error_response rc e r) = rc_version rc"
  "rs_keep_alive (key_error_response rc e r) = rc_keep_alive rc" "rs_version (key_error_response rc e r) = rc_version rc"
  by (simp_all add: storage_error_response_def key_error_response_def split_beta Let_def)

lemma framed_get_response: "framed rc (get_response req rc r data)"
  by (auto simp: get_response_def Let_def framed_def split: option.splits)

section \<open>Lemmas: ranges\<close>

lemma range_bounds:
  "parse_single_range h sz = Some r \<Longrightarrow> 0 \<le> br_start r \<and> br_start r \<le> br_end r \<and> br_end r < sz"
  by (auto simp: parse_single_range_def Let_def split: if_splits option.splits)

text \<open>The headers a client writes.\<close>

definition range_header :: "string \<Rightarrow> string \<Rightarrow> string" where
  "range_header l r = ''bytes='' @ l @ ''-'' @ r"

definition digits :: "string \<Rightarrow> bool" where
  "digits s \<longleftrightarrow> list_all isdigit s"

lemma digits_Nil: "digits []"
  by (simp add: digits_def)

lemma isdigit_not_space: "isdigit c \<Longrightarrow> \<not> isspace c \<and> c \<noteq> CHR '','' \<and> c \<noteq> CHR ''-''"
  by (auto simp: isdigit_def isspace_def)

lemma parse_range_header:
  assumes "digits l" "digits r" "0 < sz"
  shows "parse_single_range (range_header l r) sz =
    (if l = [] then
       (case from_chars_i64 r of
          None \<Rightarrow> None
        | Some n \<Rightarrow> if n \<le> 0 then None else Some \<lparr>br_start = max 0 (sz - n), br_end = sz - 1\<rparr>)
     else
       (case (from_chars_i64 l, if r = [] then Some (sz - 1) else from_chars_i64 r) of
          (Some a, Some b) \<Rightarrow>
            if 0 \<le> a \<and> a < sz \<and> a \<le> b then Some \<lparr>br_start = a, br_end = min b (sz - 1)\<rparr> else None
        | _ \<Rightarrow> None))"
proof -
  have "list_all (\<lambda>c. \<not> isspace c) (range_header l r)"
    using assms(1,2) isdigit_not_space by (auto simp: range_header_def digits_def list_all_iff isspace_def)
  then have n: "trim_and_collapse_ws (range_header l r) = range_header l r"
    by (rule trim_and_collapse_no_ws)
  have d: "CHR ''-'' \<notin> set l" "CHR '','' \<notin> set (l @ CHR ''-'' # r)"
    using assms(1,2) isdigit_not_space by (auto simp: digits_def list_all_iff)
  have st: "starts_with ''bytes='' (range_header l r)" "drop 6 (range_header l r) = l @ CHR ''-'' # r"
    by (simp_all add: range_header_def starts_with_def)
  have f: "find_char (CHR '','') (l @ CHR ''-'' # r) = None" "find_char (CHR ''-'') (l @ CHR ''-'' # r) = Some (length l)"
    using d by simp_all
  show ?thesis
  proof (cases "l = []")
    case True
    show ?thesis
      unfolding parse_single_range_def n Let_def st f
      using assms(3) True st(1) by (cases "from_chars_i64 r") simp_all
  next
    case False
    show ?thesis
      unfolding parse_single_range_def n Let_def st f
      using assms(3) False st(1) by (cases "from_chars_i64 l"; cases "from_chars_i64 r"; cases "r = []") (simp_all add: min_def)
  qed
qed

lemma from_chars_digits: "in_i64 a \<Longrightarrow> from_chars_i64 (to_string a) = Some a"
  using from_chars_to_string [of a "[]"] by simp

lemma digits_to_string: "0 \<le> a \<Longrightarrow> digits (to_string a)"
  using nat_to_dec_digits [of "nat a"] by (simp add: digits_def to_string_def)

section \<open>Lemmas: XML text\<close>

text \<open>The reader's side of the escapes.\<close>

fun xml_unescape :: "string \<Rightarrow> string" where
  "xml_unescape [] = []"
| "xml_unescape (c # s) =
     (if starts_with ''&amp;'' (c # s) then CHR ''&'' # xml_unescape (drop 4 s)
      else if starts_with ''&lt;'' (c # s) then CHR ''<'' # xml_unescape (drop 3 s)
      else if starts_with ''&gt;'' (c # s) then CHR ''>'' # xml_unescape (drop 3 s)
      else if starts_with ''&quot;'' (c # s) then CHR 0x22 # xml_unescape (drop 5 s)
      else if starts_with ''&apos;'' (c # s) then CHR 0x27 # xml_unescape (drop 5 s)
      else c # xml_unescape s)"

lemma xml_unescape_escape_char: "xml_unescape (xml_escape_char c @ s) = c # xml_unescape s"
  by (auto simp: xml_escape_char_def starts_with_def)

lemma xml_unescape_escape: "xml_unescape (xml_escape s) = s"
  by (induction s) (simp_all add: xml_escape_def xml_unescape_escape_char)

lemma xml_escape_no_markup:
  "c \<in> {CHR ''<'', CHR ''>'', CHR 0x22, CHR 0x27} \<Longrightarrow> c \<notin> set (xml_escape s)"
  by (auto simp: xml_escape_def xml_escape_char_def split: if_splits)

section \<open>Lemmas: targets\<close>

definition path_target :: "string \<Rightarrow> string \<Rightarrow> string" where
  "path_target b k = ''/'' @ percent_encode b True @ ''/'' @ percent_encode k False"

lemma slash_notin_encode [simp]: "CHR ''/'' \<notin> set (percent_encode s True)"
  using set_percent_encode [of s True] by auto

lemma percent_encode_Nil_iff [simp]: "percent_encode s e = [] \<longleftrightarrow> s = []"
proof
  assume "percent_encode s e = []"
  then show "s = []" using percent_decode_encode [of s e] by simp
qed (simp add: percent_encode_def)

lemma decode_or_raw_encode [simp]: "decode_or_raw (percent_encode s e) = s"
  by (simp add: decode_or_raw_def)

lemma parse_path_target:
  assumes "rq_target req = path_target b k" "bucket_from_host (case rq_find req ''Host'' of Some h \<Rightarrow> h | None \<Rightarrow> []) sfx = None"
  shows "api_parse_target req sfx =
    \<lparr>pt_bucket = b, pt_key = k, pt_path = path_target b k, pt_query = [], pt_query_params = []\<rparr>"
proof -
  have "CHR ''?'' \<notin> set (path_target b k)" by (simp add: path_target_def)
  then have q: "find_char (CHR ''?'') (path_target b k) = None" by simp
  have p: "path_target b k \<noteq> []" "drop_slash (path_target b k) = percent_encode b True @ CHR ''/'' # percent_encode k False"
    by (simp_all add: path_target_def drop_slash_def)
  show ?thesis
    using assms q p by (simp add: api_parse_target_def Let_def parse_query_def)
qed

lemma bucket_from_host_vhost:
  assumes "CHR '':'' \<notin> set b" "CHR '':'' \<notin> set sfx" "sfx \<noteq> []" "b \<noteq> []"
  shows "bucket_from_host (b @ ''.'' @ sfx) sfx = Some b"
    and "bucket_from_host (b @ ''.'' @ sfx @ CHR '':'' # port) sfx = Some b"
proof -
  have "host_without_port (b @ ''.'' @ sfx) = b @ ''.'' @ sfx"
    using assms(1,2) by (simp add: host_without_port_def find_char_None_iff [THEN iffD2])
  moreover have "host_without_port (b @ ''.'' @ sfx @ CHR '':'' # port) = b @ ''.'' @ sfx"
    using find_char_append [of "CHR '':''" "b @ ''.'' @ sfx" port] assms(1,2) by (simp add: host_without_port_def)
  ultimately show "bucket_from_host (b @ ''.'' @ sfx) sfx = Some b"
    and "bucket_from_host (b @ ''.'' @ sfx @ CHR '':'' # port) sfx = Some b"
    using assms(3,4) by (simp_all add: bucket_from_host_def Let_def nth_append)
qed

lemma parse_vhost_target:
  assumes "rq_target req = ''/'' @ percent_encode k False" "rq_find req ''Host'' = Some h"
    "bucket_from_host h sfx = Some b"
  shows "pt_bucket (api_parse_target req sfx) = b \<and> pt_key (api_parse_target req sfx) = k"
  using assms by (simp add: api_parse_target_def Let_def drop_slash_def)

lemma canonical_headers_cong:
  "rq_find r = rq_find r' \<Longrightarrow> canonical_headers r hs = canonical_headers r' hs"
proof -
  assume "rq_find r = rq_find r'"
  then have "canonical_headers_loop r hs f = canonical_headers_loop r' hs f" for f
    by (induction hs arbitrary: f) (simp_all split: option.split)
  then show ?thesis by (simp add: canonical_headers_def)
qed

lemma verify_sigv4_cong:
  assumes "rq_method r' = rq_method r" "rq_find r' = rq_find r" "rq_body r' = rq_body r"
    and "snd (sig_parse_target (rq_target r')) = snd (sig_parse_target (rq_target r))"
    and "canonical_uri (fst (sig_parse_target (rq_target r'))) = canonical_uri (fst (sig_parse_target (rq_target r)))"
  shows "verify_sigv4 ssl r' mode creds = verify_sigv4 ssl r mode creds"
proof -
  have "canonical_request r' hs p pre = canonical_request r hs p pre" for hs p pre
    using assms canonical_headers_cong [OF assms(2)] by (simp add: canonical_request_def split_beta)
  then have "verify_with_parts ssl r' = verify_with_parts ssl r"
    by (intro ext) (simp add: verify_with_parts_def)
  moreover have hv: "header_value r' = header_value r"
    by (simp add: header_value_def fun_eq_iff assms(2))
  have "parse_authorization_sigv4 ssl r' = parse_authorization_sigv4 ssl r"
    unfolding parse_authorization_sigv4_def assms(3) hv ..
  moreover have "parse_presigned r' = parse_presigned r"
    unfolding parse_presigned_def assms(4) ..
  ultimately show ?thesis unfolding verify_sigv4_def by (elim ssubst) (rule refl)
qed

section \<open>Lemmas: the parts of \<open>handle\<close>\<close>

definition served :: "'md openssl \<Rightarrow> s3_config \<Rightarrow> Request \<Rightarrow> bool" where
  "served ssl cfg req \<longleftrightarrow>
     auth_ok (verify_sigv4 ssl req (cfg_auth_mode cfg) (cfg_creds cfg)) \<and>
     (rq_method req = ''PUT'' \<longrightarrow> length (rq_body req) \<le> cfg_max_object_bytes cfg)"

definition ctx_of :: "Request \<Rightarrow> 'db gateway \<Rightarrow> req_ctx" where
  "ctx_of req g =
     \<lparr>rc_request_id = nat_to_hex (unat (gw_reqid g)), rc_keep_alive = rq_keep_alive req, rc_version = rq_version req\<rparr>"

definition dispatch ::
  "'md openssl \<Rightarrow> 'db rocksdb \<Rightarrow> Request \<Rightarrow> ParsedTarget \<Rightarrow> req_ctx \<Rightarrow> 'db world \<Rightarrow> Response \<times> 'db world" where
  "dispatch ssl R req pt rc w =
     (if pt_bucket pt = [] then handle_root R req pt rc w
      else if pt_key pt = [] then handle_bucket ssl R req pt rc w
      else handle_object R req pt rc w)"

lemma handle_served:
  "served ssl cfg req \<Longrightarrow> handle ssl R cfg req g =
     (let (res, w) = dispatch ssl R req (api_parse_target req (cfg_virtual_host_suffix cfg)) (ctx_of req g) (gw_world g)
      in (res, g\<lparr>gw_reqid := gw_reqid g + 1, gw_world := w\<rparr>))"
  by (auto simp: handle_def served_def dispatch_def ctx_of_def new_request_id_def Let_def)

lemma handle_refused:
  assumes "\<not> served ssl cfg req"
  shows "\<exists>code msg. handle ssl R cfg req g =
    (err_response (ctx_of req g) (if auth_ok (verify_sigv4 ssl req (cfg_auth_mode cfg) (cfg_creds cfg)) then 413 else 403)
       code msg (rq_target req), g\<lparr>gw_reqid := gw_reqid g + 1\<rparr>)"
proof (cases "auth_ok (verify_sigv4 ssl req (cfg_auth_mode cfg) (cfg_creds cfg))")
  case True
  with assms show ?thesis
    by (intro exI [of _ "''EntityTooLarge''"] exI [of _ "''Object too large''"])
      (simp add: handle_def served_def ctx_of_def new_request_id_def not_le)
next
  case False
  then show ?thesis
    unfolding handle_def ctx_of_def new_request_id_def Let_def by (simp; blast)
qed

lemma key_error_not_ok: "rs_status (key_error_response rc e r) \<noteq> 200 \<and> rs_body (key_error_response rc e r) \<noteq> []"
proof -
  obtain st c where "map_storage_error e = (st, c)" "st \<noteq> 200"
    by (cases "map_storage_error e") (auto simp: map_storage_error_def split: if_splits)
  then show ?thesis by (simp add: key_error_response_def s3_error_xml_def xml_decl_def)
qed

text \<open>
  Every answer declares the length of its body, except that of a \<open>HEAD\<close> that finds its object, which
  declares the size in the object's metadata and has no body.
\<close>

definition head_answer :: "'db rocksdb \<Rightarrow> Request \<Rightarrow> ParsedTarget \<Rightarrow> 'db world \<Rightarrow> Response \<Rightarrow> bool" where
  "head_answer R req pt w res \<longleftrightarrow> rq_method req = ''HEAD'' \<and> pt_bucket pt \<noteq> [] \<and> pt_key pt \<noteq> [] \<and>
     (case head_object R (pt_bucket pt) (pt_key pt) (Some []) w of
        (Some m, _) \<Rightarrow> rs_status res = 200 \<and> rs_body res = [] \<and> rs_content_length res = Some (osize m mod 2 ^ 64)
      | _ \<Rightarrow> False)"

lemma dispatch_framed:
  assumes "res = fst (dispatch ssl R req pt rc w)"
  shows "rs_keep_alive res = rc_keep_alive rc \<and> rs_version res = rc_version rc \<and>
    (head_answer R req pt w res \<or>
     framed rc res \<and> \<not> (rq_method req = ''HEAD'' \<and> pt_bucket pt \<noteq> [] \<and> pt_key pt \<noteq> [] \<and> rs_status res = 200))"
proof -
  have root: "framed rc (fst (handle_root R req pt rc w))"
    by (auto simp: handle_root_def Let_def split_beta)
  have lst: "framed rc (fst (handle_list ssl R pt rc w))"
    by (auto simp: handle_list_def Let_def split_beta)
  have bucket: "framed rc (fst (handle_bucket ssl R req pt rc w))"
    using lst by (auto simp: handle_bucket_def Let_def split_beta)
  have put: "framed rc (fst (handle_put R req pt rc w))"
    by (auto simp: handle_put_def Let_def split: option.splits prod.splits) (simp_all add: framed_def)
  have get: "framed rc (fst (handle_get R req pt rc w))"
    by (auto simp: handle_get_def framed_get_response split: option.splits prod.splits)
  have del: "framed rc (fst (handle_delete R req pt rc w))"
    by (auto simp: handle_delete_def Let_def split: prod.splits)
  have head: "rs_keep_alive r = rc_keep_alive rc \<and> rs_version r = rc_version rc \<and>
      (head_answer R req pt w r \<or> framed rc r \<and> rs_status r \<noteq> 200)"
    if "r = fst (handle_head R req pt rc w)" "rq_method req = ''HEAD''" "pt_bucket pt \<noteq> []" "pt_key pt \<noteq> []" for r
    using that key_error_not_ok by (auto simp: handle_head_def head_answer_def Let_def split: option.splits prod.splits)
  show ?thesis
  proof (cases "rq_method req = ''HEAD'' \<and> pt_bucket pt \<noteq> [] \<and> pt_key pt \<noteq> []")
    case True
    then have "res = fst (handle_head R req pt rc w)" by (simp add: assms dispatch_def handle_object_def)
    with head True show ?thesis by blast
  next
    case False
    then have "framed rc res"
      using root bucket put get del by (auto simp: assms dispatch_def handle_object_def)
    with False show ?thesis by (auto simp: framed_def)
  qed
qed

lemma dispatch_read_only:
  assumes "rq_method req \<noteq> ''PUT''" "rq_method req \<noteq> ''DELETE''"
  shows "w_db (snd (dispatch ssl R req pt rc w)) = w_db w"
proof -
  have root: "w_db (snd (handle_root R req pt rc w)) = w_db w"
    by (simp add: handle_root_def unix_now_seconds_def Let_def split_beta)
  have lst: "w_db (snd (handle_list ssl R pt rc w)) = w_db w"
    by (simp add: handle_list_def Let_def split_beta)
  have bucket: "w_db (snd (handle_bucket ssl R req pt rc w)) = w_db w"
    using assms lst by (simp add: handle_bucket_def Let_def split_beta)
  have get: "w_db (snd (handle_get R req pt rc w)) = w_db w"
  proof (cases "get_object_data R (pt_bucket pt) (pt_key pt) (Some []) w")
    case (fields d e w')
    then have "w_db w' = w_db w" using get_object_data_w_db [of R "pt_bucket pt" "pt_key pt" "Some []" w] by simp
    then show ?thesis by (simp add: handle_get_def fields split: option.split)
  qed
  have head: "w_db (snd (handle_head R req pt rc w)) = w_db w"
  proof (cases "head_object R (pt_bucket pt) (pt_key pt) (Some []) w")
    case (fields d e w')
    then have "w_db w' = w_db w" using head_object_w_db [of R "pt_bucket pt" "pt_key pt" "Some []" w] by simp
    then show ?thesis by (simp add: handle_head_def fields Let_def split: option.split)
  qed
  show ?thesis
    using assms root bucket get head by (simp add: dispatch_def handle_object_def)
qed

lemma get_response_cases:
  "rq_find req ''Range'' = None \<Longrightarrow>
     rs_status (get_response req rc r data) = 200 \<and> rs_body (get_response req rc r data) = data"
  "rq_find req ''Range'' = Some h \<Longrightarrow> parse_single_range h (int (length data)) = None \<Longrightarrow>
     rs_status (get_response req rc r data) = 416 \<and>
     field (get_response req rc r data) ''Content-Range'' = Some (''bytes */'' @ to_string (int (length data)))"
  "rq_find req ''Range'' = Some h \<Longrightarrow> parse_single_range h (int (length data)) = Some br \<Longrightarrow>
     rs_status (get_response req rc r data) = 206 \<and>
     rs_body (get_response req rc r data) = take (nat (br_end br) + 1 - nat (br_start br)) (drop (nat (br_start br)) data)"
  by (simp_all add: get_response_def Let_def)

section \<open>Lemmas: objects through the API\<close>

text \<open>The content type a \<open>PUT\<close> stores.\<close>

definition put_type :: "Request \<Rightarrow> string" where
  "put_type req = (case rq_find req ''Content-Type'' of Some c \<Rightarrow> c | None \<Rightarrow> ''application/octet-stream'')"

text \<open>A request that is served and names an object the store can hold.\<close>

definition object_request :: "'md openssl \<Rightarrow> s3_config \<Rightarrow> string \<Rightarrow> string \<Rightarrow> string \<Rightarrow> Request \<Rightarrow> bool" where
  "object_request ssl cfg m b k req \<longleftrightarrow> served ssl cfg req \<and> rq_method req = m \<and>
     pt_bucket (api_parse_target req (cfg_virtual_host_suffix cfg)) = b \<and>
     pt_key (api_parse_target req (cfg_virtual_host_suffix cfg)) = k \<and>
     b \<noteq> [] \<and> k \<noteq> [] \<and> nul_free b \<and> nul_free k"

lemma handle_object_request:
  assumes "object_request ssl cfg m b k req" "handle ssl R cfg req g = (res, g')"
    and "pt = api_parse_target req (cfg_virtual_host_suffix cfg)"
  shows "handle_object R req pt (ctx_of req g) (gw_world g) = (res, gw_world g') \<and> gw_reqid g' = gw_reqid g + 1"
proof -
  obtain w where "dispatch ssl R req pt (ctx_of req g) (gw_world g) = (res, w)" "g' = g\<lparr>gw_reqid := gw_reqid g + 1, gw_world := w\<rparr>"
    using assms handle_served [of ssl cfg req R g] by (auto simp: object_request_def split: prod.splits)
  with assms(1,3) show ?thesis by (simp add: dispatch_def object_request_def)
qed

context rocksdb_healthy
begin

lemma handle_put_view:
  assumes "object_request ssl cfg ''PUT'' b k req" "handle ssl R cfg req g = (res, g')"
  shows "rs_status res = 200 \<and>
    V (gw_world g') = put_kv b k (rq_body req) (new_meta (rq_body req) (put_type req) (gw_world g)) (V (gw_world g))"
proof -
  define pt where "pt = api_parse_target req (cfg_virtual_host_suffix cfg)"
  have n: "pt_bucket pt = b" "pt_key pt = k" "k \<noteq> []" "rq_method req = ''PUT''" "nul_free b" "nul_free k"
    using assms(1) by (auto simp: object_request_def pt_def)
  then have h: "handle_put R req pt (ctx_of req g) (gw_world g) = (res, gw_world g')"
    using handle_object_request [OF assms pt_def] by (simp add: handle_object_def)
  obtain w' where "put_object R b k (rq_body req) (put_type req) (Some []) (gw_world g) =
      (Some (new_meta (rq_body req) (put_type req) (gw_world g)), Some [], w')"
    "V w' = put_kv b k (rq_body req) (new_meta (rq_body req) (put_type req) (gw_world g)) (V (gw_world g))"
    using n by (rule_tac put_object_succeeds)
  with h n show ?thesis by (auto simp: handle_put_def put_type_def Let_def)
qed

lemma handle_get_view:
  assumes "object_request ssl cfg ''GET'' b k req" "handle ssl R cfg req g = (res, g')"
  shows "(case V (gw_world g) (data_key b k) of
      None \<Rightarrow> rs_status res = 404
    | Some d \<Rightarrow> \<exists>path. res = get_response req (ctx_of req g) path d) \<and> w_db (gw_world g') = w_db (gw_world g)"
proof -
  define pt where "pt = api_parse_target req (cfg_virtual_host_suffix cfg)"
  have n: "pt_bucket pt = b" "pt_key pt = k" "k \<noteq> []" "rq_method req = ''GET''" "nul_free b" "nul_free k"
    using assms(1) by (auto simp: object_request_def pt_def)
  then have h: "handle_get R req pt (ctx_of req g) (gw_world g) = (res, gw_world g')"
    using handle_object_request [OF assms pt_def] by (simp add: handle_object_def)
  obtain w' where x: "get_object_data R b k (Some []) (gw_world g) = (V (gw_world g) (data_key b k),
      if V (gw_world g) (data_key b k) = None then set_err ''NoSuchKey'' (Some []) else Some [], w')"
    "w_db w' = w_db (gw_world g)"
    using get_object_data_eq [OF n(5,6)] by blast
  show ?thesis
  proof (cases "V (gw_world g) (data_key b k)")
    case None
    with h x n show ?thesis by (auto simp: handle_get_def key_error_response_def map_storage_error_def set_err_def)
  next
    case (Some d)
    with h x n show ?thesis by (auto simp: handle_get_def)
  qed
qed

lemma handle_head_view:
  assumes "object_request ssl cfg ''HEAD'' b k req" "handle ssl R cfg req g = (res, g')"
  shows "(case fst (head_spec b k (Some []) (V (gw_world g))) of
      None \<Rightarrow> rs_status res \<noteq> 200 \<and> rs_body res \<noteq> []
    | Some m \<Rightarrow> rs_status res = 200 \<and> rs_body res = [] \<and> rs_content_length res = Some (osize m mod 2 ^ 64) \<and>
        field res ''Last-Modified'' = Some (rfc1123_gmt (mtime m))) \<and> w_db (gw_world g') = w_db (gw_world g)"
proof -
  define pt where "pt = api_parse_target req (cfg_virtual_host_suffix cfg)"
  have n: "pt_bucket pt = b" "pt_key pt = k" "k \<noteq> []" "rq_method req = ''HEAD''" "nul_free b" "nul_free k"
    using assms(1) by (auto simp: object_request_def pt_def)
  then have h: "handle_head R req pt (ctx_of req g) (gw_world g) = (res, gw_world g')"
    using handle_object_request [OF assms pt_def] by (simp add: handle_object_def)
  obtain w' where x: "head_object R b k (Some []) (gw_world g) = (fst (head_spec b k (Some []) (V (gw_world g))),
      snd (head_spec b k (Some []) (V (gw_world g))), w')" "w_db w' = w_db (gw_world g)"
    using head_object_eq [OF n(5,6)] by blast
  show ?thesis
  proof (cases "fst (head_spec b k (Some []) (V (gw_world g)))")
    case None
    with h x n show ?thesis
      using key_error_not_ok [of "ctx_of req g"] by (auto simp: handle_head_def)
  next
    case (Some m)
    with h x n show ?thesis by (auto simp: handle_head_def Let_def)
  qed
qed

end

section \<open>Examples\<close>

definition demo_cfg :: s3_config where
  "demo_cfg = \<lparr>cfg_auth_mode = Mode_None, cfg_creds = demo_creds, cfg_virtual_host_suffix = [], cfg_max_object_bytes = 1000\<rparr>"

definition demo_gateway :: "mem_db gateway" where
  "demo_gateway = \<lparr>gw_world = demo_world demo_db, gw_reqid = 1\<rparr>"

lemma demo_served: "served ssl demo_cfg (demo_request m t hs b) \<longleftrightarrow> (m = ''PUT'' \<longrightarrow> length b \<le> 1000)"
  by (simp add: served_def demo_cfg_def verify_sigv4_def auth_accept_def demo_request_def)

lemma bucket_from_host_no_suffix [simp]: "bucket_from_host h [] = None"
  by (simp add: bucket_from_host_def)

lemma demo_object_request:
  assumes "b \<noteq> []" "k \<noteq> []" "nul_free b" "nul_free k" "m = ''PUT'' \<Longrightarrow> length d \<le> 1000"
  shows "object_request ssl demo_cfg m b k (demo_request m (path_target b k) hs d)"
proof -
  let ?req = "demo_request m (path_target b k) hs d"
  have "rq_target ?req = path_target b k" "rq_method ?req = m" by (simp_all add: demo_request_def)
  with assms parse_path_target [of ?req b k "[]"] show ?thesis
    by (simp add: object_request_def demo_served) (simp add: demo_cfg_def)
qed

section \<open>Properties\<close>

text \<open>
  C17: A \<open>GET\<close> of an object with a \<open>Range\<close> header answers 206 with exactly the bytes of the parsed
  range, whose bounds lie within the object, or 416 with the object's size when the range is not
  valid; without the header it answers 200 with the whole object.
\<close>

theorem get_range_response:
  assumes "rq_find req ''Range'' = Some h" and r: "r = parse_single_range h (int (length data))"
    and res: "res = get_response req rc resource data"
  shows "case r of
      None \<Rightarrow> rs_status res = 416 \<and> field res ''Content-Range'' = Some (''bytes */'' @ to_string (int (length data)))
    | Some br \<Rightarrow>
        0 \<le> br_start br \<and> br_start br \<le> br_end br \<and> br_end br < int (length data) \<and> rs_status res = 206 \<and>
        int (length (rs_body res)) = br_end br - br_start br + 1 \<and>
        (\<forall>i. i < length (rs_body res) \<longrightarrow> rs_body res ! i = data ! (nat (br_start br) + i))"
proof (cases r)
  case None
  with get_response_cases(2) [OF assms(1)] r res show ?thesis by simp
next
  case (Some br)
  then have b: "0 \<le> br_start br" "br_start br \<le> br_end br" "br_end br < int (length data)"
    using range_bounds [of h "int (length data)" br] r by simp_all
  with get_response_cases(3) [OF assms(1)] Some r res show ?thesis by auto
qed

theorem get_range_response_witness:
  "parse_single_range ''bytes=2-5'' 8 = Some \<lparr>br_start = 2, br_end = 5\<rparr> \<and>
   rs_status (get_response (demo_request ''GET'' ''/pc/obj'' [(''Range'', ''bytes=2-5'')] [])
     \<lparr>rc_request_id = ''1'', rc_keep_alive = True, rc_version = 11\<rparr> ''/pc/obj'' ''ABCDEFGH'') = 206"
proof -
  have p: "parse_single_range ''bytes=2-5'' 8 = Some \<lparr>br_start = 2, br_end = 5\<rparr>" by code_simp
  have "rq_find (demo_request ''GET'' ''/pc/obj'' [(''Range'', ''bytes=2-5'')] []) ''Range'' = Some ''bytes=2-5''"
    by (simp add: demo_request_def)
  note get_range_response [OF this refl refl, where data = "''ABCDEFGH''" and resource = "''/pc/obj''"
      and rc = "\<lparr>rc_request_id = ''1'', rc_keep_alive = True, rc_version = 11\<rparr>"]
  with p show ?thesis by simp
qed

text \<open>
  C27: The \<open>Range\<close> header means what the protocol says: \<open>a-b\<close> the bytes from \<open>a\<close> to \<open>b\<close>, cut at the
  end of the object, \<open>a-\<close> those from \<open>a\<close> on, \<open>-n\<close> the last \<open>n\<close>, and nothing when the range starts
  beyond the object, ends before it starts, or is an empty suffix.
\<close>

theorem range_semantics:
  assumes "0 \<le> a" "in_i64 a" "0 \<le> b" "in_i64 b" "0 < sz"
  shows "parse_single_range (''bytes='' @ to_string a @ ''-'' @ to_string b) sz =
      (if a < sz \<and> a \<le> b then Some \<lparr>br_start = a, br_end = min b (sz - 1)\<rparr> else None) \<and>
    parse_single_range (''bytes='' @ to_string a @ ''-'') sz =
      (if a < sz then Some \<lparr>br_start = a, br_end = sz - 1\<rparr> else None) \<and>
    parse_single_range (''bytes=-'' @ to_string b) sz =
      (if 0 < b then Some \<lparr>br_start = max 0 (sz - b), br_end = sz - 1\<rparr> else None)"
proof (intro conjI)
  note da = digits_to_string [OF assms(1)] and db = digits_to_string [OF assms(3)] and d0 = digits_Nil
  note fc = from_chars_digits [OF assms(2)] from_chars_digits [OF assms(4)]
  show "parse_single_range (''bytes='' @ to_string a @ ''-'' @ to_string b) sz =
      (if a < sz \<and> a \<le> b then Some \<lparr>br_start = a, br_end = min b (sz - 1)\<rparr> else None)"
    using parse_range_header [OF da db assms(5)] assms(1) by (simp add: range_header_def fc)
  show "parse_single_range (''bytes='' @ to_string a @ ''-'') sz =
      (if a < sz then Some \<lparr>br_start = a, br_end = sz - 1\<rparr> else None)"
    using parse_range_header [OF da d0 assms(5)] assms(1) by (simp add: range_header_def fc)
  show "parse_single_range (''bytes=-'' @ to_string b) sz =
      (if 0 < b then Some \<lparr>br_start = max 0 (sz - b), br_end = sz - 1\<rparr> else None)"
    using parse_range_header [OF d0 db assms(5)] by (simp add: range_header_def fc not_le [symmetric])
qed

theorem range_semantics_witness:
  "parse_single_range (''bytes='' @ to_string 6 @ ''-'' @ to_string 100) 8 = Some \<lparr>br_start = 6, br_end = 7\<rparr>"
  using range_semantics [of 6 100 8] by (simp add: in_i64_def)

text \<open>
  C15: A request that fails authentication is answered with 403 and a \<open>PUT\<close> beyond the size limit
  with 413, and neither touches the store: only the request counter moves.
\<close>

theorem refused_no_effect:
  assumes "\<not> served ssl cfg req" "handle ssl R cfg req g = (res, g')"
  shows "rs_status res = (if auth_ok (verify_sigv4 ssl req (cfg_auth_mode cfg) (cfg_creds cfg)) then 413 else 403) \<and>
    gw_world g' = gw_world g \<and> gw_reqid g' = gw_reqid g + 1"
  using handle_refused [OF assms(1), of R g] assms(2) by auto

theorem refused_no_effect_witness:
  "\<exists>res g'. handle demo_ssl mem_rocksdb (demo_cfg\<lparr>cfg_max_object_bytes := 2\<rparr>) (demo_request ''PUT'' ''/pc/obj'' [] ''abc'') demo_gateway = (res, g') \<and>
     rs_status res = 413 \<and> gw_world g' = gw_world demo_gateway"
proof -
  let ?cfg = "demo_cfg\<lparr>cfg_max_object_bytes := 2\<rparr>" and ?req = "demo_request ''PUT'' ''/pc/obj'' [] ''abc''"
  have ok: "auth_ok (verify_sigv4 demo_ssl ?req (cfg_auth_mode ?cfg) (cfg_creds ?cfg))"
    by (simp add: verify_sigv4_def demo_cfg_def auth_accept_def)
  have ns: "\<not> served demo_ssl ?cfg ?req" by (simp add: served_def demo_request_def)
  obtain res g' where h: "handle demo_ssl mem_rocksdb ?cfg ?req demo_gateway = (res, g')" by fastforce
  from refused_no_effect [OF ns h] ok h show ?thesis by auto
qed

text \<open>
  C39: Only \<open>PUT\<close> and \<open>DELETE\<close> requests can change the database: every other request, whatever its target,
  query and headers, leaves it as it was.
\<close>

theorem read_only_requests:
  assumes "rq_method req \<noteq> ''PUT''" "rq_method req \<noteq> ''DELETE''" "handle ssl R cfg req g = (res, g')"
  shows "w_db (gw_world g') = w_db (gw_world g)"
proof (cases "served ssl cfg req")
  case True
  with dispatch_read_only [OF assms(1,2)] assms(3) show ?thesis
    by (simp add: handle_served Let_def split_beta) auto
next
  case False
  with handle_refused [OF False, of R g] assms(3) show ?thesis by auto
qed

theorem read_only_requests_witness:
  "w_db (gw_world (snd (handle demo_ssl mem_rocksdb demo_cfg (demo_request ''GET'' ''/pc'' [] []) demo_gateway))) = demo_db"
proof -
  let ?req = "demo_request ''GET'' ''/pc'' [] []"
  obtain res g' where h: "handle demo_ssl mem_rocksdb demo_cfg ?req demo_gateway = (res, g')" by fastforce
  have "rq_method ?req \<noteq> ''PUT''" "rq_method ?req \<noteq> ''DELETE''" by (simp_all add: demo_request_def)
  from read_only_requests [OF this h] h show ?thesis by (simp add: demo_gateway_def demo_world_def)
qed

text \<open>
  C40: Text that a client supplies cannot introduce markup into an XML answer: the escaped text has
  no angle bracket and no quote, and a reader that resolves the entities gets the text back.
\<close>

theorem xml_escape_safe:
  "xml_unescape (xml_escape s) = s \<and>
   {CHR ''<'', CHR ''>'', CHR 0x22, CHR 0x27} \<inter> set (xml_escape s) = {}"
  using xml_unescape_escape xml_escape_no_markup by blast

text \<open>
  C28: Requests reach the bucket and key they name, in both addressing styles: the path
  \<open>/bucket/key\<close> with percent-encoded parts, and the host \<open>bucket.suffix\<close>, with or without a port,
  and the path \<open>/key\<close>.
\<close>

theorem target_roundtrip:
  assumes "rq_target req = path_target b k" "b \<noteq> []" "CHR '':'' \<notin> set b"
    and "rq_target vreq = ''/'' @ percent_encode k False"
    and "rq_find vreq ''Host'' = Some (b @ ''.'' @ sfx) \<or> rq_find vreq ''Host'' = Some (b @ ''.'' @ sfx @ CHR '':'' # port)"
    and "sfx \<noteq> []" "CHR '':'' \<notin> set sfx"
  shows "pt_bucket (api_parse_target req []) = b \<and> pt_key (api_parse_target req []) = k \<and>
    pt_bucket (api_parse_target vreq sfx) = b \<and> pt_key (api_parse_target vreq sfx) = k"
proof -
  have "api_parse_target req [] =
      \<lparr>pt_bucket = b, pt_key = k, pt_path = path_target b k, pt_query = [], pt_query_params = []\<rparr>"
    by (rule parse_path_target [OF assms(1)]) simp
  moreover have "pt_bucket (api_parse_target vreq sfx) = b \<and> pt_key (api_parse_target vreq sfx) = k"
    using assms(5) parse_vhost_target [OF assms(4)] bucket_from_host_vhost [OF assms(3,7,6,2)] by blast
  ultimately show ?thesis by simp
qed

theorem target_roundtrip_witness:
  "pt_key (api_parse_target (demo_request ''GET'' (path_target ''pc'' ''a b/c'') [] []) []) = ''a b/c'' \<and>
   pt_bucket (api_parse_target (demo_request ''GET'' (''/'' @ percent_encode ''a b/c'' False) [(''Host'', ''pc.s3.local:9000'')] []) ''s3.local'') = ''pc''"
  using target_roundtrip [of "demo_request ''GET'' (path_target ''pc'' ''a b/c'') [] []" "''pc''" "''a b/c''"
      "demo_request ''GET'' (''/'' @ percent_encode ''a b/c'' False) [(''Host'', ''pc.s3.local:9000'')] []" "''s3.local''" "''9000''"]
  by (simp add: demo_request_def)

text \<open>
  C11: An object put through the API is the object that is read back: on a database that does not
  fail the \<open>PUT\<close> answers 200, stores exactly the body and its metadata and no other object changes;
  the \<open>GET\<close> that follows answers with the body, or the requested range of it, and a \<open>HEAD\<close> with its
  length, when the bucket exists.
\<close>

theorem put_then_get:
  assumes "rocksdb_healthy R view" "object_request ssl cfg ''PUT'' b k put" "object_request ssl cfg ''GET'' b k get"
    and "object_request ssl cfg ''HEAD'' b k head"
    and "int (length (rq_body put)) < 2 ^ 63" "in_i64 (w_system (gw_world g) (w_tick (gw_world g)))"
    and p: "handle ssl R cfg put g = (r1, g1)" and "handle ssl R cfg get g1 = (r2, g2)" and "handle ssl R cfg head g2 = (r3, g3)"
    and s: "s = (\<lambda>g. abs_ostore (view (w_db (gw_world g))))"
  shows "rs_status r1 = 200 \<and>
    s g1 = (s g)\<lparr>os_objects := (os_objects (s g))((b, k) \<mapsto> (rq_body put, new_meta (rq_body put) (put_type put) (gw_world g)))\<rparr> \<and>
    (\<exists>path. r2 = get_response get (ctx_of get g1) path (rq_body put)) \<and> s g2 = s g1 \<and>
    (b \<in> os_buckets (s g) \<longrightarrow> rs_status r3 = 200 \<and> rs_content_length r3 = Some (int (length (rq_body put)))) \<and>
    (b \<notin> os_buckets (s g) \<longrightarrow> rs_status r3 \<noteq> 200 \<and> rs_body r3 \<noteq> [])"
proof -
  define m where "m = new_meta (rq_body put) (put_type put) (gw_world g)"
  have n: "nul_free b" "nul_free k" using assms(2) by (simp_all add: object_request_def)
  have m: "meta_ok m" "osize m = int (length (rq_body put))"
    using new_meta_ok [of b k "rq_body put" "put_type put" "gw_world g"] assms(5,6) by (simp_all add: m_def)
  have v1: "rs_status r1 = 200" "view (w_db (gw_world g1)) = put_kv b k (rq_body put) m (view (w_db (gw_world g)))"
    using rocksdb_healthy.handle_put_view [OF assms(1,2) p] by (simp_all add: m_def)
  have v2: "\<exists>path. r2 = get_response get (ctx_of get g1) path (rq_body put)" "w_db (gw_world g2) = w_db (gw_world g1)"
    using rocksdb_healthy.handle_get_view [OF assms(1,3,8)] v1(2) n by (simp_all add: put_kv_def key_lemmas)
  have "fst (head_spec b k (Some []) (put_kv b k (rq_body put) m (view (w_db (gw_world g))))) =
      (if b \<in> os_buckets (s g) then Some m else None)"
    using m n by (simp add: head_spec_def put_kv_def key_lemmas s abs_ostore_def)
  then have "if b \<in> os_buckets (s g) then rs_status r3 = 200 \<and> rs_content_length r3 = Some (osize m mod 2 ^ 64)
      else rs_status r3 \<noteq> 200 \<and> rs_body r3 \<noteq> []"
    using rocksdb_healthy.handle_head_view [OF assms(1,4,9)] v1(2) v2(2) by (simp split: if_splits)
  with v1 v2 m n show ?thesis using assms(5) by (auto simp: s m_def abs_put split: if_splits)
qed

theorem put_then_get_witness:
  "\<exists>r1 g1 r2 g2. handle demo_ssl mem_rocksdb demo_cfg (demo_request ''PUT'' (path_target ''pc'' ''a/b'') [] ''data'') demo_gateway = (r1, g1) \<and>
     handle demo_ssl mem_rocksdb demo_cfg (demo_request ''GET'' (path_target ''pc'' ''a/b'') [] []) g1 = (r2, g2) \<and>
     rs_status r1 = 200 \<and> rs_status r2 = 200 \<and> rs_body r2 = ''data''"
proof -
  let ?put = "demo_request ''PUT'' (path_target ''pc'' ''a/b'') [] ''data''"
    and ?get = "demo_request ''GET'' (path_target ''pc'' ''a/b'') [] []"
    and ?head = "demo_request ''HEAD'' (path_target ''pc'' ''a/b'') [] []"
  have o: "object_request demo_ssl demo_cfg ''PUT'' ''pc'' ''a/b'' ?put"
    "object_request demo_ssl demo_cfg ''GET'' ''pc'' ''a/b'' ?get"
    "object_request demo_ssl demo_cfg ''HEAD'' ''pc'' ''a/b'' ?head"
    by (simp_all add: demo_object_request)
  obtain r1 g1 where h1: "handle demo_ssl mem_rocksdb demo_cfg ?put demo_gateway = (r1, g1)" by fastforce
  obtain r2 g2 where h2: "handle demo_ssl mem_rocksdb demo_cfg ?get g1 = (r2, g2)" by fastforce
  obtain r3 g3 where h3: "handle demo_ssl mem_rocksdb demo_cfg ?head g2 = (r3, g3)" by fastforce
  have c: "int (length (rq_body ?put)) < 2 ^ 63"
    "in_i64 (w_system (gw_world demo_gateway) (w_tick (gw_world demo_gateway)))"
    by (simp_all add: demo_request_def demo_gateway_def demo_world_def in_i64_def)
  have "rq_find ?get ''Range'' = None" "rq_body ?put = ''data''" by (simp_all add: demo_request_def)
  with put_then_get [OF mem_rocksdb_healthy o c h1 h2 h3 refl] get_response_cases(1) h1 h2 show ?thesis by auto
qed

text \<open>
  C31: The canonical request decodes the path before it encodes it, so a percent-encoded slash is not
  told from a slash: the signature of \<open>/b/k\<close> is accepted for the path that encodes \<open>b/k\<close> as a whole,
  which names another resource, the bucket \<open>b/k\<close>.
\<close>

theorem sigv4_path_confusion:
  assumes "rq_target req = path_target b k" and r: "req' = req\<lparr>rq_target := ''/'' @ percent_encode (b @ ''/'' @ k) True\<rparr>"
  shows "verify_sigv4 ssl req' mode creds = verify_sigv4 ssl req mode creds \<and>
    pt_bucket (api_parse_target req []) = b \<and> pt_key (api_parse_target req []) = k \<and>
    pt_bucket (api_parse_target req' []) = b @ ''/'' @ k \<and> pt_key (api_parse_target req' []) = []"
proof -
  let ?t = "''/'' @ percent_encode (b @ ''/'' @ k) True"
  have q: "find_char (CHR ''?'') ?t = None" "find_char (CHR ''?'') (path_target b k) = None"
    by (simp_all add: path_target_def)
  then have p: "sig_parse_target ?t = (?t, [])" "sig_parse_target (path_target b k) = (path_target b k, [])"
    by (simp_all add: sig_parse_target_def path_target_def)
  have "percent_decode ?t = Some (''/'' @ b @ ''/'' @ k)" "percent_decode (path_target b k) = Some (''/'' @ b @ ''/'' @ k)"
    by (simp_all add: path_target_def percent_decode_encode_append)
  then have u: "canonical_uri ?t = canonical_uri (path_target b k)" by (simp add: canonical_uri_def)
  have v: "verify_sigv4 ssl req' mode creds = verify_sigv4 ssl req mode creds"
    using p u assms(1) by (intro verify_sigv4_cong) (simp_all add: r)
  have "find_char (CHR ''/'') (percent_encode (b @ ''/'' @ k) True) = None" by simp
  then have "api_parse_target req' [] = \<lparr>pt_bucket = b @ ''/'' @ k, pt_key = [], pt_path = ?t, pt_query = [], pt_query_params = []\<rparr>"
    using q(1) by (simp add: r api_parse_target_def Let_def drop_slash_def parse_query_def decode_or_raw_def)
  with v parse_path_target [OF assms(1), of "[]"] show ?thesis by simp
qed

theorem sigv4_path_confusion_witness:
  "auth_ok (verify_sigv4 demo_ssl ((demo_signed ''PUT'' (path_target ''pc'' ''x'') [])\<lparr>rq_target := ''/pc%2Fx''\<rparr>) Mode_SigV4 demo_creds)"
proof -
  let ?req = "demo_signed ''PUT'' (path_target ''pc'' ''x'') []"
  have t: "''/pc%2Fx'' = ''/'' @ percent_encode (''pc'' @ ''/'' @ ''x'') True" by code_simp
  have "rq_target ?req = path_target ''pc'' ''x''" by (simp add: demo_signed_def demo_request_def Let_def)
  from sigv4_path_confusion [OF this refl, of demo_ssl Mode_SigV4 demo_creds] show ?thesis
    unfolding t by (simp add: demo_signed_accepted auth_accept_def)
qed

end
