(* ===== verification/HttpServer.thy ===== *)
theory HttpServer
  imports S3Api
begin

text \<open>
  The gateway's \<open>http_server.hpp\<close> and \<open>http_server.cpp\<close>: the sessions and the listener.  A handler
  of the code (\<open>run\<close>, \<open>on_read\<close>, \<open>on_write\<close>, \<open>on_accept\<close>) is a definition; each starts at most one
  asynchronous operation, whose completion is an event of Asio.  The server is the gateway and the
  list of its sessions, and a step is the completion of one pending operation, of any session, in
  any order.  \<open>need_eof\<close> is Beast's, an argument; its parser delivers no body beyond
  \<open>body_limit\<close>, which is the guard of a read event.  Handlers are atomic steps here; \<open>Concurrent\<close>
  has the server whose worker threads interleave inside them.

  The lemmas show that the in-flight gauge is the number of responses being written, that the
  object store stays well formed under every interleaving, that every response declares its length,
  and which status codes can occur.
\<close>

record server_config =
  listen_host :: string
  listen_port :: nat
  max_request_body_bytes :: nat

definition default_server_config :: server_config where
  "default_server_config =
     \<lparr>listen_host = ''0.0.0.0'', listen_port = 9000, max_request_body_bytes = 64 * 1024 * 1024\<rparr>"

section \<open>Sessions\<close>

record RequestStats =
  st_method :: string
  st_status :: nat
  st_req_bytes :: nat
  st_resp_bytes :: nat

text \<open>The operation a session waits for: \<open>async_read\<close>, \<open>async_write\<close> with its \<open>close\<close> flag, or none.\<close>

datatype pending = Reading | Writing bool | Idle

text \<open>\<open>parser_limit\<close> is the body limit of the parser, \<open>None\<close> before the first \<open>emplace\<close>.\<close>

record Session =
  max_body :: nat
  parser_limit :: "nat option"
  ss_res :: Response
  request_start :: int
  ss_stats :: RequestStats
  waits_for :: pending
  send_shut :: bool

datatype read_result = End_of_stream | Read_failed | Read_ok Request

definition new_Session :: "nat \<Rightarrow> Session" where
  "new_Session mb =
     \<lparr>max_body = mb, parser_limit = None, ss_res = new_Response 200 11, request_start = 0,
      ss_stats = \<lparr>st_method = [], st_status = 0, st_req_bytes = 0, st_resp_bytes = 0\<rparr>,
      waits_for = Idle, send_shut = False\<rparr>"

definition do_close :: "Session \<Rightarrow> Session" where
  "do_close s = s\<lparr>send_shut := True, waits_for := Idle\<rparr>"

definition do_read :: "Session \<Rightarrow> 'db gateway \<Rightarrow> Session \<times> 'db gateway" where
  "do_read s g =
     (let (t, w) = Clock_now (gw_world g)
      in (s\<lparr>parser_limit := Some (max_body s), request_start := t, waits_for := Reading\<rparr>, g\<lparr>gw_world := w\<rparr>))"

definition session_run :: "Session \<Rightarrow> 'db gateway \<Rightarrow> Session \<times> 'db gateway" where
  "session_run s g = do_read s g"

text \<open>A call through the pointer \<open>metrics_\<close>, when it is set: the object the store reports to.\<close>

definition with_metrics :: "(Metrics \<Rightarrow> Metrics) \<Rightarrow> 'db gateway \<Rightarrow> 'db gateway" where
  "with_metrics f g = g\<lparr>gw_world := (gw_world g)\<lparr>w_metrics := map_option f (w_metrics (gw_world g))\<rparr>\<rparr>"

definition is_metrics_request :: "Request \<Rightarrow> bool" where
  "is_metrics_request req \<longleftrightarrow> rq_method req = ''GET'' \<and> rq_target req = ''/metrics''"

definition metrics_response :: "Request \<Rightarrow> 'db gateway \<Rightarrow> Response" where
  "metrics_response req g =
     (let body = (case w_metrics (gw_world g) of Some m \<Rightarrow> RenderPrometheus m | None \<Rightarrow> []);
          res = new_Response 200 (rq_version req);
          res = set_field ''Content-Type'' ''text/plain; version=0.0.4'' res;
          res = res\<lparr>rs_keep_alive := rq_keep_alive req, rs_body := body\<rparr>
      in res\<lparr>rs_content_length := Some (int (length (rs_body res)))\<rparr>)"

definition on_read ::
  "'md openssl \<Rightarrow> 'db rocksdb \<Rightarrow> (Response \<Rightarrow> bool) \<Rightarrow> s3_config \<Rightarrow> read_result \<Rightarrow> Session \<Rightarrow> 'db gateway \<Rightarrow> Session \<times> 'db gateway" where
  "on_read ssl R need_eof cfg ec s g =
     (case ec of
        End_of_stream \<Rightarrow> (do_close s, g)
      | Read_failed \<Rightarrow> (s\<lparr>waits_for := Idle\<rparr>, g)
      | Read_ok req \<Rightarrow>
          let g = with_metrics IncInFlight g;
              (res, g) = (if is_metrics_request req then (metrics_response req g, g)
                          else handle ssl R cfg req g);
              s = s\<lparr>ss_res := res\<rparr>;
              s = (if w_metrics (gw_world g) \<noteq> None
                   then s\<lparr>ss_stats := \<lparr>st_method = rq_method req, st_status = rs_status res,
                                     st_req_bytes = length (rq_body req), st_resp_bytes = length (rs_body res)\<rparr>\<rparr>
                   else s)
          in (s\<lparr>waits_for := Writing (need_eof res)\<rparr>, g))"

definition on_write :: "bool \<Rightarrow> bool \<Rightarrow> Session \<Rightarrow> 'db gateway \<Rightarrow> Session \<times> 'db gateway" where
  "on_write close failed s g =
     (let g = (if w_metrics (gw_world g) \<noteq> None then
                 (let (stop, w) = Clock_now (gw_world g);
                      latency_ms = duration_ms (request_start s) stop;
                      st = ss_stats s
                  in with_metrics DecInFlight
                       (with_metrics (Observe (st_method st) (st_status st) (st_req_bytes st) (st_resp_bytes st) latency_ms)
                         (g\<lparr>gw_world := w\<rparr>)))
               else g)
      in if failed then (s\<lparr>waits_for := Idle\<rparr>, g)
         else if close then (do_close s, g)
         else do_read s g)"

section \<open>The listener\<close>

text \<open>How far the constructor got: it returns at the first call that fails.\<close>

datatype acceptor = Acceptor_Closed | Acceptor_Open | Acceptor_Reuse | Acceptor_Bound | Acceptor_Listening

definition Listener :: "bool \<Rightarrow> bool \<Rightarrow> bool \<Rightarrow> bool \<Rightarrow> acceptor" where
  "Listener open_fails option_fails bind_fails listen_fails =
     (if open_fails then Acceptor_Closed
      else if option_fails then Acceptor_Open
      else if bind_fails then Acceptor_Reuse
      else if listen_fails then Acceptor_Bound
      else Acceptor_Listening)"

record 'db server =
  sv_acceptor :: acceptor
  sv_accepting :: bool
  sv_sessions :: "Session list"
  sv_gateway :: "'db gateway"

definition do_accept :: "'db server \<Rightarrow> 'db server" where
  "do_accept sv = sv\<lparr>sv_accepting := True\<rparr>"

definition listener_run :: "'db server \<Rightarrow> 'db server" where
  "listener_run sv = do_accept sv"

definition on_accept :: "server_config \<Rightarrow> bool \<Rightarrow> 'db server \<Rightarrow> 'db server" where
  "on_accept cfg failed sv =
     (let sv = (if \<not> failed then
                  (let (s, g) = session_run (new_Session (max_request_body_bytes cfg)) (sv_gateway sv)
                   in sv\<lparr>sv_sessions := sv_sessions sv @ [s], sv_gateway := g\<rparr>)
                else sv)
      in do_accept sv)"

section \<open>Steps\<close>

text \<open>
  The completion of an operation that is pending.  An acceptor that does not listen completes every
  accept with an error.
\<close>

datatype event = Accepted bool | Read_done nat read_result | Write_done nat bool

fun read_within :: "nat \<Rightarrow> read_result \<Rightarrow> bool" where
  "read_within limit (Read_ok req) \<longleftrightarrow> length (rq_body req) \<le> limit"
| "read_within limit _ \<longleftrightarrow> True"

definition put_session :: "nat \<Rightarrow> 'db server \<Rightarrow> Session \<times> 'db gateway \<Rightarrow> 'db server" where
  "put_session i sv sg = sv\<lparr>sv_sessions := (sv_sessions sv)[i := fst sg], sv_gateway := snd sg\<rparr>"

inductive server_step ::
  "'md openssl \<Rightarrow> 'db rocksdb \<Rightarrow> (Response \<Rightarrow> bool) \<Rightarrow> s3_config \<Rightarrow> server_config \<Rightarrow> 'db server \<Rightarrow> event \<Rightarrow> 'db server \<Rightarrow> bool"
  for ssl R need_eof cfg scfg where
  step_accept:
    "sv_accepting sv \<Longrightarrow> (sv_acceptor sv \<noteq> Acceptor_Listening \<longrightarrow> failed) \<Longrightarrow>
     server_step ssl R need_eof cfg scfg sv (Accepted failed) (on_accept scfg failed sv)"
| step_read:
    "i < length (sv_sessions sv) \<Longrightarrow> s = sv_sessions sv ! i \<Longrightarrow> waits_for s = Reading \<Longrightarrow>
     parser_limit s = Some limit \<Longrightarrow> read_within limit ec \<Longrightarrow>
     server_step ssl R need_eof cfg scfg sv (Read_done i ec)
       (put_session i sv (on_read ssl R need_eof cfg ec s (sv_gateway sv)))"
| step_write:
    "i < length (sv_sessions sv) \<Longrightarrow> s = sv_sessions sv ! i \<Longrightarrow> waits_for s = Writing close \<Longrightarrow>
     server_step ssl R need_eof cfg scfg sv (Write_done i failed)
       (put_session i sv (on_write close failed s (sv_gateway sv)))"

inductive_cases step_acceptE: "server_step ssl R need_eof cfg scfg sv (Accepted failed) sv'"
inductive_cases step_readE: "server_step ssl R need_eof cfg scfg sv (Read_done i ec) sv'"
inductive_cases step_writeE: "server_step ssl R need_eof cfg scfg sv (Write_done i failed) sv'"

inductive server_run ::
  "'md openssl \<Rightarrow> 'db rocksdb \<Rightarrow> (Response \<Rightarrow> bool) \<Rightarrow> s3_config \<Rightarrow> server_config \<Rightarrow> 'db server \<Rightarrow> event list \<Rightarrow> 'db server \<Rightarrow> bool"
  for ssl R need_eof cfg scfg sv where
  run_start: "server_run ssl R need_eof cfg scfg sv [] sv"
| run_step: "server_run ssl R need_eof cfg scfg sv es sv' \<Longrightarrow> server_step ssl R need_eof cfg scfg sv' e sv'' \<Longrightarrow>
    server_run ssl R need_eof cfg scfg sv (es @ [e]) sv''"

text \<open>The server as \<open>main\<close> starts it.\<close>

definition start_server :: "acceptor \<Rightarrow> 'db gateway \<Rightarrow> 'db server" where
  "start_server acc g =
     listener_run \<lparr>sv_acceptor = acc, sv_accepting = False, sv_sessions = [], sv_gateway = g\<rparr>"

section \<open>Lemmas: what the API leaves alone\<close>

text \<open>
  The clocks and the request metrics: the store only reads the clocks and reports its own
  operations.
\<close>

definition front :: "'db world \<Rightarrow> (nat \<Rightarrow> int) \<times> (nat \<Rightarrow> int) \<times> (u64 \<times> u64 list \<times> u64) option" where
  "front w = (w_steady w, w_system w, map_option (\<lambda>m. (inflight m, req_counts m, latency_count m)) (w_metrics w))"

lemma front_basic [simp]:
  "front (snd (Clock_now w)) = front w" "front (snd (unix_now_seconds w)) = front w"
  "front (w\<lparr>w_db := d\<rparr>) = front w" "front (w\<lparr>w_tick := n\<rparr>) = front w"
  by (simp_all add: front_def Clock_now_def unix_now_seconds_def)

lemma front_observe [simp]: "front (observe_rocksdb op st n t w) = front w"
  by (auto simp: observe_rocksdb_def Clock_now_def front_def ObserveRocksdb_def Let_def split: option.split)

lemma front_timed [simp]:
  "front (snd (snd (timed_Get R k w))) = front w" "front (snd (timed_Put R k v w)) = front w"
  "front (snd (timed_Delete R k w)) = front w" "front (snd (timed_Write R b n w)) = front w"
  by (simp_all add: timed_Get_def timed_Put_def timed_Delete_def timed_Write_def Let_def split_beta)

lemma front_bucket_exists [simp]: "front (snd (snd (bucket_exists R b e w))) = front w"
  by (simp add: bucket_exists_def Let_def split_beta)

lemma front_store [simp]:
  "front (snd (snd (create_bucket R b e w))) = front w"
  "front (snd (snd (delete_bucket R b e w))) = front w"
  "front (snd (snd (put_object R b k d ct e w))) = front w"
  "front (snd (snd (get_object_data R b k e w))) = front w"
  "front (snd (snd (delete_object R b k e w))) = front w"
  "front (snd (snd (list_buckets R e w))) = front w"
  by (simp_all add: create_bucket_def delete_bucket_def put_object_def get_object_data_def delete_object_def
      list_buckets_def Let_def split_beta)

lemma front_head_object [simp]: "front (snd (snd (head_object R b k e w))) = front w"
  by (simp add: head_object_def Let_def split_beta split: option.split)

lemma front_list_objects [simp]: "front (snd (snd (list_objects_v2 ssl R b p n t e w))) = front w"
  by (simp add: list_objects_v2_def Let_def split_beta split: option.split)

lemma front_dispatch [simp]: "front (snd (dispatch ssl R req pt rc w)) = front w"
proof -
  have root: "front (snd (handle_root R req pt rc w)) = front w"
    by (simp add: handle_root_def Let_def split_beta)
  have lst: "front (snd (handle_list ssl R pt rc w)) = front w"
    by (simp add: handle_list_def Let_def split_beta)
  have bucket: "front (snd (handle_bucket ssl R req pt rc w)) = front w"
    using lst by (simp add: handle_bucket_def Let_def split_beta)
  have put: "front (snd (handle_put R req pt rc w)) = front w"
    by (simp add: handle_put_def Let_def split_beta split: option.split)
  have get: "front (snd (handle_get R req pt rc w)) = front w"
    by (simp add: handle_get_def Let_def split_beta split: option.split)
  have head: "front (snd (handle_head R req pt rc w)) = front w"
    by (simp add: handle_head_def Let_def split_beta split: option.split)
  have del: "front (snd (handle_delete R req pt rc w)) = front w"
    by (simp add: handle_delete_def Let_def split_beta)
  show ?thesis
    using root bucket put get head del by (simp add: dispatch_def handle_object_def)
qed

lemma front_handle [simp]: "front (gw_world (snd (handle ssl R cfg req g))) = front (gw_world g)"
proof (cases "served ssl cfg req")
  case True
  then show ?thesis by (simp add: handle_served Let_def split_beta)
next
  case False
  from handle_refused [OF this, of R g] show ?thesis by auto
qed

section \<open>Lemmas: the handlers and the request metrics\<close>

definition is_writing :: "Session \<Rightarrow> bool" where
  "is_writing s = (case waits_for s of Writing _ \<Rightarrow> True | _ \<Rightarrow> False)"

lemma is_writing_simps [simp]:
  "waits_for s = Reading \<Longrightarrow> \<not> is_writing s" "waits_for s = Idle \<Longrightarrow> \<not> is_writing s"
  "waits_for s = Writing c \<Longrightarrow> is_writing s"
  by (simp_all add: is_writing_def)

definition gauge :: "'db gateway \<Rightarrow> (u64 \<times> u64) option" where
  "gauge g = map_option (\<lambda>m. (inflight m, latency_count m)) (w_metrics (gw_world g))"

lemma gauge_front: "front (gw_world g') = front (gw_world g) \<Longrightarrow> gauge g' = gauge g"
  by (cases "w_metrics (gw_world g)"; cases "w_metrics (gw_world g')") (simp_all add: front_def gauge_def)

lemma gauge_with_metrics [simp]:
  "gauge (with_metrics IncInFlight g) = map_option (\<lambda>(i, n). (i + 1, n)) (gauge g)"
  "gauge (with_metrics DecInFlight g) = map_option (\<lambda>(i, n). (i - 1, n)) (gauge g)"
  "gauge (with_metrics (Observe m st a b l) g) = map_option (\<lambda>(i, n). (i, n + 1)) (gauge g)"
  by (cases "w_metrics (gw_world g)";
      simp add: gauge_def with_metrics_def IncInFlight_def DecInFlight_def Observe_def Let_def)+

lemma gauge_handle [simp]: "gauge (snd (handle ssl R cfg req g)) = gauge g"
  by (rule gauge_front) simp

lemma gauge_clock [simp]: "gauge (g\<lparr>gw_world := snd (Clock_now (gw_world g))\<rparr>) = gauge g"
  by (rule gauge_front) simp

lemma do_read_effect [simp]:
  "gauge (snd (do_read s g)) = gauge g" "front (gw_world (snd (do_read s g))) = front (gw_world g)"
  "w_db (gw_world (snd (do_read s g))) = w_db (gw_world g)" "waits_for (fst (do_read s g)) = Reading"
  "max_body (fst (do_read s g)) = max_body s" "parser_limit (fst (do_read s g)) = Some (max_body s)"
  "ss_res (fst (do_read s g)) = ss_res s"
  by (simp_all add: do_read_def Let_def split_beta)

lemma on_read_gauge:
  "(case ec of
      Read_ok req \<Rightarrow> is_writing (fst (on_read ssl R ne cfg ec s g)) \<and>
        gauge (snd (on_read ssl R ne cfg ec s g)) = map_option (\<lambda>(i, n). (i + 1, n)) (gauge g)
    | _ \<Rightarrow> \<not> is_writing (fst (on_read ssl R ne cfg ec s g)) \<and> snd (on_read ssl R ne cfg ec s g) = g)"
  by (simp add: on_read_def do_close_def Let_def split_beta split: read_result.split)

lemma on_write_gauge:
  "\<not> is_writing (fst (on_write close failed s g)) \<and>
   gauge (snd (on_write close failed s g)) = map_option (\<lambda>(i, n). (i - 1, n + 1)) (gauge g)"
proof (cases "w_metrics (gw_world g)")
  case None
  then have "gauge g = None" by (simp add: gauge_def)
  with None show ?thesis by (simp add: on_write_def do_close_def Let_def)
next
  case (Some m)
  then show ?thesis
    by (cases "gauge g") (simp_all add: on_write_def do_close_def Let_def split_beta)
qed

lemma of_nat_filter_update:
  assumes "i < length xs"
  shows "(of_nat (length (filter P (xs[i := y]))) :: 'a :: ring_1) =
    of_nat (length (filter P xs)) - (if P (xs ! i) then 1 else 0) + (if P y then 1 else 0)"
proof -
  obtain a x b where "xs = a @ x # b" "length a = i"
    using id_take_nth_drop [OF assms] assms by (metis length_take min.absorb4)
  then have "length (filter P (xs[i := y])) + (if P (xs ! i) then 1 else 0) =
      length (filter P xs) + (if P y then 1 else 0)"
    by (auto simp: list_update_append nth_append)
  then have "(of_nat (length (filter P (xs[i := y])) + (if P (xs ! i) then 1 else 0)) :: 'a) =
      of_nat (length (filter P xs) + (if P y then 1 else 0))" by simp
  then show ?thesis by (simp add: algebra_simps split: if_splits)
qed

fun request_event :: "event \<Rightarrow> bool" where
  "request_event (Read_done _ (Read_ok _)) = True"
| "request_event _ = False"

fun answer_event :: "event \<Rightarrow> bool" where
  "answer_event (Write_done _ _) = True"
| "answer_event _ = False"

definition writing_count :: "'db server \<Rightarrow> nat" where
  "writing_count sv = length (filter is_writing (sv_sessions sv))"

lemma server_step_gauge:
  assumes "server_step ssl R ne cfg scfg sv e sv'"
  shows "gauge (sv_gateway sv') =
      map_option (\<lambda>(i, n). (i + of_bool (request_event e) - of_bool (answer_event e), n + of_bool (answer_event e)))
        (gauge (sv_gateway sv)) \<and>
    int (writing_count sv') = int (writing_count sv) + of_bool (request_event e) - of_bool (answer_event e)"
  using assms
proof cases
  case (step_accept failed)
  then show ?thesis
    by (cases failed) (simp_all add: on_accept_def do_accept_def session_run_def writing_count_def split_beta Let_def option.map_id0)
next
  case (step_read i s limit ec)
  have w: "\<not> is_writing s" using step_read by simp
  show ?thesis
    using step_read w on_read_gauge [where ec = ec and ssl = ssl and R = R and ne = ne and cfg = cfg and s = s and g = "sv_gateway sv"]
    by (cases ec) (simp_all add: put_session_def writing_count_def of_nat_filter_update option.map_id0)
next
  case (step_write i s close failed)
  have w: "is_writing s" using step_write by simp
  show ?thesis
    using step_write w on_write_gauge [of close failed s "sv_gateway sv"]
    by (simp add: put_session_def writing_count_def of_nat_filter_update)
qed

section \<open>Lemmas: the store under the server\<close>

definition clocks_ok :: "'db world \<Rightarrow> bool" where
  "clocks_ok w \<longleftrightarrow> (\<forall>n. in_i64 (w_system w n))"

lemma clocks_front: "front w' = front w \<Longrightarrow> clocks_ok w' = clocks_ok w"
  by (simp add: front_def clocks_ok_def)

context rocksdb_laws
begin

lemma run_store_op_inv_snd:
  "store_inv (V w) \<Longrightarrow> op_ok op w \<Longrightarrow> store_inv (V (snd (snd (run_store_op R op e w))))"
  by (cases "run_store_op R op e w") (simp add: run_store_op_inv)

lemma dispatch_inv:
  assumes "store_inv (V w)" "clocks_ok w" "int (length (rq_body req)) < 2 ^ 63"
  shows "store_inv (V (snd (dispatch ssl R req pt rc w)))"
proof (cases "rq_method req = ''PUT'' \<or> rq_method req = ''DELETE''")
  case True
  note inv = run_store_op_inv_snd [OF assms(1)]
  have ob: "op_ok (PutObject b k (rq_body req) ct) w" for b k ct
    using assms(2,3) by (simp add: clocks_ok_def)
  have put: "store_inv (V (snd (handle_put R req pt rc w)))"
    using inv [OF ob, of "pt_bucket pt" "pt_key pt" _ "Some []"]
    by (simp add: handle_put_def Let_def split_beta split: option.split)
  have del: "store_inv (V (snd (handle_delete R req pt rc w)))"
    using inv [of "DeleteObject (pt_bucket pt) (pt_key pt)" "Some []"]
    by (simp add: handle_delete_def Let_def split_beta)
  have bucket: "store_inv (V (snd (handle_bucket ssl R req pt rc w)))"
    using True inv [of "CreateBucket (pt_bucket pt)" "Some []"] inv [of "DeleteBucket (pt_bucket pt)" "Some []"]
    by (auto simp: handle_bucket_def Let_def split_beta)
  show ?thesis
    using True assms(1) put del bucket by (auto simp: dispatch_def handle_object_def handle_root_def)
next
  case False
  then show ?thesis using dispatch_read_only [of req ssl R pt rc w] assms(1) by simp
qed

lemma handle_inv:
  assumes "store_inv (V (gw_world g))" "clocks_ok (gw_world g)" "int (length (rq_body req)) < 2 ^ 63"
  shows "store_inv (V (gw_world (snd (handle ssl R cfg req g))))"
proof (cases "served ssl cfg req")
  case True
  with dispatch_inv [OF assms] show ?thesis by (simp add: handle_served Let_def split_beta)
next
  case False
  from handle_refused [OF this, of R g] assms(1) show ?thesis by auto
qed

end

text \<open>What every session keeps, and what the server keeps of the store.\<close>

definition session_ok :: "nat \<Rightarrow> Session \<Rightarrow> bool" where
  "session_ok limit s \<longleftrightarrow> max_body s = limit \<and> (waits_for s = Reading \<longrightarrow> parser_limit s = Some limit)"

lemma with_metrics_db [simp]:
  "w_db (gw_world (with_metrics f g)) = w_db (gw_world g)"
  "w_system (gw_world (with_metrics f g)) = w_system (gw_world g)"
  by (simp_all add: with_metrics_def)

lemma on_read_session_ok: "session_ok limit s \<Longrightarrow> session_ok limit (fst (on_read ssl R ne cfg ec s g))"
  by (simp add: session_ok_def on_read_def do_close_def Let_def split_beta split: read_result.split)

lemma on_write_session_ok: "session_ok limit s \<Longrightarrow> session_ok limit (fst (on_write close failed s g))"
  by (simp add: session_ok_def on_write_def do_close_def Let_def split_beta)

lemma on_write_world [simp]:
  "w_db (gw_world (snd (on_write close failed s g))) = w_db (gw_world g)"
  "w_system (gw_world (snd (on_write close failed s g))) = w_system (gw_world g)"
  by (simp_all add: on_write_def do_read_def Clock_now_def Let_def split_beta)

lemma on_read_ok_world:
  "gw_world (snd (on_read ssl R ne cfg (Read_ok req) s g)) =
     gw_world (if is_metrics_request req then with_metrics IncInFlight g
               else snd (handle ssl R cfg req (with_metrics IncInFlight g)))"
  by (simp add: on_read_def Let_def split_beta)

lemma w_system_handle [simp]: "w_system (gw_world (snd (handle ssl R cfg req g))) = w_system (gw_world g)"
  using front_handle [of ssl R cfg req g] by (simp add: front_def del: front_handle)

definition server_ok :: "(string \<rightharpoonup> bytes) \<Rightarrow> nat \<Rightarrow> 'db server \<Rightarrow> bool" where
  "server_ok V limit sv \<longleftrightarrow> store_inv V \<and> clocks_ok (gw_world (sv_gateway sv)) \<and>
     list_all (session_ok limit) (sv_sessions sv)"

context rocksdb_laws
begin

lemma server_step_ok:
  assumes "server_step ssl R ne cfg scfg sv e sv'" "limit = max_request_body_bytes scfg" "int limit < 2 ^ 63"
    and "server_ok (V (gw_world (sv_gateway sv))) limit sv"
  shows "server_ok (V (gw_world (sv_gateway sv'))) limit sv'"
  using assms(1)
proof cases
  case (step_accept failed)
  with assms(2,4) show ?thesis
    by (cases failed)
      (auto simp: server_ok_def on_accept_def do_accept_def session_run_def do_read_def new_Session_def session_ok_def
        clocks_ok_def Clock_now_def split_beta Let_def)
next
  case (step_read i s lim ec)
  have so: "session_ok limit s" using step_read assms(4) by (simp add: server_ok_def list_all_length)
  have "server_ok (V (gw_world (snd (on_read ssl R ne cfg ec s (sv_gateway sv))))) limit sv \<and>
      clocks_ok (gw_world (snd (on_read ssl R ne cfg ec s (sv_gateway sv))))"
  proof (cases ec)
    case (Read_ok req)
    then have "int (length (rq_body req)) < 2 ^ 63"
      using so step_read assms(3) by (simp add: session_ok_def)
    then show ?thesis
      using assms(4) handle_inv [of "with_metrics IncInFlight (sv_gateway sv)" req ssl cfg]
      by (simp add: Read_ok on_read_ok_world server_ok_def clocks_ok_def)
  qed (use assms(4) in \<open>simp_all add: on_read_def server_ok_def\<close>)
  with step_read on_read_session_ok [OF so, of ssl R ne cfg ec "sv_gateway sv"] show ?thesis
    by (simp add: server_ok_def put_session_def list_all_length nth_list_update)
next
  case (step_write i s close failed)
  have so: "session_ok limit s" using step_write assms(4) by (simp add: server_ok_def list_all_length)
  with step_write assms(4) on_write_session_ok [OF so, of close failed "sv_gateway sv"] show ?thesis
    by (simp add: server_ok_def put_session_def list_all_length nth_list_update clocks_ok_def)
qed

lemma server_run_ok:
  assumes "server_run ssl R ne cfg scfg sv es sv'" "int (max_request_body_bytes scfg) < 2 ^ 63"
    and "server_ok (V (gw_world (sv_gateway sv))) (max_request_body_bytes scfg) sv"
  shows "server_ok (V (gw_world (sv_gateway sv'))) (max_request_body_bytes scfg) sv'"
  using assms(1) by (induction rule: server_run.induct) (use assms(2,3) server_step_ok in \<open>blast+\<close>)

end

section \<open>Lemmas: the status codes\<close>

lemma map_storage_error_status: "fst (map_storage_error e) \<in> {400, 404, 409, 500}"
  by (simp add: map_storage_error_def)

lemma error_response_status:
  "rs_status (storage_error_response rc e r) \<in> {400, 404, 409, 500}"
  "rs_status (key_error_response rc e r) \<in> {400, 404, 409, 500}"
  using map_storage_error_status [of e]
  by (simp_all add: storage_error_response_def key_error_response_def split_beta Let_def)

definition answer_codes :: "nat set" where
  "answer_codes = {200, 204, 206, 400, 404, 405, 409, 416, 500}"

lemma dispatch_status: "rs_status (fst (dispatch ssl R req pt rc w)) \<in> answer_codes"
proof -
  have e: "rs_status (storage_error_response rc x r) \<in> answer_codes" "rs_status (key_error_response rc x r) \<in> answer_codes" for x r
    using error_response_status [of rc x r] by (auto simp: answer_codes_def)
  have ec: "fst (map_storage_error x) \<in> answer_codes" for x
    using map_storage_error_status [of x] by (auto simp: answer_codes_def)
  have c: "{200, 204, 206, 400, 404, 405, 409, 416, 500} \<subseteq> answer_codes" by (simp add: answer_codes_def)
  have root: "rs_status (fst (handle_root R req pt rc w)) \<in> answer_codes"
    using e c by (simp add: handle_root_def Let_def split_beta)
  have lst: "rs_status (fst (handle_list ssl R pt rc w)) \<in> answer_codes"
    using e c by (simp add: handle_list_def Let_def split_beta)
  have bucket: "rs_status (fst (handle_bucket ssl R req pt rc w)) \<in> answer_codes"
    using e ec c lst by (simp add: handle_bucket_def Let_def split_beta)
  have put: "rs_status (fst (handle_put R req pt rc w)) \<in> answer_codes"
    using e c by (simp add: handle_put_def Let_def split_beta split: option.split)
  have get: "rs_status (fst (handle_get R req pt rc w)) \<in> answer_codes"
    using e c by (simp add: handle_get_def get_response_def Let_def split_beta split: option.split)
  have head: "rs_status (fst (handle_head R req pt rc w)) \<in> answer_codes"
    using e c by (simp add: handle_head_def Let_def split_beta split: option.split)
  have del: "rs_status (fst (handle_delete R req pt rc w)) \<in> answer_codes"
    using e c by (simp add: handle_delete_def Let_def split_beta)
  show ?thesis
    using root bucket put get head del c by (simp add: dispatch_def handle_object_def)
qed

lemma handle_status:
  "rs_status (fst (handle ssl R cfg req g)) \<in> answer_codes \<union>
     (if served ssl cfg req then {} else {403} \<union> (if length (rq_body req) \<le> cfg_max_object_bytes cfg then {} else {413}))"
proof (cases "served ssl cfg req")
  case True
  with dispatch_status [of ssl R req] show ?thesis by (simp add: handle_served Let_def split_beta)
next
  case False
  from handle_refused [OF this, of R g] False show ?thesis by (auto simp: served_def)
qed

lemma on_read_status:
  assumes "read_within limit ec" "limit \<le> cfg_max_object_bytes cfg" "rs_status (ss_res s) \<in> answer_codes \<union> {403}"
  shows "rs_status (ss_res (fst (on_read ssl R ne cfg ec s g))) \<in> answer_codes \<union> {403}"
proof (cases ec)
  case (Read_ok req)
  let ?g = "with_metrics IncInFlight g"
  have "rs_status (fst (handle ssl R cfg req ?g)) \<in> answer_codes \<union> {403}"
    using handle_status [of ssl R cfg req ?g] assms(1,2) Read_ok by (auto split: if_splits)
  moreover have "200 \<in> answer_codes" by (simp add: answer_codes_def)
  ultimately show ?thesis
    by (simp add: Read_ok on_read_def metrics_response_def Let_def split_beta)
qed (use assms(3) in \<open>simp_all add: on_read_def do_close_def\<close>)

lemma server_step_status:
  assumes "server_step ssl R ne cfg scfg sv e sv'" "max_request_body_bytes scfg \<le> cfg_max_object_bytes cfg"
    and "list_all (session_ok (max_request_body_bytes scfg)) (sv_sessions sv)"
    and "list_all (\<lambda>s. rs_status (ss_res s) \<in> answer_codes \<union> {403}) (sv_sessions sv)"
  shows "list_all (session_ok (max_request_body_bytes scfg)) (sv_sessions sv') \<and>
    list_all (\<lambda>s. rs_status (ss_res s) \<in> answer_codes \<union> {403}) (sv_sessions sv')"
  using assms(1)
proof cases
  case (step_accept failed)
  have "200 \<in> answer_codes" by (simp add: answer_codes_def)
  with step_accept assms(3,4) show ?thesis
    by (cases failed) (simp_all add: on_accept_def do_accept_def session_run_def new_Session_def session_ok_def split_beta Let_def)
next
  case (step_read i s lim ec)
  have s: "session_ok (max_request_body_bytes scfg) s" "rs_status (ss_res s) \<in> answer_codes \<union> {403}"
    using step_read assms(3,4) by (simp_all add: list_all_length)
  then have "read_within (max_request_body_bytes scfg) ec" using step_read by (simp add: session_ok_def)
  from on_read_status [OF this assms(2) s(2), of ssl R ne "sv_gateway sv"]
    on_read_session_ok [OF s(1), of ssl R ne cfg ec "sv_gateway sv"] step_read assms(3,4) show ?thesis
    by (simp add: put_session_def list_all_length nth_list_update)
next
  case (step_write i s close failed)
  have s: "session_ok (max_request_body_bytes scfg) s" "rs_status (ss_res s) \<in> answer_codes \<union> {403}"
    using step_write assms(3,4) by (simp_all add: list_all_length)
  have "ss_res (fst (on_write close failed s (sv_gateway sv))) = ss_res s"
    by (simp add: on_write_def do_close_def Let_def split_beta)
  with on_write_session_ok [OF s(1)] s(2) step_write assms(3,4) show ?thesis
    by (simp add: put_session_def list_all_length nth_list_update)
qed

lemma server_run_status:
  assumes "server_run ssl R ne cfg scfg (start_server acc g) es sv'" "max_request_body_bytes scfg \<le> cfg_max_object_bytes cfg"
  shows "list_all (session_ok (max_request_body_bytes scfg)) (sv_sessions sv') \<and>
    list_all (\<lambda>s. rs_status (ss_res s) \<in> answer_codes \<union> {403}) (sv_sessions sv')"
  using assms(1)
proof (induction rule: server_run.induct)
  case run_start
  show ?case by (simp add: start_server_def listener_run_def do_accept_def)
next
  case (run_step es sv' e sv'')
  with server_step_status [OF _ assms(2)] show ?case by blast
qed

lemma server_run_gauge:
  assumes "server_run ssl R ne cfg scfg (start_server acc g) es sv" "gauge g = Some (0, n)"
  shows "gauge (sv_gateway sv) = Some (of_nat (writing_count sv), n + of_nat (length (filter answer_event es))) \<and>
    length (filter request_event es) = length (filter answer_event es) + writing_count sv"
  using assms(1)
proof (induction rule: server_run.induct)
  case run_start
  show ?case using assms(2) by (simp add: start_server_def listener_run_def do_accept_def writing_count_def)
next
  case (run_step es sv' e sv'')
  have "int (writing_count sv'') = int (writing_count sv') + of_bool (request_event e) - of_bool (answer_event e)"
    using server_step_gauge [OF run_step.hyps(2)] by blast
  then have "(of_int (int (writing_count sv'')) :: u64) =
      of_int (int (writing_count sv') + of_bool (request_event e) - of_bool (answer_event e))" by (simp only:)
  then have "(of_nat (writing_count sv'') :: u64) = of_nat (writing_count sv') + of_bool (request_event e) - of_bool (answer_event e)"
    by (simp add: of_bool_def)
  moreover have "\<not> (request_event e \<and> answer_event e)" by (cases e) auto
  ultimately show ?case
    using run_step.IH server_step_gauge [OF run_step.hyps(2)] by (auto simp: of_bool_def split: if_splits)
qed

section \<open>Lemmas: the framing of a response\<close>

lemma handle_framed:
  assumes "res = fst (handle ssl R cfg req g)" "pt = api_parse_target req (cfg_virtual_host_suffix cfg)"
  shows "rs_version res = rq_version req \<and> rs_keep_alive res = rq_keep_alive req \<and>
    (head_answer R req pt (gw_world g) res \<or>
     rs_content_length res = Some (int (length (rs_body res))) \<and>
       \<not> (rq_method req = ''HEAD'' \<and> pt_bucket pt \<noteq> [] \<and> pt_key pt \<noteq> [] \<and> rs_status res = 200))"
proof (cases "served ssl cfg req")
  case True
  then have "res = fst (dispatch ssl R req pt (ctx_of req g) (gw_world g))"
    using assms by (simp add: handle_served Let_def split_beta)
  from dispatch_framed [OF this] show ?thesis by (auto simp: framed_def ctx_of_def)
next
  case False
  with handle_refused [OF False, of R g] assms(1) show ?thesis by (auto simp: ctx_of_def split: if_splits)
qed

context rocksdb_laws
begin

lemma head_answer_length:
  assumes "store_inv (V w)" "head_answer R req pt w res"
  shows "rs_body res = [] \<and> (\<exists>d. V w (data_key (pt_bucket pt) (pt_key pt)) = Some d \<and> rs_content_length res = Some (int (length d)))"
proof -
  let ?b = "pt_bucket pt" and ?k = "pt_key pt"
  obtain m e w' where h: "head_object R ?b ?k (Some []) w = (Some m, e, w')"
    and r: "rs_body res = []" "rs_content_length res = Some (osize m mod 2 ^ 64)"
    using assms(2) by (auto simp: head_answer_def split: prod.splits option.splits)
  have n: "nul_free ?b" "nul_free ?k" using h by (auto simp: head_object_def split: if_splits)
  obtain v where v: "V w (meta_key ?b ?k) = Some v" "decode_meta v = Some m" using head_object_sound [OF h] by blast
  have "pair_ok (V w (data_key ?b ?k)) (Some v)" using assms(1) n v(1) unfolding store_inv_def by metis
  then obtain d m' where d: "V w (data_key ?b ?k) = Some d" "v = encode_meta m'" "meta_ok m'" "osize m' = int (length d)"
    by (cases "V w (data_key ?b ?k)") auto
  then have "m' = m" "osize m mod 2 ^ 64 = osize m" using v(2) by (auto simp: meta_ok_def in_i64_def)
  with d r show ?thesis by simp
qed

end

section \<open>Examples\<close>

definition demo_scfg :: server_config where
  "demo_scfg = \<lparr>listen_host = ''127.0.0.1'', listen_port = 9000, max_request_body_bytes = 1000\<rparr>"

definition metered_gateway :: "mem_db gateway" where
  "metered_gateway = demo_gateway\<lparr>gw_world := (demo_world demo_db)\<lparr>w_metrics := Some new_Metrics\<rparr>\<rparr>"

lemma demo_run:
  assumes "length (rq_body req) \<le> max_request_body_bytes scfg"
  shows "\<exists>sv. server_run ssl R ne cfg scfg (start_server Acceptor_Listening g) [Accepted False, Read_done 0 (Read_ok req)] sv"
proof -
  let ?sv0 = "start_server Acceptor_Listening g"
  let ?sv1 = "on_accept scfg False ?sv0"
  have "server_step ssl R ne cfg scfg ?sv0 (Accepted False) ?sv1"
    by (rule step_accept) (simp_all add: start_server_def listener_run_def do_accept_def)
  then have r1: "server_run ssl R ne cfg scfg ?sv0 ([] @ [Accepted False]) ?sv1" by (rule run_step [OF run_start])
  have ss: "sv_sessions ?sv1 = [fst (do_read (new_Session (max_request_body_bytes scfg)) g)]"
    by (simp add: on_accept_def do_accept_def session_run_def start_server_def listener_run_def Let_def split_beta)
  have "server_step ssl R ne cfg scfg ?sv1 (Read_done 0 (Read_ok req))
      (put_session 0 ?sv1 (on_read ssl R ne cfg (Read_ok req) (sv_sessions ?sv1 ! 0) (sv_gateway ?sv1)))"
    by (rule step_read [where limit = "max_request_body_bytes scfg"]) (simp_all add: ss assms, simp add: new_Session_def)
  from run_step [OF r1 this] show ?thesis by auto
qed

section \<open>Properties\<close>

text \<open>
  C35: Every response the server starts to write has the protocol version and the connection persistence
  of its request, and a \<open>Content-Length\<close>: for a \<open>HEAD\<close> that finds its object the length of the stored
  object, with no body, and for every other response, that of \<open>/metrics\<close> included, the length of the
  body it carries.
\<close>

theorem responses_framed:
  assumes "rocksdb_laws R view" "store_inv (view (w_db (gw_world g)))"
    and "on_read ssl R need_eof cfg (Read_ok req) s g = (s', g')"
    and "res = ss_res s'" "pt = api_parse_target req (cfg_virtual_host_suffix cfg)"
  shows "waits_for s' = Writing (need_eof res) \<and> rs_version res = rq_version req \<and> rs_keep_alive res = rq_keep_alive req \<and>
    (if rq_method req = ''HEAD'' \<and> pt_bucket pt \<noteq> [] \<and> pt_key pt \<noteq> [] \<and> rs_status res = 200
     then rs_body res = [] \<and>
       (\<exists>d. view (w_db (gw_world g)) (data_key (pt_bucket pt) (pt_key pt)) = Some d \<and> rs_content_length res = Some (int (length d)))
     else rs_content_length res = Some (int (length (rs_body res))))"
proof (cases "is_metrics_request req")
  case True
  then have res: "res = metrics_response req (with_metrics IncInFlight g)" "waits_for s' = Writing (need_eof res)"
    using assms(3,4) by (auto simp: on_read_def Let_def split_beta)
  from True have "rq_method req \<noteq> ''HEAD''" by (simp add: is_metrics_request_def)
  with res(2) show ?thesis
    unfolding res(1) by (simp add: metrics_response_def new_Response_def set_field_def Let_def)
next
  case False
  let ?g = "with_metrics IncInFlight g"
  have res: "res = fst (handle ssl R cfg req ?g)" "waits_for s' = Writing (need_eof res)"
    using assms(3,4) False by (auto simp: on_read_def Let_def split_beta)
  have w: "w_db (gw_world ?g) = w_db (gw_world g)" by simp
  from handle_framed [OF res(1) assms(5)] show ?thesis
  proof (elim conjE disjE)
    assume "head_answer R req pt (gw_world ?g) res"
    with rocksdb_laws.head_answer_length [OF assms(1) _ this] assms(2) w res(2) handle_framed [OF res(1) assms(5)] show ?thesis
      by (auto simp: head_answer_def split: option.splits)
  qed (use res(2) in auto)
qed

theorem responses_framed_witness:
  "\<exists>s' g'. on_read demo_ssl mem_rocksdb (\<lambda>_. False) demo_cfg (Read_ok (demo_request ''HEAD'' (path_target ''pc'' ''obj'') [] []))
      (new_Session 1000) metered_gateway = (s', g') \<and> rs_version (ss_res s') = 11"
proof -
  let ?req = "demo_request ''HEAD'' (path_target ''pc'' ''obj'') [] []"
  obtain s' g' where r: "on_read demo_ssl mem_rocksdb (\<lambda>_. False) demo_cfg (Read_ok ?req) (new_Session 1000) metered_gateway = (s', g')"
    by fastforce
  have "store_inv (map_of (w_db (gw_world metered_gateway)))"
    by (simp add: metered_gateway_def demo_world_def demo_db_inv)
  from responses_framed [OF mem_rocksdb_laws this r refl refl] r show ?thesis by (auto simp: demo_request_def)
qed

text \<open>
  The in-flight gauge is exact: however the completions of the sessions interleave, it is the
  number of sessions that are writing a response; every request that was read has been observed
  once or is being answered, and nothing else is observed.
\<close>

theorem inflight_counts_writing:
  assumes "server_run ssl R need_eof cfg scfg (start_server acc g) es sv"
    and "w_metrics (gw_world g) = Some m0" "inflight m0 = 0"
  shows "\<exists>m. w_metrics (gw_world (sv_gateway sv)) = Some m \<and> inflight m = of_nat (writing_count sv) \<and>
    latency_count m = latency_count m0 + of_nat (length (filter answer_event es)) \<and>
    length (filter request_event es) = length (filter answer_event es) + writing_count sv"
  using server_run_gauge [OF assms(1), of "latency_count m0"] assms(2,3) by (auto simp: gauge_def)

theorem inflight_counts_writing_witness:
  "\<exists>sv m. server_run demo_ssl mem_rocksdb (\<lambda>_. False) demo_cfg demo_scfg (start_server Acceptor_Listening metered_gateway)
      [Accepted False, Read_done 0 (Read_ok (demo_request ''GET'' ''/metrics'' [] []))] sv \<and>
     w_metrics (gw_world (sv_gateway sv)) = Some m \<and> inflight m = 1"
proof -
  let ?req = "demo_request ''GET'' ''/metrics'' [] []"
  have "length (rq_body ?req) \<le> max_request_body_bytes demo_scfg" by (simp add: demo_request_def)
  from demo_run [OF this] obtain sv where r: "server_run demo_ssl mem_rocksdb (\<lambda>_. False) demo_cfg demo_scfg
      (start_server Acceptor_Listening metered_gateway) [Accepted False, Read_done 0 (Read_ok ?req)] sv" by blast
  have "w_metrics (gw_world metered_gateway) = Some new_Metrics" "inflight new_Metrics = 0"
    by (simp_all add: metered_gateway_def new_Metrics_def)
  from inflight_counts_writing [OF r this] obtain m where m: "w_metrics (gw_world (sv_gateway sv)) = Some m"
    "inflight m = of_nat (writing_count sv)" and c: "Suc 0 = writing_count sv" by auto
  from m have "w_metrics (gw_world (sv_gateway sv)) = Some m \<and> inflight m = 1" by (simp add: c [symmetric])
  with r show ?thesis by blast
qed

text \<open>
  The object store stays well formed whatever clients send and however their requests
  interleave, even when RocksDB calls fail: after any run of the server the database holds only
  well-formed keys, and data and metadata of every object agree.
\<close>

theorem server_keeps_store:
  assumes "rocksdb_laws R view" "server_run ssl R need_eof cfg scfg (start_server acc g) es sv"
    and "store_inv (view (w_db (gw_world g)))" "\<forall>n. in_i64 (w_system (gw_world g) n)"
    and "int (max_request_body_bytes scfg) < 2 ^ 63"
  shows "store_inv (view (w_db (gw_world (sv_gateway sv))))"
proof -
  have "server_ok (view (w_db (gw_world (sv_gateway (start_server acc g))))) (max_request_body_bytes scfg) (start_server acc g)"
    using assms(3,4) by (simp add: server_ok_def start_server_def listener_run_def do_accept_def clocks_ok_def)
  from rocksdb_laws.server_run_ok [OF assms(1,2,5) this] show ?thesis by (simp add: server_ok_def)
qed

theorem server_keeps_store_witness:
  "\<exists>sv. server_run demo_ssl mem_rocksdb (\<lambda>_. False) demo_cfg demo_scfg (start_server Acceptor_Listening metered_gateway)
      [Accepted False, Read_done 0 (Read_ok (demo_request ''PUT'' ''/pc/k'' [] ''abc''))] sv \<and>
     store_inv (map_of (w_db (gw_world (sv_gateway sv))))"
proof -
  let ?req = "demo_request ''PUT'' ''/pc/k'' [] ''abc''"
  have "length (rq_body ?req) \<le> max_request_body_bytes demo_scfg" by (simp add: demo_request_def demo_scfg_def)
  from demo_run [OF this] obtain sv where r: "server_run demo_ssl mem_rocksdb (\<lambda>_. False) demo_cfg demo_scfg
      (start_server Acceptor_Listening metered_gateway) [Accepted False, Read_done 0 (Read_ok ?req)] sv" by blast
  from server_keeps_store [OF mem_rocksdb_laws this] r demo_db_inv show ?thesis
    by (auto simp: metered_gateway_def demo_world_def in_i64_def demo_scfg_def)
qed

end
