(* ===== verification/GatewayMain.thy ===== *)
theory GatewayMain
  imports HttpServer
begin

text \<open>
  The gateway's \<open>main.cpp\<close>: from the options to the running server.  The command line is read by
  Boost.Program_options, whose result is an argument (the options or an exception), as are the
  opening of RocksDB, \<open>make_address\<close> and the calls of the acceptor.  \<open>gateway_main\<close> ends with an exit
  code or an uncaught exception, or yields the configuration, the server in its initial state and
  the number of worker threads.

  The lemmas show that the parts are configured consistently, and what follows for the server.
\<close>

record gw_options =
  go_help :: bool
  go_listen :: string
  go_db_path :: string
  go_threads :: int
  go_cache_mb :: int
  go_max_object_mb :: int
  go_auth :: string
  go_access_key :: string
  go_secret_key :: string
  go_vhost_suffix :: string
  go_disable_wal :: bool
  go_sync :: bool

definition default_gw_options :: "nat \<Rightarrow> gw_options" where
  "default_gw_options hardware_concurrency =
     \<lparr>go_help = False, go_listen = ''0.0.0.0:9000'', go_db_path = ''./s3gw_rocksdb'',
      go_threads = int (max 1 hardware_concurrency), go_cache_mb = 512, go_max_object_mb = 64, go_auth = ''none'',
      go_access_key = ''AKIDEXAMPLE'', go_secret_key = ''YOURSECRET'', go_vhost_suffix = [],
      go_disable_wal = False, go_sync = False\<rparr>"

definition parse_auth_mode :: "string \<Rightarrow> Mode" where
  "parse_auth_mode s = (if s = ''none'' then Mode_None else Mode_SigV4)"

text \<open>\<open>rfind\<close> of one character, and \<open>atoi\<close>, which is undefined when the value does not fit an \<open>int\<close>.\<close>

definition rfind_char :: "char \<Rightarrow> string \<Rightarrow> nat option" where
  "rfind_char c s = map_option (\<lambda>i. length s - Suc i) (find_char c (rev s))"

definition atoi :: "string \<Rightarrow> int option" where
  "atoi s = (case sto_value s of None \<Rightarrow> Some 0 | Some v \<Rightarrow> if in_i32 v then Some v else None)"

datatype listen_result = Bad_listen | Undefined_port | Listen_at string int

definition parse_listen :: "string \<Rightarrow> listen_result" where
  "parse_listen listen =
     (case rfind_char (CHR '':'') listen of
        None \<Rightarrow> Bad_listen
      | Some colon \<Rightarrow>
          (case atoi (drop (Suc colon) listen) of
             None \<Rightarrow> Undefined_port
           | Some port_i \<Rightarrow>
               if port_i \<le> 0 \<or> port_i > 65535 then Bad_listen else Listen_at (take colon listen) port_i))"

record gw_setup =
  gs_s3 :: s3_config
  gs_server_cfg :: server_config
  gs_cache_bytes :: nat
  gs_disable_wal :: bool
  gs_sync :: bool

definition make_setup :: "gw_options \<Rightarrow> string \<Rightarrow> int \<Rightarrow> gw_setup" where
  "make_setup opt host port_i =
     (let s3cfg = \<lparr>cfg_auth_mode = parse_auth_mode (go_auth opt),
                   cfg_creds = \<lparr>cr_access_key = go_access_key opt, cr_secret_key = go_secret_key opt\<rparr>,
                   cfg_virtual_host_suffix = go_vhost_suffix opt,
                   cfg_max_object_bytes = nat (max 1 (go_max_object_mb opt)) * 1024 * 1024\<rparr>
      in \<lparr>gs_s3 = s3cfg,
          gs_server_cfg = \<lparr>listen_host = host, listen_port = nat port_i, max_request_body_bytes = cfg_max_object_bytes s3cfg\<rparr>,
          gs_cache_bytes = (i32_to_size (go_cache_mb opt) * 1024 * 1024) mod 2 ^ 64,
          gs_disable_wal = go_disable_wal opt, gs_sync = go_sync opt\<rparr>)"

text \<open>
  The outcome.  The workers join at once when there are none, and \<open>reserve\<close> throws for a negative
  count; with at least one worker the server runs.
\<close>

datatype 'db gw_outcome = GwExit int | GwUncaught | GwUndefined | GwRun gw_setup "'db server" nat

definition new_world :: "(nat \<Rightarrow> int) \<Rightarrow> (nat \<Rightarrow> int) \<Rightarrow> 'db \<Rightarrow> 'db world" where
  "new_world steady sys db = \<lparr>w_db = db, w_metrics = Some new_Metrics, w_steady = steady, w_system = sys, w_tick = 0\<rparr>"

definition gateway_main ::
  "(string + gw_options) \<Rightarrow> (gw_setup \<Rightarrow> string \<Rightarrow> rocks_status \<times> 'db) \<Rightarrow> (string \<Rightarrow> bool) \<Rightarrow> acceptor \<Rightarrow>
   (nat \<Rightarrow> int) \<Rightarrow> (nat \<Rightarrow> int) \<Rightarrow> 'db gw_outcome" where
  "gateway_main parsed db_open valid_address acc steady sys =
     (case parsed of
        Inl e \<Rightarrow> GwExit 2
      | Inr opt \<Rightarrow>
          if go_help opt then GwExit 0
          else
            case parse_listen (go_listen opt) of
              Bad_listen \<Rightarrow> GwExit 2
            | Undefined_port \<Rightarrow> GwUndefined
            | Listen_at host port_i \<Rightarrow>
                let setup = make_setup opt host port_i;
                    (st, db) = db_open setup (go_db_path opt)
                in if \<not> ok st then GwExit 1
                   else if \<not> valid_address host then GwUncaught
                   else
                     let sv = start_server acc \<lparr>gw_world = new_world steady sys db, gw_reqid = 1\<rparr> in
                     if go_threads opt < 0 then GwUncaught
                     else if go_threads opt = 0 then GwExit 0
                     else GwRun setup sv (nat (go_threads opt)))"

section \<open>Lemmas\<close>

lemma parse_listen_port: "parse_listen l = Listen_at h p \<Longrightarrow> 0 < p \<and> p < 65536"
  by (auto simp: parse_listen_def split: option.splits if_splits)

lemma gateway_main_run:
  assumes "gateway_main parsed db_open va acc steady sys = GwRun setup sv n"
  obtains opt host p db st where "parsed = Inr opt" "parse_listen (go_listen opt) = Listen_at host p" "setup = make_setup opt host p"
    "db_open setup (go_db_path opt) = (st, db)" "ok st"
    "sv = start_server acc \<lparr>gw_world = new_world steady sys db, gw_reqid = 1\<rparr>" "0 < go_threads opt"
  using assms by (auto simp: gateway_main_def Let_def split: sum.splits if_splits listen_result.splits prod.splits)

lemma make_setup_sel [simp]:
  "max_request_body_bytes (gs_server_cfg (make_setup opt h p)) = cfg_max_object_bytes (gs_s3 (make_setup opt h p))"
  "cfg_max_object_bytes (gs_s3 (make_setup opt h p)) = nat (max 1 (go_max_object_mb opt)) * 1048576"
  "listen_port (gs_server_cfg (make_setup opt h p)) = nat p"
  "listen_host (gs_server_cfg (make_setup opt h p)) = h"
  "cfg_auth_mode (gs_s3 (make_setup opt h p)) = parse_auth_mode (go_auth opt)"
  by (simp_all add: make_setup_def Let_def)

lemma sto_value_to_string: "sto_value (to_string (int n)) = Some (int n)"
proof -
  obtain c cs where c: "nat_to_dec n = c # cs" by (meson nat_to_dec_nonempty neq_Nil_conv)
  then have "isdigit c" using set_nat_to_dec [of c n] by simp
  then have "\<not> isspace c" "c \<noteq> CHR ''-''" "c \<noteq> CHR ''+''" by (auto simp: isdigit_def isspace_def)
  moreover have tw: "takeWhile isdigit (c # cs) = c # cs" "dec_value (c # cs) = n"
    using takeWhile_digits [OF nat_to_dec_digits [of n], of "[]"] dec_value_nat_to_dec [of n] by (simp_all add: c)
  ultimately show ?thesis by (simp add: sto_value_def to_string_def c tw Let_def del: takeWhile.simps)
qed

lemma rfind_char_append:
  "c \<notin> set t \<Longrightarrow> rfind_char c (s @ c # t) = Some (length s)"
  using find_char_append [of c "rev t" "rev s"] by (simp add: rfind_char_def)

lemma parse_listen_decimal:
  "parse_listen (host @ '':'' @ to_string (int port)) =
     (if int port < 2 ^ 31 then if port = 0 \<or> 65535 < port then Bad_listen else Listen_at host (int port) else Undefined_port)"
proof -
  have "CHR '':'' \<notin> set (to_string (int port))" using set_to_string [of "CHR '':''" "int port"] by (auto simp: isdigit_def)
  then show ?thesis by (auto simp: parse_listen_def rfind_char_append atoi_def sto_value_to_string in_i32_def)
qed

section \<open>Properties\<close>

text \<open>
  C29: The server that \<open>main\<close> starts follows its options.  For \<open>--listen host:port\<close> it listens on that
  host and port, which is from 1 to 65535; authentication is off only for \<open>--auth none\<close>; objects may have
  \<open>--max_object_mb\<close> MiB, at least one, and that is also the body limit of the parser.  So the API's answer
  413 never reaches a client: in every state the server reaches, a read that delivers a request delivers
  one within the limit, the read of a larger one can only fail, which ends its session with no answer
  and changes nothing else, and the answers have one of ten other status codes.
\<close>

theorem too_large_never_answered:
  assumes "gateway_main (Inr opt) db_open valid_address acc steady sys = GwRun setup sv0 n"
    and "go_listen opt = host @ '':'' @ to_string (int port)"
    and limit: "limit = nat (max 1 (go_max_object_mb opt)) * 1024 * 1024"
    and "server_run ssl R need_eof (gs_s3 setup) (gs_server_cfg setup) sv0 es sv"
  shows "listen_host (gs_server_cfg setup) = host \<and> listen_port (gs_server_cfg setup) = port \<and> 0 < port \<and> port < 65536 \<and>
    (cfg_auth_mode (gs_s3 setup) = Mode_None \<longleftrightarrow> go_auth opt = ''none'') \<and> cfg_max_object_bytes (gs_s3 setup) = limit \<and>
    (\<forall>i req sv'. server_step ssl R need_eof (gs_s3 setup) (gs_server_cfg setup) sv (Read_done i (Read_ok req)) sv' \<longrightarrow>
       length (rq_body req) \<le> limit) \<and>
    (\<forall>i sv'. server_step ssl R need_eof (gs_s3 setup) (gs_server_cfg setup) sv (Read_done i Read_failed) sv' \<longrightarrow>
       sv' = sv\<lparr>sv_sessions := (sv_sessions sv)[i := (sv_sessions sv ! i)\<lparr>waits_for := Idle\<rparr>]\<rparr>) \<and>
    list_all (\<lambda>s. rs_status (ss_res s) \<in> {200, 204, 206, 400, 403, 404, 405, 409, 416, 500}) (sv_sessions sv)"
proof -
  obtain h p db where m: "parse_listen (go_listen opt) = Listen_at h p"
    "setup = make_setup opt h p" "sv0 = start_server acc \<lparr>gw_world = new_world steady sys db, gw_reqid = 1\<rparr>"
    using gateway_main_run [OF assms(1)] by (metis sum.inject(2))
  have hp: "h = host" "p = int port" "0 < port" "port < 65536"
    using m(1) parse_listen_decimal [of host port] assms(2) by (auto split: if_splits)
  have ok: "list_all (session_ok limit) (sv_sessions sv)"
    "list_all (\<lambda>s. rs_status (ss_res s) \<in> answer_codes \<union> {403}) (sv_sessions sv)"
    using server_run_status [OF assms(4) [unfolded m(3)]] m(2) by (simp_all add: limit mult.commute)
  have r: "length (rq_body req) \<le> limit"
    if "server_step ssl R need_eof (gs_s3 setup) (gs_server_cfg setup) sv (Read_done i (Read_ok req)) sv'" for i req sv'
    using that ok(1) by (auto simp: list_all_length session_ok_def elim!: step_readE)
  have f: "sv' = sv\<lparr>sv_sessions := (sv_sessions sv)[i := (sv_sessions sv ! i)\<lparr>waits_for := Idle\<rparr>]\<rparr>"
    if "server_step ssl R need_eof (gs_s3 setup) (gs_server_cfg setup) sv (Read_done i Read_failed) sv'" for i sv'
    using that by (auto simp: on_read_def put_session_def elim!: step_readE)
  have "list_all (\<lambda>s. rs_status (ss_res s) \<in> {200, 204, 206, 400, 403, 404, 405, 409, 416, 500}) (sv_sessions sv)"
    using ok(2) by (auto simp: list_all_iff answer_codes_def)
  with r f hp m(2) show ?thesis by (simp add: parse_auth_mode_def limit)
qed

definition demo_gw_options :: gw_options where
  "demo_gw_options = (default_gw_options 4)\<lparr>go_listen := ''127.0.0.1:9000''\<rparr>"

theorem too_large_never_answered_witness:
  "\<exists>setup sv0 n sv. gateway_main (Inr demo_gw_options) (\<lambda>s p. (Status_OK, demo_db)) (\<lambda>_. True) Acceptor_Listening
       (\<lambda>n. int n) (\<lambda>_. 1700000000) = GwRun setup sv0 n \<and>
     server_run demo_ssl mem_rocksdb (\<lambda>_. False) (gs_s3 setup) (gs_server_cfg setup) sv0
       [Accepted False, Read_done 0 (Read_ok (demo_request ''PUT'' ''/pc/k'' [] ''abc''))] sv \<and>
     listen_port (gs_server_cfg setup) = 9000 \<and> list_all (\<lambda>s. rs_status (ss_res s) \<noteq> 413) (sv_sessions sv)"
proof -
  let ?req = "demo_request ''PUT'' ''/pc/k'' [] ''abc''" and ?s = "make_setup demo_gw_options ''127.0.0.1'' 9000"
  let ?sv0 = "start_server Acceptor_Listening \<lparr>gw_world = new_world (\<lambda>n. int n) (\<lambda>_. 1700000000) demo_db, gw_reqid = 1\<rparr>"
  have "parse_listen (go_listen demo_gw_options) = Listen_at ''127.0.0.1'' 9000"
    unfolding demo_gw_options_def by code_simp
  then have m: "gateway_main (Inr demo_gw_options) (\<lambda>s p. (Status_OK, demo_db)) (\<lambda>_. True) Acceptor_Listening
      (\<lambda>n. int n) (\<lambda>_. 1700000000) = GwRun ?s ?sv0 4"
    by (simp add: gateway_main_def demo_gw_options_def default_gw_options_def Let_def)
  have "length (rq_body ?req) \<le> max_request_body_bytes (gs_server_cfg ?s)"
    by (simp add: demo_request_def demo_gw_options_def default_gw_options_def)
  from demo_run [OF this] obtain sv where r: "server_run demo_ssl mem_rocksdb (\<lambda>_. False) (gs_s3 ?s) (gs_server_cfg ?s)
      ?sv0 [Accepted False, Read_done 0 (Read_ok ?req)] sv" by blast
  have "go_listen demo_gw_options = ''127.0.0.1'' @ '':'' @ to_string (int 9000)"
    by (simp add: demo_gw_options_def to_string_def nat_to_dec.simps digit_char_def) code_simp
  note t = too_large_never_answered [OF m this refl r]
  have "listen_port (gs_server_cfg ?s) = 9000" using t [THEN conjunct2, THEN conjunct1] .
  moreover have "list_all (\<lambda>s. rs_status (ss_res s) \<in> {200, 204, 206, 400, 403, 404, 405, 409, 416, 500}) (sv_sessions sv)"
    using t by (elim conjE)
  then have "list_all (\<lambda>s. rs_status (ss_res s) \<noteq> 413) (sv_sessions sv)"
    by (rule list.pred_mono_strong) auto
  ultimately show ?thesis using m r by (intro exI [of _ ?s] exI [of _ ?sv0] exI [of _ 4] exI [of _ sv] conjI)
qed

end
