(* ===== verification/Programs.thy ===== *)
theory Programs
  imports HttpServer
begin

text \<open>
  The methods of the object store and the requests of the API once more, now as programs: trees of
  the calls they make, of RocksDB, of the clocks and of the metrics, with what they do on each
  outcome.  A program can be stopped between any two calls, which is where worker threads of the
  gateway interleave.

  Run without interruption, every program does exactly what the function of \<open>ObjectStore\<close> or
  \<open>S3Api\<close> does: \<open>run_handle_p\<close> is the equivalence for \<open>Api::handle\<close>.
\<close>

section \<open>Programs\<close>

datatype 'a prog =
  Ret 'a
| Call_Now "int \<Rightarrow> 'a prog"
| Call_Clock "int \<Rightarrow> 'a prog"
| Call_Get string "rocks_status \<times> bytes \<Rightarrow> 'a prog"
| Call_Put string bytes "rocks_status \<Rightarrow> 'a prog"
| Call_Delete string "rocks_status \<Rightarrow> 'a prog"
| Call_Write "batch_op list" nat "rocks_status \<Rightarrow> 'a prog"
| Call_Seek string "rocks_iter \<Rightarrow> 'a prog"
| Call_Observe string rocks_status nat int "'a prog"

text \<open>One call, and the rest of the program; the timed calls are those of \<open>ObjectStore\<close>.\<close>

fun step_prog :: "'db rocksdb \<Rightarrow> 'a prog \<Rightarrow> 'db world \<Rightarrow> 'a prog \<times> 'db world" where
  "step_prog R (Ret a) w = (Ret a, w)"
| "step_prog R (Call_Now f) w = (case unix_now_seconds w of (t, w') \<Rightarrow> (f t, w'))"
| "step_prog R (Call_Clock f) w = (case Clock_now w of (t, w') \<Rightarrow> (f t, w'))"
| "step_prog R (Call_Get k f) w = (case timed_Get R k w of (st, v, w') \<Rightarrow> (f (st, v), w'))"
| "step_prog R (Call_Put k v f) w = (case timed_Put R k v w of (st, w') \<Rightarrow> (f st, w'))"
| "step_prog R (Call_Delete k f) w = (case timed_Delete R k w of (st, w') \<Rightarrow> (f st, w'))"
| "step_prog R (Call_Write b n f) w = (case timed_Write R b n w of (st, w') \<Rightarrow> (f st, w'))"
| "step_prog R (Call_Seek k f) w = (f (db_Seek R (w_db w) k), w)"
| "step_prog R (Call_Observe op st n t p) w = (p, observe_rocksdb op st n t w)"

primrec run_prog :: "'db rocksdb \<Rightarrow> 'a prog \<Rightarrow> 'db world \<Rightarrow> 'a \<times> 'db world" where
  "run_prog R (Ret a) w = (a, w)"
| "run_prog R (Call_Now f) w = (case unix_now_seconds w of (t, w') \<Rightarrow> run_prog R (f t) w')"
| "run_prog R (Call_Clock f) w = (case Clock_now w of (t, w') \<Rightarrow> run_prog R (f t) w')"
| "run_prog R (Call_Get k f) w = (case timed_Get R k w of (st, v, w') \<Rightarrow> run_prog R (f (st, v)) w')"
| "run_prog R (Call_Put k v f) w = (case timed_Put R k v w of (st, w') \<Rightarrow> run_prog R (f st) w')"
| "run_prog R (Call_Delete k f) w = (case timed_Delete R k w of (st, w') \<Rightarrow> run_prog R (f st) w')"
| "run_prog R (Call_Write b n f) w = (case timed_Write R b n w of (st, w') \<Rightarrow> run_prog R (f st) w')"
| "run_prog R (Call_Seek k f) w = run_prog R (f (db_Seek R (w_db w) k)) w"
| "run_prog R (Call_Observe op st n t p) w = run_prog R p (observe_rocksdb op st n t w)"

primrec bind_prog :: "'a prog \<Rightarrow> ('a \<Rightarrow> 'b prog) \<Rightarrow> 'b prog" where
  "bind_prog (Ret a) g = g a"
| "bind_prog (Call_Now f) g = Call_Now (\<lambda>t. bind_prog (f t) g)"
| "bind_prog (Call_Clock f) g = Call_Clock (\<lambda>t. bind_prog (f t) g)"
| "bind_prog (Call_Get k f) g = Call_Get k (\<lambda>r. bind_prog (f r) g)"
| "bind_prog (Call_Put k v f) g = Call_Put k v (\<lambda>st. bind_prog (f st) g)"
| "bind_prog (Call_Delete k f) g = Call_Delete k (\<lambda>st. bind_prog (f st) g)"
| "bind_prog (Call_Write b n f) g = Call_Write b n (\<lambda>st. bind_prog (f st) g)"
| "bind_prog (Call_Seek k f) g = Call_Seek k (\<lambda>it. bind_prog (f it) g)"
| "bind_prog (Call_Observe op st n t p) g = Call_Observe op st n t (bind_prog p g)"

section \<open>The object store\<close>

definition bucket_exists_p :: "string \<Rightarrow> err \<Rightarrow> (bool \<times> err) prog" where
  "bucket_exists_p bucket err =
     (if contains_nul bucket then Ret (False, set_err ''Invalid bucket'' err)
      else
        Call_Get (bucket_key bucket) (\<lambda>(st, v).
          if ok st then Ret (True, err)
          else if IsNotFound st then Ret (False, err)
          else Ret (False, set_err (ToString st) err)))"

definition create_bucket_p :: "string \<Rightarrow> err \<Rightarrow> (bool \<times> err) prog" where
  "create_bucket_p bucket err =
     (if contains_nul bucket then Ret (False, set_err ''Invalid bucket'' err)
      else
        Call_Get (bucket_key bucket) (\<lambda>(st, v).
          if ok st then Ret (True, err)
          else if \<not> IsNotFound st \<and> \<not> ok st then Ret (False, set_err (ToString st) err)
          else
            Call_Put (bucket_key bucket) [] (\<lambda>st.
              if \<not> ok st then Ret (False, set_err (ToString st) err) else Ret (True, err))))"

definition list_buckets_p :: "err \<Rightarrow> (string list \<times> err) prog" where
  "list_buckets_p err =
     Call_Clock (\<lambda>start. Call_Seek [CHR ''B'', CHR 0x00] (\<lambda>it.
       let (out, left) = list_buckets_loop (it_entries it);
           st = it_status (it\<lparr>it_entries := left\<rparr>)
       in Call_Observe ''iter'' st 0 start (Ret (out, if \<not> ok st then set_err (ToString st) err else err))))"

definition delete_bucket_p :: "string \<Rightarrow> err \<Rightarrow> (bool \<times> err) prog" where
  "delete_bucket_p bucket err =
     (if contains_nul bucket then Ret (False, set_err ''Invalid bucket'' err)
      else
        bind_prog (bucket_exists_p bucket err) (\<lambda>(ex, err).
          if \<not> ex then Ret (False, set_err_if_empty ''NoSuchBucket'' err)
          else
            Call_Seek (meta_prefix bucket) (\<lambda>it.
              if Valid it \<and> starts_with (meta_prefix bucket) (it_key it) then Ret (False, set_err ''BucketNotEmpty'' err)
              else if \<not> ok (it_status it) then Ret (False, set_err (ToString (it_status it)) err)
              else
                Call_Delete (bucket_key bucket) (\<lambda>st.
                  if \<not> ok st then Ret (False, set_err (ToString st) err) else Ret (True, err)))))"

definition put_object_p :: "string \<Rightarrow> string \<Rightarrow> bytes \<Rightarrow> string \<Rightarrow> err \<Rightarrow> (GwObjectMeta option \<times> err) prog" where
  "put_object_p bucket key data ctype err =
     (if contains_nul bucket \<or> contains_nul key then Ret (None, set_err ''Invalid bucket/key'' err)
      else
        Call_Now (\<lambda>now.
          let m = \<lparr>etag = [], mtime = now, osize = int (length data),
                   content_type = (if ctype = [] then ''application/octet-stream'' else ctype)\<rparr>
          in Call_Write [BPut (data_key bucket key) data, BPut (meta_key bucket key) (encode_meta m)] (length data) (\<lambda>st.
               if \<not> ok st then Ret (None, set_err (ToString st) err) else Ret (Some m, err))))"

definition head_object_p :: "string \<Rightarrow> string \<Rightarrow> err \<Rightarrow> (GwObjectMeta option \<times> err) prog" where
  "head_object_p bucket key err =
     (if contains_nul bucket \<or> contains_nul key then Ret (None, set_err ''Invalid bucket/key'' err)
      else
        bind_prog (bucket_exists_p bucket err) (\<lambda>(ex, err).
          if \<not> ex then Ret (None, set_err_if_empty ''NoSuchBucket'' err)
          else
            Call_Get (meta_key bucket key) (\<lambda>(st, meta_val).
              if IsNotFound st then Ret (None, set_err ''NoSuchKey'' err)
              else if \<not> ok st then Ret (None, set_err (ToString st) err)
              else (case decode_meta meta_val of
                      None \<Rightarrow> Ret (None, set_err ''Corrupt metadata'' err)
                    | Some m \<Rightarrow> Ret (Some m, err)))))"

definition get_object_p :: "string \<Rightarrow> string \<Rightarrow> err \<Rightarrow> ((bytes \<times> GwObjectMeta) option \<times> err) prog" where
  "get_object_p bucket key err =
     bind_prog (head_object_p bucket key err) (\<lambda>(meta, err).
       case meta of
         None \<Rightarrow> Ret (None, err)
       | Some m \<Rightarrow>
           Call_Get (data_key bucket key) (\<lambda>(st, data_val).
             if IsNotFound st then Ret (None, set_err ''NoSuchKey'' err)
             else if \<not> ok st then Ret (None, set_err (ToString st) err)
             else Ret (Some (data_val, m), err)))"

definition get_object_data_p :: "string \<Rightarrow> string \<Rightarrow> err \<Rightarrow> (bytes option \<times> err) prog" where
  "get_object_data_p bucket key err =
     (if contains_nul bucket \<or> contains_nul key then Ret (None, set_err ''Invalid bucket/key'' err)
      else
        Call_Get (data_key bucket key) (\<lambda>(st, data_val).
          if IsNotFound st then Ret (None, set_err ''NoSuchKey'' err)
          else if \<not> ok st then Ret (None, set_err (ToString st) err)
          else Ret (Some data_val, err)))"

definition delete_object_p :: "string \<Rightarrow> string \<Rightarrow> err \<Rightarrow> (bool \<times> err) prog" where
  "delete_object_p bucket key err =
     (if contains_nul bucket \<or> contains_nul key then Ret (False, set_err ''Invalid bucket/key'' err)
      else
        bind_prog (bucket_exists_p bucket err) (\<lambda>(ex, err).
          if \<not> ex then Ret (False, set_err_if_empty ''NoSuchBucket'' err)
          else
            Call_Write [BDelete (meta_key bucket key), BDelete (data_key bucket key)] 0 (\<lambda>st.
              if \<not> ok st then Ret (False, set_err (ToString st) err) else Ret (True, err))))"

text \<open>
  The look-ahead of a listing opens a second iterator, a call of its own.  The loop runs on the
  entries of the first iterator and makes no call until it is full.
\<close>

definition look_ahead_p :: "'md openssl \<Rightarrow> string \<Rightarrow> string \<Rightarrow> string \<Rightarrow> ListResult \<Rightarrow> ListResult prog" where
  "look_ahead_p ssl mp pfx last_meta_key res =
     Call_Seek last_meta_key (\<lambda>it2.
       let it2 = (if Valid it2 then Next it2 else it2)
       in if Valid it2 \<and> starts_with mp (it_key it2)
             \<and> (pfx = [] \<or> starts_with pfx (drop (length mp) (it_key it2)))
          then Ret (res\<lparr>is_truncated := True, next_continuation_token := base64_encode ssl last_meta_key\<rparr>)
          else Ret res)"

fun list_loop_p ::
  "'md openssl \<Rightarrow> string \<Rightarrow> string \<Rightarrow> int \<Rightarrow> int \<Rightarrow> ListResult \<Rightarrow> (string \<times> bytes) list \<Rightarrow>
   (ListResult \<times> (string \<times> bytes) list) prog" where
  "list_loop_p ssl mp pfx max_keys cnt res [] = Ret (res, [])"
| "list_loop_p ssl mp pfx max_keys cnt res ((ks, vs) # rest) =
     (if \<not> starts_with mp ks then Ret (res, (ks, vs) # rest)
      else
        let obj_key = drop (length mp) ks in
        if pfx \<noteq> [] \<and> \<not> starts_with pfx obj_key then Ret (res, (ks, vs) # rest)
        else
          case decode_meta vs of
            None \<Rightarrow> list_loop_p ssl mp pfx max_keys cnt res rest
          | Some meta \<Rightarrow>
              let res = res\<lparr>lr_objects := lr_objects res @ [\<lparr>lo_key = obj_key, lo_meta = meta\<rparr>]\<rparr>;
                  cnt = cnt + 1
              in if cnt \<ge> max_keys
                 then bind_prog (look_ahead_p ssl mp pfx ks res) (\<lambda>res. Ret (res, (ks, vs) # rest))
                 else list_loop_p ssl mp pfx max_keys cnt res rest)"

definition list_objects_v2_p ::
  "'md openssl \<Rightarrow> string \<Rightarrow> string \<Rightarrow> int \<Rightarrow> string \<Rightarrow> err \<Rightarrow> (ListResult \<times> err) prog" where
  "list_objects_v2_p ssl bucket pfx max_keys token err =
     (if contains_nul bucket \<or> contains_nul pfx \<or> contains_nul token
      then Ret (empty_ListResult, set_err ''Invalid bucket/prefix/token'' err)
      else
        bind_prog (bucket_exists_p bucket err) (\<lambda>(ex, err).
          if \<not> ex then Ret (empty_ListResult, set_err_if_empty ''NoSuchBucket'' err)
          else
            let max_keys = clamp_max_keys max_keys;
                mp = meta_prefix bucket
            in case (if token \<noteq> [] then base64_decode ssl token else Some (mp @ pfx)) of
                 None \<Rightarrow> Ret (empty_ListResult, set_err ''Invalid continuation-token'' err)
               | Some seek_key \<Rightarrow>
                   Call_Clock (\<lambda>start. Call_Seek seek_key (\<lambda>it.
                     let it = (if token \<noteq> [] \<and> Valid it \<and> it_key it = seek_key then Next it else it)
                     in bind_prog (list_loop_p ssl mp pfx max_keys 0 empty_ListResult (it_entries it)) (\<lambda>(res, left).
                          let st = it_status (it\<lparr>it_entries := left\<rparr>)
                          in Call_Observe ''iter'' st 0 start
                               (Ret (res, if \<not> ok st then set_err (ToString st) err else err)))))))"


section \<open>The requests\<close>

definition handle_root_p :: "Request \<Rightarrow> ParsedTarget \<Rightarrow> req_ctx \<Rightarrow> Response prog" where
  "handle_root_p req pt rc =
     (if rq_method req \<noteq> ''GET''
      then Ret (err_response rc 405 ''MethodNotAllowed'' ''Unsupported method'' (pt_path pt))
      else
        bind_prog (list_buckets_p (Some [])) (\<lambda>(buckets, err).
          if the err \<noteq> [] then Ret (storage_error_response rc (the err) (pt_path pt))
          else
            Call_Now (\<lambda>t.
              let now = iso8601_gmt t;
                  body = xml_decl @ ''<ListAllMyBucketsResult'' @ xmlns @ ''>''
                           @ ''<Owner><ID></ID><DisplayName></DisplayName></Owner><Buckets>''
                           @ concat (map (bucket_xml now) buckets) @ ''</Buckets></ListAllMyBucketsResult>''
              in Ret (make_xml_response 200 body (rc_keep_alive rc) (rc_version rc)))))"

definition handle_list_p :: "'md openssl \<Rightarrow> ParsedTarget \<Rightarrow> req_ctx \<Rightarrow> Response prog" where
  "handle_list_p ssl pt rc =
     (let pfx = (case qp_get pt ''prefix'' of Some p \<Rightarrow> p | None \<Rightarrow> []);
          max_keys = (case qp_get pt ''max-keys'' of
                        Some mk \<Rightarrow> (case stoll mk of Some v \<Rightarrow> v | None \<Rightarrow> 1000)
                      | None \<Rightarrow> 1000);
          cont = (case qp_get pt ''continuation-token'' of Some t \<Rightarrow> t | None \<Rightarrow> [])
      in bind_prog (list_objects_v2_p ssl (pt_bucket pt) pfx max_keys cont (Some [])) (\<lambda>(lr, err).
           if the err \<noteq> [] then Ret (storage_error_response rc (the err) (pt_path pt))
           else Ret (make_xml_response 200 (list_xml (pt_bucket pt) pfx max_keys cont lr) (rc_keep_alive rc) (rc_version rc))))"

definition handle_bucket_p :: "'md openssl \<Rightarrow> Request \<Rightarrow> ParsedTarget \<Rightarrow> req_ctx \<Rightarrow> Response prog" where
  "handle_bucket_p ssl req pt rc =
     (if rq_method req = ''PUT'' then
        bind_prog (create_bucket_p (pt_bucket pt) (Some [])) (\<lambda>(created, err).
          if \<not> created then Ret (storage_error_response rc (the err) (pt_path pt))
          else Ret (make_empty_response 200 (rc_keep_alive rc) (rc_version rc)))
      else if rq_method req = ''HEAD'' then
        bind_prog (bucket_exists_p (pt_bucket pt) (Some [])) (\<lambda>(ex, err).
          if the err \<noteq> [] then Ret (storage_error_response rc (the err) (pt_path pt))
          else if \<not> ex
          then Ret (err_response rc 404 ''NoSuchBucket'' ''The specified bucket does not exist'' (pt_path pt))
          else Ret (make_empty_response 200 (rc_keep_alive rc) (rc_version rc)))
      else if rq_method req = ''DELETE'' then
        bind_prog (delete_bucket_p (pt_bucket pt) (Some [])) (\<lambda>(deleted, err).
          if \<not> deleted
          then (let (st, code) = map_storage_error (the err);
                    msg = (if code = ''BucketNotEmpty'' then ''The bucket you tried to delete is not empty'' else the err)
                in Ret (err_response rc st code msg (pt_path pt)))
          else Ret (make_empty_response 204 (rc_keep_alive rc) (rc_version rc)))
      else if rq_method req = ''GET'' then handle_list_p ssl pt rc
      else Ret (err_response rc 405 ''MethodNotAllowed'' ''Unsupported method'' (pt_path pt)))"

definition handle_put_p :: "Request \<Rightarrow> ParsedTarget \<Rightarrow> req_ctx \<Rightarrow> Response prog" where
  "handle_put_p req pt rc =
     (let ctype = (case rq_find req ''Content-Type'' of Some c \<Rightarrow> c | None \<Rightarrow> ''application/octet-stream'')
      in bind_prog (put_object_p (pt_bucket pt) (pt_key pt) (rq_body req) ctype (Some [])) (\<lambda>(meta, err).
           case meta of
             None \<Rightarrow> Ret (storage_error_response rc (the err) (pt_path pt))
           | Some meta \<Rightarrow>
               (let res = new_Response 200 (rc_version rc);
                    res = set_field ''Server'' ''s3_rocksdb_gateway'' res;
                    res = set_field ''ETag'' (quoted (etag meta)) res
                in Ret (res\<lparr>rs_keep_alive := rc_keep_alive rc, rs_content_length := Some 0\<rparr>))))"

definition handle_get_p :: "Request \<Rightarrow> ParsedTarget \<Rightarrow> req_ctx \<Rightarrow> Response prog" where
  "handle_get_p req pt rc =
     bind_prog (get_object_data_p (pt_bucket pt) (pt_key pt) (Some [])) (\<lambda>(data, err).
       case data of
         None \<Rightarrow> Ret (key_error_response rc (the err) (pt_path pt))
       | Some data \<Rightarrow> Ret (get_response req rc (pt_path pt) data))"

definition handle_head_p :: "Request \<Rightarrow> ParsedTarget \<Rightarrow> req_ctx \<Rightarrow> Response prog" where
  "handle_head_p req pt rc =
     bind_prog (head_object_p (pt_bucket pt) (pt_key pt) (Some [])) (\<lambda>(meta, err).
       case meta of
         None \<Rightarrow> Ret (key_error_response rc (the err) (pt_path pt))
       | Some meta \<Rightarrow>
           (let res = new_Response 200 (rc_version rc);
                res = set_field ''Server'' ''s3_rocksdb_gateway'' res;
                res = set_field ''Content-Type''
                        (if content_type meta = [] then ''application/octet-stream'' else content_type meta) res;
                res = set_field ''ETag'' (quoted (etag meta)) res;
                res = set_field ''Last-Modified'' (rfc1123_gmt (mtime meta)) res;
                res = set_field ''Accept-Ranges'' ''bytes'' res
            in Ret (res\<lparr>rs_keep_alive := rc_keep_alive rc, rs_content_length := Some (osize meta mod 2 ^ 64)\<rparr>)))"

definition handle_delete_p :: "Request \<Rightarrow> ParsedTarget \<Rightarrow> req_ctx \<Rightarrow> Response prog" where
  "handle_delete_p req pt rc =
     bind_prog (delete_object_p (pt_bucket pt) (pt_key pt) (Some [])) (\<lambda>(deleted, err).
       if \<not> deleted then Ret (storage_error_response rc (the err) (pt_path pt))
       else Ret (make_empty_response 204 (rc_keep_alive rc) (rc_version rc)))"

definition handle_object_p :: "Request \<Rightarrow> ParsedTarget \<Rightarrow> req_ctx \<Rightarrow> Response prog" where
  "handle_object_p req pt rc =
     (if pt_key pt = [] then Ret (err_response rc 400 ''InvalidRequest'' ''Missing key'' (pt_path pt))
      else if rq_method req = ''PUT'' then handle_put_p req pt rc
      else if rq_method req = ''GET'' then handle_get_p req pt rc
      else if rq_method req = ''HEAD'' then handle_head_p req pt rc
      else if rq_method req = ''DELETE'' then handle_delete_p req pt rc
      else Ret (err_response rc 405 ''MethodNotAllowed'' ''Unsupported method'' (pt_path pt)))"

text \<open>\<open>Api::handle\<close>: the request counter is taken at once, what follows is the program.\<close>

definition handle_p :: "'md openssl \<Rightarrow> s3_config \<Rightarrow> Request \<Rightarrow> 64 word \<Rightarrow> Response prog \<times> 64 word" where
  "handle_p ssl cfg req g_reqid =
     (let (request_id, reqid) = new_request_id g_reqid;
          rc = \<lparr>rc_request_id = request_id, rc_keep_alive = rq_keep_alive req, rc_version = rq_version req\<rparr>;
          ar = verify_sigv4 ssl req (cfg_auth_mode cfg) (cfg_creds cfg)
      in (if \<not> auth_ok ar then
            Ret (err_response rc 403 (if error_code ar = [] then ''AccessDenied'' else error_code ar)
              (if error_message ar = [] then ''Access denied'' else error_message ar) (rq_target req))
          else if rq_method req = ''PUT'' \<and> length (rq_body req) > cfg_max_object_bytes cfg then
            Ret (err_response rc 413 ''EntityTooLarge'' ''Object too large'' (rq_target req))
          else
            let pt = api_parse_target req (cfg_virtual_host_suffix cfg)
            in if pt_bucket pt = [] then handle_root_p req pt rc
               else if pt_key pt = [] then handle_bucket_p ssl req pt rc
               else handle_object_p req pt rc,
          reqid))"

section \<open>Lemmas: programs\<close>

lemma run_bind_prog [simp]:
  "run_prog R (bind_prog p g) w = (case run_prog R p w of (a, w') \<Rightarrow> run_prog R (g a) w')"
  by (induction p arbitrary: w) (simp_all add: split_beta)

text \<open>A program runs by its steps, one call at a time.\<close>

lemma run_step_prog: "run_prog R p w = (case step_prog R p w of (p', w') \<Rightarrow> run_prog R p' w')"
  by (cases p) (simp_all add: split_beta)

definition call_step :: "'db rocksdb \<Rightarrow> 'a prog \<times> 'db world \<Rightarrow> 'a prog \<times> 'db world" where
  "call_step R pw = step_prog R (fst pw) (snd pw)"

lemma pow_step: "\<exists>n. (f ^^ n) (f x) = y \<Longrightarrow> \<exists>n. (f ^^ n) x = y"
  by (metis funpow_Suc_right o_apply)

lemma run_prog_pow:
  "\<exists>n. (call_step R ^^ n) (p, w) = (Ret (fst (run_prog R p w)), snd (run_prog R p w))"
proof (induction p arbitrary: w)
  case (Ret a)
  show ?case by (rule exI [of _ 0]) simp
qed (rule pow_step, simp add: call_step_def split_beta)+

section \<open>Lemmas: the programs and the functions\<close>

lemma run_store_progs [simp]:
  "run_prog R (bucket_exists_p b e) w = (case bucket_exists R b e w of (x, e', w') \<Rightarrow> ((x, e'), w'))"
  "run_prog R (create_bucket_p b e) w = (case create_bucket R b e w of (x, e', w') \<Rightarrow> ((x, e'), w'))"
  "run_prog R (list_buckets_p e) w = (case list_buckets R e w of (x, e', w') \<Rightarrow> ((x, e'), w'))"
  "run_prog R (put_object_p b k d ct e) w = (case put_object R b k d ct e w of (x, e', w') \<Rightarrow> ((x, e'), w'))"
  "run_prog R (get_object_data_p b k e) w = (case get_object_data R b k e w of (x, e', w') \<Rightarrow> ((x, e'), w'))"
  by (simp_all add: bucket_exists_p_def bucket_exists_def create_bucket_p_def create_bucket_def
      list_buckets_p_def list_buckets_def put_object_p_def put_object_def get_object_data_p_def get_object_data_def
      Let_def split_beta)

lemma run_object_progs [simp]:
  "run_prog R (delete_bucket_p b e) w = (case delete_bucket R b e w of (x, e', w') \<Rightarrow> ((x, e'), w'))"
  "run_prog R (head_object_p b k e) w = (case head_object R b k e w of (x, e', w') \<Rightarrow> ((x, e'), w'))"
  "run_prog R (delete_object_p b k e) w = (case delete_object R b k e w of (x, e', w') \<Rightarrow> ((x, e'), w'))"
  by (simp_all add: delete_bucket_p_def delete_bucket_def head_object_p_def head_object_def
      delete_object_p_def delete_object_def Let_def split_beta split: option.split)

lemma run_get_object_p [simp]:
  "run_prog R (get_object_p b k e) w = (case get_object R b k e w of (x, e', w') \<Rightarrow> ((x, e'), w'))"
  by (simp add: get_object_p_def get_object_def Let_def split_beta split: option.split)

lemma run_look_ahead_p [simp]:
  "run_prog R (look_ahead_p ssl mp pfx k res) w = (look_ahead ssl R (w_db w) mp pfx k res, w)"
  by (auto simp: look_ahead_p_def look_ahead_def Let_def)

lemma run_list_loop_p [simp]:
  "run_prog R (list_loop_p ssl mp pfx mk cnt res es) w = (list_loop ssl R (w_db w) mp pfx mk cnt res es, w)"
  proof (induction ssl mp pfx mk cnt res es rule: list_loop_p.induct)
  case (2 ssl mp pfx max_keys cnt res ks vs rest)
  then show ?case by (cases "decode_meta vs") (auto simp: Let_def)
qed simp

lemma run_list_objects_v2_p [simp]:
  "run_prog R (list_objects_v2_p ssl b p mk t e) w =
     (case list_objects_v2 ssl R b p mk t e w of (x, e', w') \<Rightarrow> ((x, e'), w'))"
  by (simp add: list_objects_v2_p_def list_objects_v2_def Let_def split_beta split: option.split)

lemma run_request_progs [simp]:
  "run_prog R (handle_root_p req pt rc) w = handle_root R req pt rc w"
  "run_prog R (handle_list_p ssl pt rc) w = handle_list ssl R pt rc w"
  "run_prog R (handle_put_p req pt rc) w = handle_put R req pt rc w"
  "run_prog R (handle_get_p req pt rc) w = handle_get R req pt rc w"
  "run_prog R (handle_head_p req pt rc) w = handle_head R req pt rc w"
  "run_prog R (handle_delete_p req pt rc) w = handle_delete R req pt rc w"
  by (simp_all add: handle_root_p_def handle_root_def handle_list_p_def handle_list_def handle_put_p_def handle_put_def
      handle_get_p_def handle_get_def handle_head_p_def handle_head_def handle_delete_p_def handle_delete_def
      Let_def split_beta split: option.split)

lemma run_dispatch_progs [simp]:
  "run_prog R (handle_bucket_p ssl req pt rc) w = handle_bucket ssl R req pt rc w"
  "run_prog R (handle_object_p req pt rc) w = handle_object R req pt rc w"
  by (simp_all add: handle_bucket_p_def handle_bucket_def handle_object_p_def handle_object_def Let_def split_beta)

lemma run_handle_p:
  "handle ssl R cfg req g =
     (let (p, reqid) = handle_p ssl cfg req (gw_reqid g);
          (res, w) = run_prog R p (gw_world g)
      in (res, g\<lparr>gw_reqid := reqid, gw_world := w\<rparr>))"
  by (simp add: handle_def handle_p_def Let_def split_beta)

end
