(* ===== verification/Concurrent.thy ===== *)
theory Concurrent
  imports Programs "HOL-Library.Multiset"
begin

text \<open>
  The server of \<open>HttpServer\<close> with its worker threads: \<open>main\<close> runs several threads on one
  \<open>io_context\<close>, so handlers of different sessions run at the same time and meet at the calls of
  RocksDB, at the clocks and at the atomic counters.  A session that handles a request keeps the
  rest of its program; a step of the server completes one operation, or makes one call of one
  handler, of any session, in any order.

  The lemmas show that the coarser server is a special case; that every request takes effect at
  most once, in one atomic change of the store that the request asked for, and has taken effect
  when it is acknowledged; that a \<open>GET\<close> answers with the state of the store at one instant; and that
  the in-flight gauge stays exact.
\<close>

section \<open>The handler of a request in two halves\<close>

text \<open>\<open>on_read\<close> up to the call of \<open>Api::handle\<close>, and what follows it.\<close>

definition on_read_begin :: "'md openssl \<Rightarrow> s3_config \<Rightarrow> Request \<Rightarrow> 'db gateway \<Rightarrow> Response prog \<times> 'db gateway" where
  "on_read_begin ssl cfg req g =
     (let g = with_metrics IncInFlight g
      in if is_metrics_request req then (Ret (metrics_response req g), g)
         else let (p, reqid) = handle_p ssl cfg req (gw_reqid g) in (p, g\<lparr>gw_reqid := reqid\<rparr>))"

definition on_read_end :: "(Response \<Rightarrow> bool) \<Rightarrow> Request \<Rightarrow> Response \<Rightarrow> Session \<Rightarrow> 'db gateway \<Rightarrow> Session" where
  "on_read_end need_eof req res s g =
     (let s = s\<lparr>ss_res := res\<rparr>;
          s = (if w_metrics (gw_world g) \<noteq> None
               then s\<lparr>ss_stats := \<lparr>st_method = rq_method req, st_status = rs_status res,
                                 st_req_bytes = length (rq_body req), st_resp_bytes = length (rs_body res)\<rparr>\<rparr>
               else s)
      in s\<lparr>waits_for := Writing (need_eof res)\<rparr>)"

text \<open>A session and, while it handles a request, the request and what is left of its program.\<close>

type_synonym csession = "Session \<times> (Request \<times> Response prog) option"

record 'db cserver =
  cv_acceptor :: acceptor
  cv_accepting :: bool
  cv_sessions :: "csession list"
  cv_gateway :: "'db gateway"

definition c_on_accept :: "server_config \<Rightarrow> bool \<Rightarrow> 'db cserver \<Rightarrow> 'db cserver" where
  "c_on_accept cfg failed cv =
     (let cv = (if \<not> failed then
                  (let (s, g) = session_run (new_Session (max_request_body_bytes cfg)) (cv_gateway cv)
                   in cv\<lparr>cv_sessions := cv_sessions cv @ [(s, None)], cv_gateway := g\<rparr>)
                else cv)
      in cv\<lparr>cv_accepting := True\<rparr>)"

definition c_on_read :: "'md openssl \<Rightarrow> s3_config \<Rightarrow> read_result \<Rightarrow> Session \<Rightarrow> 'db gateway \<Rightarrow> csession \<times> 'db gateway" where
  "c_on_read ssl cfg ec s g =
     (case ec of
        End_of_stream \<Rightarrow> ((do_close s, None), g)
      | Read_failed \<Rightarrow> ((s\<lparr>waits_for := Idle\<rparr>, None), g)
      | Read_ok req \<Rightarrow>
          let (p, g) = on_read_begin ssl cfg req g in ((s\<lparr>waits_for := Idle\<rparr>, Some (req, p)), g))"

definition put_csession :: "nat \<Rightarrow> csession \<Rightarrow> 'db gateway \<Rightarrow> 'db cserver \<Rightarrow> 'db cserver" where
  "put_csession i c g cv = cv\<lparr>cv_sessions := (cv_sessions cv)[i := c], cv_gateway := g\<rparr>"

fun is_Ret :: "'a prog \<Rightarrow> bool" where
  "is_Ret (Ret _) \<longleftrightarrow> True"
| "is_Ret _ \<longleftrightarrow> False"

datatype cevent = C_accept bool | C_read nat read_result | C_call nat | C_respond nat Request Response | C_write nat bool

inductive c_step ::
  "'md openssl \<Rightarrow> 'db rocksdb \<Rightarrow> (Response \<Rightarrow> bool) \<Rightarrow> s3_config \<Rightarrow> server_config \<Rightarrow> 'db cserver \<Rightarrow> cevent \<Rightarrow> 'db cserver \<Rightarrow> bool"
  for ssl R need_eof cfg scfg where
  c_accept:
    "cv_accepting cv \<Longrightarrow> (cv_acceptor cv \<noteq> Acceptor_Listening \<longrightarrow> failed) \<Longrightarrow>
     c_step ssl R need_eof cfg scfg cv (C_accept failed) (c_on_accept scfg failed cv)"
| c_read:
    "i < length (cv_sessions cv) \<Longrightarrow> cv_sessions cv ! i = (s, None) \<Longrightarrow> waits_for s = Reading \<Longrightarrow>
     parser_limit s = Some limit \<Longrightarrow> read_within limit ec \<Longrightarrow> c_on_read ssl cfg ec s (cv_gateway cv) = (c, g) \<Longrightarrow>
     c_step ssl R need_eof cfg scfg cv (C_read i ec) (put_csession i c g cv)"
| c_call:
    "i < length (cv_sessions cv) \<Longrightarrow> cv_sessions cv ! i = (s, Some (req, p)) \<Longrightarrow> \<not> is_Ret p \<Longrightarrow>
     step_prog R p (gw_world (cv_gateway cv)) = (p', w) \<Longrightarrow>
     c_step ssl R need_eof cfg scfg cv (C_call i)
       (put_csession i (s, Some (req, p')) ((cv_gateway cv)\<lparr>gw_world := w\<rparr>) cv)"
| c_respond:
    "i < length (cv_sessions cv) \<Longrightarrow> cv_sessions cv ! i = (s, Some (req, Ret res)) \<Longrightarrow>
     c_step ssl R need_eof cfg scfg cv (C_respond i req res)
       (put_csession i (on_read_end need_eof req res s (cv_gateway cv), None) (cv_gateway cv) cv)"
| c_write:
    "i < length (cv_sessions cv) \<Longrightarrow> cv_sessions cv ! i = (s, None) \<Longrightarrow> waits_for s = Writing close \<Longrightarrow>
     on_write close failed s (cv_gateway cv) = (s', g) \<Longrightarrow>
     c_step ssl R need_eof cfg scfg cv (C_write i failed) (put_csession i (s', None) g cv)"

inductive c_run ::
  "'md openssl \<Rightarrow> 'db rocksdb \<Rightarrow> (Response \<Rightarrow> bool) \<Rightarrow> s3_config \<Rightarrow> server_config \<Rightarrow> 'db cserver \<Rightarrow> cevent list \<Rightarrow> 'db cserver \<Rightarrow> bool"
  for ssl R need_eof cfg scfg cv where
  c_run_start: "c_run ssl R need_eof cfg scfg cv [] cv"
| c_run_step: "c_run ssl R need_eof cfg scfg cv es cv' \<Longrightarrow> c_step ssl R need_eof cfg scfg cv' e cv'' \<Longrightarrow>
    c_run ssl R need_eof cfg scfg cv (es @ [e]) cv''"

definition start_cserver :: "acceptor \<Rightarrow> 'db gateway \<Rightarrow> 'db cserver" where
  "start_cserver acc g = \<lparr>cv_acceptor = acc, cv_accepting = True, cv_sessions = [], cv_gateway = g\<rparr>"

section \<open>Lemmas: handlers that run without interruption\<close>

lemma c_run_trans:
  "c_run ssl R ne cfg scfg cv es cv' \<Longrightarrow> c_run ssl R ne cfg scfg cv' es' cv'' \<Longrightarrow> c_run ssl R ne cfg scfg cv (es @ es') cv''"
  by (rotate_tac, induction rule: c_run.induct) (auto simp flip: append_assoc intro: c_run.intros)

lemma c_run_single: "c_step ssl R ne cfg scfg cv e cv' \<Longrightarrow> c_run ssl R ne cfg scfg cv [e] cv'"
  using c_run_step [OF c_run_start, of ssl R ne cfg scfg cv e cv'] by simp

text \<open>The server of \<open>HttpServer\<close> seen as one whose sessions handle nothing.\<close>

definition quiet :: "'db server \<Rightarrow> 'db cserver" where
  "quiet sv = \<lparr>cv_acceptor = sv_acceptor sv, cv_accepting = sv_accepting sv,
     cv_sessions = map (\<lambda>s. (s, None)) (sv_sessions sv), cv_gateway = sv_gateway sv\<rparr>"

lemma quiet_start [simp]: "quiet (start_server acc g) = start_cserver acc g"
  by (simp add: quiet_def start_server_def listener_run_def do_accept_def start_cserver_def)

lemma on_read_split:
  "on_read ssl R ne cfg (Read_ok req) s g =
     (let (p, g) = on_read_begin ssl cfg req g;
          (res, w) = run_prog R p (gw_world g);
          g = g\<lparr>gw_world := w\<rparr>
      in (on_read_end ne req res s g, g))"
  by (auto simp: on_read_def on_read_begin_def on_read_end_def run_handle_p Let_def split_beta)

lemma c_run_calls:
  assumes "i < length (cv_sessions cv)" "cv_sessions cv ! i = (s, Some (req, p))"
  shows "\<exists>n. c_run ssl R ne cfg scfg cv (replicate n (C_call i))
    (put_csession i (s, Some (req, Ret (fst (run_prog R p (gw_world (cv_gateway cv))))))
       ((cv_gateway cv)\<lparr>gw_world := snd (run_prog R p (gw_world (cv_gateway cv)))\<rparr>) cv)"
proof -
  let ?w = "gw_world (cv_gateway cv)"
  let ?st = "\<lambda>pw. put_csession i (s, Some (req, fst pw)) ((cv_gateway cv)\<lparr>gw_world := snd pw\<rparr>) cv"
  have "\<exists>m. c_run ssl R ne cfg scfg cv (replicate m (C_call i)) (?st ((call_step R ^^ n) (p, ?w)))" for n
  proof (induction n)
    case 0
    have "cv = ?st (p, ?w)" using assms by (simp add: put_csession_def flip: assms(2))
    then show ?case using c_run_start by (metis funpow_0 replicate_0)
  next
    case (Suc n)
    then obtain m where r: "c_run ssl R ne cfg scfg cv (replicate m (C_call i)) (?st ((call_step R ^^ n) (p, ?w)))" by blast
    obtain p' w' where pw: "(call_step R ^^ n) (p, ?w) = (p', w')" by fastforce
    show ?case
    proof (cases "is_Ret p'")
      case True
      then have "call_step R (p', w') = (p', w')" by (cases p') (simp_all add: call_step_def)
      with r pw show ?thesis by auto
    next
      case False
      have "c_step ssl R ne cfg scfg (?st (p', w')) (C_call i) (?st (call_step R (p', w')))"
        using c_call [of i "?st (p', w')" s req p' R "fst (call_step R (p', w'))" "snd (call_step R (p', w'))"] False assms(1)
        by (simp add: put_csession_def call_step_def)
      with r pw have "c_run ssl R ne cfg scfg cv (replicate m (C_call i) @ [C_call i]) (?st (call_step R (p', w')))"
        by (auto intro: c_run_step)
      then have "c_run ssl R ne cfg scfg cv (replicate (Suc m) (C_call i)) (?st ((call_step R ^^ Suc n) (p, ?w)))"
        by (simp add: pw replicate_append_same)
      then show ?thesis by blast
    qed
  qed
  from this run_prog_pow [of R p ?w] show ?thesis by (metis fst_conv snd_conv)
qed

text \<open>A step of the server with atomic handlers is a run of the one with threads.\<close>

lemma server_step_c_run:
  assumes "server_step ssl R ne cfg scfg sv e sv'"
  shows "\<exists>es. c_run ssl R ne cfg scfg (quiet sv) es (quiet sv')"
  using assms
proof cases
  case (step_accept failed)
  have "quiet sv' = c_on_accept scfg failed (quiet sv)"
    using step_accept by (simp add: quiet_def on_accept_def c_on_accept_def do_accept_def Let_def split_beta)
  with step_accept c_accept [of "quiet sv" failed ssl R ne cfg scfg] show ?thesis
    by (auto simp: quiet_def intro: c_run_single)
next
  case (step_read i s limit ec)
  have i: "i < length (cv_sessions (quiet sv))" "cv_sessions (quiet sv) ! i = (s, None)"
    using step_read by (simp_all add: quiet_def)
  obtain c g where cg: "c_on_read ssl cfg ec s (sv_gateway sv) = (c, g)" by fastforce
  then have st: "c_step ssl R ne cfg scfg (quiet sv) (C_read i ec) (put_csession i c g (quiet sv))"
    using c_read [OF i, of limit ec ssl cfg c g R ne scfg] step_read by (simp add: quiet_def)
  show ?thesis
  proof (cases ec)
    case (Read_ok req)
    obtain p where p: "on_read_begin ssl cfg req (sv_gateway sv) = (p, g)" and c: "c = (s\<lparr>waits_for := Idle\<rparr>, Some (req, p))"
      using cg by (cases "on_read_begin ssl cfg req (sv_gateway sv)") (auto simp: Read_ok c_on_read_def)
    let ?cv = "put_csession i c g (quiet sv)" and ?s = "s\<lparr>waits_for := Idle\<rparr>"
    have i1: "i < length (cv_sessions ?cv)" "cv_sessions ?cv ! i = (?s, Some (req, p))"
      using i(1) c by (simp_all add: put_csession_def)
    from c_run_calls [OF this, of ssl R ne cfg scfg] obtain n where es: "c_run ssl R ne cfg scfg ?cv (replicate n (C_call i))
        (put_csession i (?s, Some (req, Ret (fst (run_prog R p (gw_world g)))))
          (g\<lparr>gw_world := snd (run_prog R p (gw_world g))\<rparr>) ?cv)" (is "c_run _ _ _ _ _ _ _ ?cv2")
      by (auto simp: put_csession_def)
    have i2: "i < length (cv_sessions ?cv2)" "cv_sessions ?cv2 ! i = (?s, Some (req, Ret (fst (run_prog R p (gw_world g)))))"
      using i(1) by (simp_all add: put_csession_def)
    have "quiet sv' = put_csession i (on_read_end ne req (fst (run_prog R p (gw_world g))) ?s (cv_gateway ?cv2), None)
        (cv_gateway ?cv2) ?cv2"
      using step_read p
      by (simp add: Read_ok on_read_split put_session_def put_csession_def quiet_def map_update on_read_end_def Let_def split_beta)
    with c_respond [OF i2, of ssl R ne cfg scfg] st es show ?thesis
      by (metis c_run_trans c_run_single)
  qed (use step_read st cg in \<open>auto simp: c_on_read_def on_read_def put_session_def put_csession_def quiet_def map_update intro: c_run_single\<close>)
next
  case (step_write i s close failed)
  have i: "i < length (cv_sessions (quiet sv))" "cv_sessions (quiet sv) ! i = (s, None)"
    using step_write by (simp_all add: quiet_def)
  obtain s' g where "on_write close failed s (sv_gateway sv) = (s', g)" by fastforce
  with c_write [OF i, of close failed s' g ssl R ne cfg scfg] step_write
  have "c_step ssl R ne cfg scfg (quiet sv) (C_write i failed) (quiet sv')"
    by (simp add: quiet_def put_session_def put_csession_def map_update)
  then show ?thesis by (blast intro: c_run_single)
qed

lemma server_run_c_run:
  assumes "server_run ssl R ne cfg scfg sv es sv'"
  shows "\<exists>ces. c_run ssl R ne cfg scfg (quiet sv) ces (quiet sv')"
  using assms
proof (induction rule: server_run.induct)
  case run_start
  show ?case by (blast intro: c_run_start)
next
  case (run_step es sv' e sv'')
  with server_step_c_run [OF run_step.hyps(2)] show ?case by (blast intro: c_run_trans)
qed

section \<open>Lemmas: what a program may do\<close>

text \<open>
  \<open>prog_ok p S B d Q\<close>: whatever the calls return, the program takes effect at most once, by writing a
  batch that satisfies \<open>B\<close> or by finding a key of \<open>S\<close> in the database, and its result satisfies \<open>Q\<close>,
  given whether it has taken effect (so far: \<open>d\<close>).  The system clock is a 64-bit number.
\<close>

primrec prog_ok ::
  "'a prog \<Rightarrow> (string \<Rightarrow> bool) \<Rightarrow> (batch_op list \<Rightarrow> bool) \<Rightarrow> bool \<Rightarrow> (bool \<Rightarrow> 'a \<Rightarrow> bool) \<Rightarrow> bool" where
  "prog_ok (Ret a) S B d Q \<longleftrightarrow> Q d a"
| "prog_ok (Call_Now f) S B d Q \<longleftrightarrow> (\<forall>t. in_i64 t \<longrightarrow> prog_ok (f t) S B d Q)"
| "prog_ok (Call_Clock f) S B d Q \<longleftrightarrow> (\<forall>t. prog_ok (f t) S B d Q)"
| "prog_ok (Call_Get k f) S B d Q \<longleftrightarrow>
     (\<forall>r. ok (fst r) \<and> S k \<and> prog_ok (f r) (\<lambda>_. False) (\<lambda>_. False) True Q \<or> prog_ok (f r) S B d Q)"
| "prog_ok (Call_Put k v f) S B d Q \<longleftrightarrow> B [BPut k v] \<and> (\<forall>st. prog_ok (f st) (\<lambda>_. False) (\<lambda>_. False) (ok st) Q)"
| "prog_ok (Call_Delete k f) S B d Q \<longleftrightarrow> B [BDelete k] \<and> (\<forall>st. prog_ok (f st) (\<lambda>_. False) (\<lambda>_. False) (ok st) Q)"
| "prog_ok (Call_Write b n f) S B d Q \<longleftrightarrow> B b \<and> (\<forall>st. prog_ok (f st) (\<lambda>_. False) (\<lambda>_. False) (ok st) Q)"
| "prog_ok (Call_Seek k f) S B d Q \<longleftrightarrow> (\<forall>it. prog_ok (f it) S B d Q)"
| "prog_ok (Call_Observe op st n t p) S B d Q \<longleftrightarrow> prog_ok p S B d Q"

abbreviation done_ok :: "'a prog \<Rightarrow> bool \<Rightarrow> (bool \<Rightarrow> 'a \<Rightarrow> bool) \<Rightarrow> bool" where
  "done_ok p d Q \<equiv> prog_ok p (\<lambda>_. False) (\<lambda>_. False) d Q"

text \<open>What a call does to the store, and what is left to do.\<close>

context rocksdb_laws
begin

lemma step_prog_ok:
  assumes "step_prog R p w = (p', w')" "prog_ok p S B d Q" "clocks_ok w"
  shows "V w' = V w \<and> prog_ok p' S B d Q \<or>
    (\<exists>k. S k \<and> V w k \<noteq> None \<and> V w' = V w \<and> done_ok p' True Q) \<or>
    (\<exists>b d'. B b \<and> done_ok p' d' Q \<and> (V w' = apply_batch b (V w) \<or> \<not> d' \<and> V w' = V w))"
proof (cases p)
  case (Call_Get k f)
  with assms obtain st v where g: "db_Get R (w_db w) k = (st, v)" "w_db w' = w_db w" and p': "p' = f (st, v)"
    by (cases rule: timed_Get_cases [of R k w]) auto
  from assms(2) have "ok (fst (st, v)) \<and> S k \<and> done_ok (f (st, v)) True Q \<or> prog_ok (f (st, v)) S B d Q"
    unfolding Call_Get prog_ok.simps by (rule spec)
  with g p' Get_ok [OF g(1)] show ?thesis by auto
next
  case (Call_Put k v f)
  with assms obtain st where st: "db_Put R (w_db w) k v = (st, w_db w')" and p': "p' = f st"
    by (cases rule: timed_Put_cases [of R k v w]) auto
  from Call_Put assms(2) p' Put_ok [OF st] Put_atomic [OF st] show ?thesis
    by (intro disjI2 exI [of _ "[BPut k v]"] exI [of _ "ok st"]) auto
next
  case (Call_Delete k f)
  with assms obtain st where st: "db_Delete R (w_db w) k = (st, w_db w')" and p': "p' = f st"
    by (cases rule: timed_Delete_cases [of R k w]) auto
  from Call_Delete assms(2) p' Delete_ok [OF st] Delete_atomic [OF st] show ?thesis
    by (intro disjI2 exI [of _ "[BDelete k]"] exI [of _ "ok st"]) auto
next
  case (Call_Write b n f)
  with assms obtain st where st: "db_Write R (w_db w) b = (st, w_db w')" and p': "p' = f st"
    by (cases rule: timed_Write_cases [of R b n w]) auto
  from Call_Write assms(2) p' Write_ok [OF st] Write_atomic [OF st] show ?thesis
    by (intro disjI2 exI [of _ b] exI [of _ "ok st"]) auto
qed (use assms in \<open>auto simp: unix_now_seconds_def Clock_now_def clocks_ok_def\<close>)

end

lemma prog_ok_post: "prog_ok p S B d Q \<Longrightarrow> (\<And>d a. Q d a \<Longrightarrow> Q' d a) \<Longrightarrow> prog_ok p S B d Q'"
proof (induction p arbitrary: S B d)
  case (Call_Get k f)
  have "prog_ok (f r) S' B' d' Q \<Longrightarrow> prog_ok (f r) S' B' d' Q'" for r S' B' d'
    using Call_Get.IH [of "f r"] Call_Get.prems(2) by blast
  with Call_Get.prems(1) show ?case unfolding prog_ok.simps by meson
qed auto

lemma prog_ok_weaken: "done_ok p d Q \<Longrightarrow> prog_ok p S B d Q"
  by (induction p arbitrary: d) auto

lemma prog_ok_bind_read:
  "done_ok p d (\<lambda>d a. prog_ok (g a) S B d Q) \<Longrightarrow> prog_ok (bind_prog p g) S B d Q"
  by (induction p arbitrary: d) auto

lemma prog_ok_bind_write:
  "prog_ok p S B d (\<lambda>d a. done_ok (g a) d Q) \<Longrightarrow> prog_ok (bind_prog p g) S B d Q"
proof (induction p arbitrary: S B d)
  case (Call_Get k f)
  have "prog_ok (f r) S' B' d' (\<lambda>d a. done_ok (g a) d Q) \<Longrightarrow> prog_ok (bind_prog (f r) g) S' B' d' Q" for r S' B' d'
    using Call_Get.IH [of "f r"] by blast
  with Call_Get.prems show ?case unfolding prog_ok.simps bind_prog.simps by meson
qed (auto intro: prog_ok_weaken)

section \<open>Lemmas: the effect of a request\<close>

definition put_meta :: "bytes \<Rightarrow> string \<Rightarrow> int \<Rightarrow> GwObjectMeta" where
  "put_meta d ct t =
     \<lparr>etag = [], mtime = t, osize = int (length d), content_type = (if ct = [] then ''application/octet-stream'' else ct)\<rparr>"

fun op_batch :: "store_op \<Rightarrow> int \<Rightarrow> batch_op list" where
  "op_batch (CreateBucket b) t = [BPut (bucket_key b) []]"
| "op_batch (DeleteBucket b) t = [BDelete (bucket_key b)]"
| "op_batch (PutObject b k d ct) t = [BPut (data_key b k) d, BPut (meta_key b k) (encode_meta (put_meta d ct t))]"
| "op_batch (DeleteObject b k) t = [BDelete (meta_key b k), BDelete (data_key b k)]"

text \<open>The effect on the abstract store, and the operation a request asks for, if it is one the gateway serves.\<close>

fun abs_effect :: "store_op \<Rightarrow> int \<Rightarrow> ostore \<Rightarrow> ostore" where
  "abs_effect (CreateBucket b) t s = s\<lparr>os_buckets := insert b (os_buckets s)\<rparr>"
| "abs_effect (DeleteBucket b) t s = s\<lparr>os_buckets := os_buckets s - {b}\<rparr>"
| "abs_effect (PutObject b k d ct) t s = s\<lparr>os_objects := (os_objects s)((b, k) \<mapsto> (d, put_meta d ct t))\<rparr>"
| "abs_effect (DeleteObject b k) t s = s\<lparr>os_objects := (os_objects s)((b, k) := None)\<rparr>"

definition requested_op :: "s3_config \<Rightarrow> Request \<Rightarrow> store_op option" where
  "requested_op cfg req =
     (let pt = api_parse_target req (cfg_virtual_host_suffix cfg); b = pt_bucket pt; k = pt_key pt;
          ct = (case rq_find req ''Content-Type'' of Some c \<Rightarrow> c | None \<Rightarrow> ''application/octet-stream'')
      in if b = [] \<or> contains_nul b \<or> contains_nul k then None
         else if rq_method req = ''PUT'' then Some (if k = [] then CreateBucket b else PutObject b k (rq_body req) ct)
         else if rq_method req = ''DELETE'' then Some (if k = [] then DeleteBucket b else DeleteObject b k)
         else None)"

definition may_write :: "'md openssl \<Rightarrow> s3_config \<Rightarrow> Request \<Rightarrow> batch_op list \<Rightarrow> bool" where
  "may_write ssl cfg req batch \<longleftrightarrow>
     served ssl cfg req \<and> (\<exists>op t. requested_op cfg req = Some op \<and> in_i64 t \<and> batch = op_batch op t)"

text \<open>The answers that tell a client that its update has been done.\<close>

definition acknowledges :: "Request \<Rightarrow> Response \<Rightarrow> bool" where
  "acknowledges req res \<longleftrightarrow>
     rq_method req = ''PUT'' \<and> rs_status res = 200 \<or> rq_method req = ''DELETE'' \<and> rs_status res = 204"

text \<open>A bucket that is seen to exist need not be created: creating it has its effect at that moment, without a write.\<close>

definition seen_key :: "'md openssl \<Rightarrow> s3_config \<Rightarrow> Request \<Rightarrow> string \<Rightarrow> bool" where
  "seen_key ssl cfg req key \<longleftrightarrow>
     served ssl cfg req \<and> (\<exists>b. requested_op cfg req = Some (CreateBucket b) \<and> key = bucket_key b)"

lemma create_seen:
  assumes "requested_op cfg req = Some (CreateBucket b)" "V (bucket_key b) \<noteq> None"
  shows "abs_effect (CreateBucket b) t (abs_ostore V) = abs_ostore V"
proof -
  have "nul_free b" using assms(1) by (auto simp: requested_op_def Let_def split: if_splits)
  with assms(2) show ?thesis by (auto simp: abs_ostore_def)
qed

lemma op_batch_inv:
  assumes "store_inv V" "requested_op cfg req = Some op" "in_i64 t" "int (length (rq_body req)) < 2 ^ 63"
  shows "store_inv (apply_batch (op_batch op t) V) \<and> abs_ostore (apply_batch (op_batch op t) V) = abs_effect op t (abs_ostore V)"
proof -
  have m: "meta_ok (put_meta (rq_body req) ct t)" "osize (put_meta (rq_body req) ct t) = int (length (rq_body req))" for ct
    using assms(3,4) by (simp_all add: put_meta_def meta_ok_def in_i64_def)
  from assms(1,2) m show ?thesis
    using store_inv_put abs_put [OF _ _ m(1)] store_inv_delete [of V] abs_delete [of _ _ V]
    by (auto simp: requested_op_def Let_def store_inv_bucket abs_create_bucket abs_delete_bucket put_kv_def delete_kv_def
        split: if_splits)
qed

lemma bucket_exists_ok: "(\<And>a. Q d a) \<Longrightarrow> prog_ok (bucket_exists_p b e) S B d Q"
  by (simp add: bucket_exists_p_def split_beta)

lemma list_buckets_ok: "(\<And>a. Q d a) \<Longrightarrow> prog_ok (list_buckets_p e) S B d Q"
  by (simp add: list_buckets_p_def Let_def split_beta)

lemma head_object_ok: "(\<And>a. Q d a) \<Longrightarrow> prog_ok (head_object_p b k e) S B d Q"
  by (auto simp: head_object_p_def split_beta intro!: prog_ok_bind_read bucket_exists_ok split: option.split)

lemma get_object_data_ok: "(\<And>a. Q d a) \<Longrightarrow> prog_ok (get_object_data_p b k e) S B d Q"
  by (simp add: get_object_data_p_def split_beta)

lemma list_loop_ok: "(\<And>a. Q d a) \<Longrightarrow> prog_ok (list_loop_p ssl mp pfx mk cnt res es) S B d Q"
proof (induction ssl mp pfx mk cnt res es rule: list_loop_p.induct)
  case (2 ssl mp pfx max_keys cnt res ks vs rest)
  then show ?case by (cases "decode_meta vs") (auto simp: look_ahead_p_def Let_def)
qed simp

lemma list_objects_ok: "(\<And>a. Q d a) \<Longrightarrow> prog_ok (list_objects_v2_p ssl b p mk t e) S B d Q"
  by (auto simp: list_objects_v2_p_def Let_def split_beta
      intro!: prog_ok_bind_read bucket_exists_ok list_loop_ok split: option.split)

lemma create_bucket_ok:
  "contains_nul b \<or> S (bucket_key b) \<and> B [BPut (bucket_key b) []] \<Longrightarrow> prog_ok (create_bucket_p b e) S B d (\<lambda>d a. fst a \<longrightarrow> d)"
  by (auto simp: create_bucket_p_def split_beta)

lemma delete_bucket_ok:
  "B [BDelete (bucket_key b)] \<or> contains_nul b \<Longrightarrow> prog_ok (delete_bucket_p b e) S B d (\<lambda>d a. fst a \<longrightarrow> d)"
  by (auto simp: delete_bucket_p_def split_beta intro!: prog_ok_bind_read bucket_exists_ok)

lemma put_object_ok:
  assumes "\<And>t. in_i64 t \<Longrightarrow> B (op_batch (PutObject b k v ct) t) \<or> contains_nul b \<or> contains_nul k"
  shows "prog_ok (put_object_p b k v ct e) S B d (\<lambda>d a. fst a \<noteq> None \<longrightarrow> d)"
  using assms by (auto simp: put_object_p_def put_meta_def Let_def)

lemma delete_object_ok:
  assumes "B (op_batch (DeleteObject b k) 0) \<or> contains_nul b \<or> contains_nul k"
  shows "prog_ok (delete_object_p b k e) S B d (\<lambda>d a. fst a \<longrightarrow> d)"
  using assms by (auto simp: delete_object_p_def split_beta intro!: prog_ok_bind_read bucket_exists_ok)


lemma error_not_acknowledged [simp]:
  "\<not> acknowledges req (storage_error_response rc e r)" "\<not> acknowledges req (key_error_response rc e r)"
  using error_response_status [of rc e r] by (auto simp: acknowledges_def)

lemma not_acknowledged [simp]:
  "rq_method req = ''GET'' \<Longrightarrow> \<not> acknowledges req res" "rq_method req = ''HEAD'' \<Longrightarrow> \<not> acknowledges req res"
  "st \<noteq> 200 \<Longrightarrow> st \<noteq> 204 \<Longrightarrow> \<not> acknowledges req (err_response rc st c m r)"
  by (simp_all add: acknowledges_def)

lemma handle_root_ok: "prog_ok (handle_root_p req pt rc) S B d (\<lambda>d res. acknowledges req res \<longrightarrow> d)"
  by (auto simp: handle_root_p_def Let_def split_beta intro!: prog_ok_bind_read list_buckets_ok)

lemma handle_bucket_ok:
  assumes "served ssl cfg req" "pt = api_parse_target req (cfg_virtual_host_suffix cfg)" "pt_bucket pt \<noteq> []" "pt_key pt = []"
  shows "prog_ok (handle_bucket_p ssl req pt rc) (seen_key ssl cfg req) (may_write ssl cfg req) False (\<lambda>d res. acknowledges req res \<longrightarrow> d)"
proof -
  let ?b = "pt_bucket pt"
  have t: "in_i64 0" by (simp add: in_i64_def)
  have c: "contains_nul ?b \<or> seen_key ssl cfg req (bucket_key ?b) \<and> may_write ssl cfg req [BPut (bucket_key ?b) []]"
    if "rq_method req = ''PUT''"
    using assms that t by (auto simp: seen_key_def may_write_def requested_op_def Let_def intro!: exI [of _ "CreateBucket ?b"])
  have del: "may_write ssl cfg req [BDelete (bucket_key ?b)] \<or> contains_nul ?b" if "rq_method req = ''DELETE''"
    using assms that t by (auto simp: may_write_def requested_op_def Let_def intro!: exI [of _ "DeleteBucket ?b"])
  have ne: "\<not> acknowledges req (err_response rc (fst (map_storage_error e)) x m r)" for e x m r
    using map_storage_error_status [of e] by (auto simp: acknowledges_def)
  consider "rq_method req = ''PUT''" | "rq_method req = ''DELETE''" | "rq_method req \<noteq> ''PUT''" "rq_method req \<noteq> ''DELETE''"
    by blast
  then show ?thesis
  proof cases
    case 1
    from prog_ok_post [OF create_bucket_ok [of _ "seen_key ssl cfg req" "may_write ssl cfg req", OF c [OF 1]]] 1 show ?thesis
      by (auto simp: handle_bucket_p_def split_beta intro!: prog_ok_bind_write)
  next
    case 2
    from prog_ok_post [OF delete_bucket_ok [of "may_write ssl cfg req", OF del [OF 2]]] 2 ne show ?thesis
      by (auto simp: handle_bucket_p_def Let_def split_beta intro!: prog_ok_bind_write)
  next
    case 3
    then show ?thesis
      by (auto simp: handle_bucket_p_def handle_list_p_def Let_def split_beta
          intro!: prog_ok_bind_read bucket_exists_ok list_objects_ok)
  qed
qed

lemma handle_object_ok:
  assumes "served ssl cfg req" "pt = api_parse_target req (cfg_virtual_host_suffix cfg)" "pt_bucket pt \<noteq> []" "pt_key pt \<noteq> []"
  shows "prog_ok (handle_object_p req pt rc) (seen_key ssl cfg req) (may_write ssl cfg req) False (\<lambda>d res. acknowledges req res \<longrightarrow> d)"
proof -
  let ?b = "pt_bucket pt" and ?k = "pt_key pt"
  let ?ct = "case rq_find req ''Content-Type'' of Some c \<Rightarrow> c | None \<Rightarrow> ''application/octet-stream''"
  have t: "in_i64 0" by (simp add: in_i64_def)
  have put: "may_write ssl cfg req (op_batch (PutObject ?b ?k (rq_body req) ?ct) t) \<or> contains_nul ?b \<or> contains_nul ?k"
    if "rq_method req = ''PUT''" "in_i64 t" for t
    using assms that unfolding may_write_def requested_op_def Let_def by (auto simp del: op_batch.simps)
  have del: "may_write ssl cfg req (op_batch (DeleteObject ?b ?k) 0) \<or> contains_nul ?b \<or> contains_nul ?k"
    if "rq_method req = ''DELETE''"
    using assms that t unfolding may_write_def requested_op_def Let_def by (auto simp del: op_batch.simps)
  consider "rq_method req = ''PUT''" | "rq_method req = ''DELETE''" | "rq_method req \<noteq> ''PUT''" "rq_method req \<noteq> ''DELETE''"
    by blast
  then show ?thesis
  proof cases
    case 1
    from prog_ok_post [OF put_object_ok [of "may_write ssl cfg req", OF put [OF 1]]] 1 assms(4) show ?thesis
      by (auto simp: handle_object_p_def handle_put_p_def Let_def split_beta split: option.split intro!: prog_ok_bind_write)
  next
    case 2
    from prog_ok_post [OF delete_object_ok [of "may_write ssl cfg req", OF del [OF 2]]] 2 assms(4) show ?thesis
      by (auto simp: handle_object_p_def handle_delete_p_def Let_def split_beta intro!: prog_ok_bind_write)
  next
    case 3
    then show ?thesis
      by (auto simp: handle_object_p_def handle_get_p_def handle_head_p_def Let_def split_beta split: option.split
          intro!: prog_ok_bind_read get_object_data_ok head_object_ok)
  qed
qed

lemma handle_p_ok:
  "prog_ok (fst (handle_p ssl cfg req n)) (seen_key ssl cfg req) (may_write ssl cfg req) False (\<lambda>d res. acknowledges req res \<longrightarrow> d)"
proof (cases "served ssl cfg req")
  case True
  then have s: "auth_ok (verify_sigv4 ssl req (cfg_auth_mode cfg) (cfg_creds cfg))"
    "\<not> (rq_method req = ''PUT'' \<and> cfg_max_object_bytes cfg < length (rq_body req))" by (auto simp: served_def)
  show ?thesis
    using handle_root_ok handle_bucket_ok [OF True refl] handle_object_ok [OF True refl]
    by (simp add: handle_p_def Let_def split_beta s)
next
  case False
  then show ?thesis by (auto simp: handle_p_def served_def Let_def split_beta)
qed


section \<open>Lemmas: the history of a run\<close>

text \<open>
  What is known of a session in the course of a run: that it handles no request, or a request that
  has not written yet, or one that has, with or without success.
\<close>

datatype progress = No_request | Fresh Request | Wrote Request bool

fun unwritten :: "progress \<Rightarrow> Request multiset" where
  "unwritten (Fresh req) = {#req#}"
| "unwritten _ = {#}"

fun written :: "progress \<Rightarrow> Request multiset" where
  "written (Wrote req True) = {#req#}"
| "written _ = {#}"

definition handler_ok :: "'md openssl \<Rightarrow> s3_config \<Rightarrow> nat \<Rightarrow> progress \<Rightarrow> csession \<Rightarrow> bool" where
  "handler_ok ssl cfg limit pr c \<longleftrightarrow> session_ok limit (fst c) \<and>
     (case pr of
        No_request \<Rightarrow> snd c = None
      | Fresh req \<Rightarrow> (\<exists>p. snd c = Some (req, p) \<and> length (rq_body req) \<le> limit \<and>
          prog_ok p (seen_key ssl cfg req) (may_write ssl cfg req) False (\<lambda>d res. acknowledges req res \<longrightarrow> d))
      | Wrote req d \<Rightarrow> (\<exists>p. snd c = Some (req, p) \<and>
          done_ok p d (\<lambda>d res. acknowledges req res \<longrightarrow> d)))"

fun requests_of :: "cevent \<Rightarrow> Request list" where
  "requests_of (C_read i (Read_ok req)) = [req]"
| "requests_of _ = []"

fun acks_of :: "cevent \<Rightarrow> Request list" where
  "acks_of (C_respond i req res) = (if acknowledges req res then [req] else [])"
| "acks_of _ = []"

text \<open>The requests a run has read, and those of them it has acknowledged.\<close>

definition requests_read :: "cevent list \<Rightarrow> Request multiset" where
  "requests_read es = mset (concat (map requests_of es))"

definition requests_acked :: "cevent list \<Rightarrow> Request multiset" where
  "requests_acked es = mset (concat (map acks_of es))"

lemma requests_snoc [simp]:
  "requests_read [] = {#}" "requests_acked [] = {#}"
  "requests_read (es @ [e]) = requests_read es + mset (requests_of e)"
  "requests_acked (es @ [e]) = requests_acked es + mset (acks_of e)"
  by (simp_all add: requests_read_def requests_acked_def)

text \<open>
  The store is the initial one, changed by operations that served requests asked for, one after
  the other; every request has at most one of them, and every acknowledged request has one.
\<close>

definition effects :: "(Request \<times> store_op \<times> int) list \<Rightarrow> ostore \<Rightarrow> ostore" where
  "effects ops s = fold (\<lambda>(req, op, t). abs_effect op t) ops s"

definition explains :: "'md openssl \<Rightarrow> s3_config \<Rightarrow> ostore \<Rightarrow> ostore \<Rightarrow> cevent list \<Rightarrow> (Request \<times> store_op \<times> int) list \<Rightarrow> bool" where
  "explains ssl cfg s0 s es ops \<longleftrightarrow>
     s = effects ops s0 \<and>
     (\<forall>(req, op, t) \<in> set ops. served ssl cfg req \<and> requested_op cfg req = Some op) \<and>
     mset (map fst ops) \<subseteq># requests_read es \<and> requests_acked es \<subseteq># mset (map fst ops)"

definition conc_history ::
  "'md openssl \<Rightarrow> s3_config \<Rightarrow> nat \<Rightarrow> ostore \<Rightarrow> kv \<Rightarrow> cevent list \<Rightarrow> csession list \<Rightarrow> progress list \<Rightarrow>
   (Request \<times> store_op \<times> int) list \<Rightarrow> bool" where
  "conc_history ssl cfg limit s0 V es cs prs ops \<longleftrightarrow>
     store_inv V \<and> abs_ostore V = effects ops s0 \<and>
     (\<forall>(req, op, t) \<in> set ops. served ssl cfg req \<and> requested_op cfg req = Some op) \<and>
     mset (map fst ops) + sum_list (map unwritten prs) \<subseteq># requests_read es \<and>
     requests_acked es + sum_list (map written prs) \<subseteq># mset (map fst ops) \<and>
     list_all2 (handler_ok ssl cfg limit) prs cs"

lemma history_explains:
  assumes "conc_history ssl cfg limit s0 V es cs prs ops"
  shows "store_inv V \<and> explains ssl cfg s0 (abs_ostore V) es ops"
proof -
  have "mset (map fst ops) \<subseteq># requests_read es" "requests_acked es \<subseteq># mset (map fst ops)"
    using assms unfolding conc_history_def by (meson mset_subset_eq_add_left subset_mset.order_trans)+
  with assms show ?thesis by (simp add: conc_history_def explains_def)
qed

lemma sum_list_map_update:
  "i < length xs \<Longrightarrow> sum_list (map f (xs[i := y])) + f (xs ! i) = sum_list (map f xs) + (f y :: 'a :: comm_monoid_add)"
proof (induction xs arbitrary: i)
  case (Cons x xs)
  then show ?case by (cases i) (simp_all add: ac_simps)
qed simp

lemma mset_exchange:
  assumes "A + F \<subseteq># R" "B + u' \<subseteq># Q + u" "F' + u = F + (u' :: 'a multiset)"
  shows "A + B + F' \<subseteq># R + Q"
  unfolding subseteq_mset_def
proof
  fix x
  have "count (A + F) x \<le> count R x" "count (B + u') x \<le> count (Q + u) x" "count (F' + u) x = count (F + u') x"
    using assms by (simp_all only: mset_subset_eq_count)
  then show "count (A + B + F') x \<le> count (R + Q) x" by simp
qed

text \<open>A step of session \<open>i\<close>: what its change of progress and the new operations must satisfy.\<close>

lemma history_update:
  assumes h: "conc_history ssl cfg limit s0 V es cs prs ops" and i: "i < length cs"
    and c: "handler_ok ssl cfg limit pr c" and V: "store_inv V'" "abs_ostore V' = effects ops' (abs_ostore V)"
    and ops: "\<forall>(req, op, t) \<in> set ops'. served ssl cfg req \<and> requested_op cfg req = Some op"
    and u: "mset (map fst ops') + unwritten pr \<subseteq># mset (requests_of e) + unwritten (prs ! i)"
    and a: "mset (acks_of e) + written pr \<subseteq># mset (map fst ops') + written (prs ! i)"
  shows "\<exists>prs' ops''. conc_history ssl cfg limit s0 V' (es @ [e]) (cs[i := c]) prs' (ops @ ops'')"
proof -
  have l: "length prs = length cs" using h by (auto simp: conc_history_def dest: list_all2_lengthD)
  have su: "sum_list (map unwritten (prs[i := pr])) + unwritten (prs ! i) = sum_list (map unwritten prs) + unwritten pr"
    using i l by (intro sum_list_map_update) simp
  have sw: "sum_list (map written (prs[i := pr])) + written (prs ! i) = sum_list (map written prs) + written pr"
    using i l by (intro sum_list_map_update) simp
  have h3: "mset (map fst ops) + sum_list (map unwritten prs) \<subseteq># requests_read es"
    and h4: "requests_acked es + sum_list (map written prs) \<subseteq># mset (map fst ops)"
    using h by (simp_all add: conc_history_def)
  from mset_exchange [OF h3 u su]
  have 3: "mset (map fst (ops @ ops')) + sum_list (map unwritten (prs[i := pr])) \<subseteq># requests_read (es @ [e])" by simp
  from mset_exchange [OF h4 a sw]
  have 4: "requests_acked (es @ [e]) + sum_list (map written (prs[i := pr])) \<subseteq># mset (map fst (ops @ ops'))" by simp
  have "list_all2 (handler_ok ssl cfg limit) (prs[i := pr]) (cs[i := c])"
    using h c by (intro list_all2_update_cong) (simp_all add: conc_history_def)
  with h V ops 3 4 have "conc_history ssl cfg limit s0 V' (es @ [e]) (cs[i := c]) (prs[i := pr]) (ops @ ops')"
    by (auto simp: conc_history_def effects_def)
  then show ?thesis by blast
qed


lemma front_step_prog: "step_prog R p w = (p', w') \<Longrightarrow> front w' = front w"
  by (cases p) (auto simp: split_beta)

lemma on_read_begin_world:
  assumes "on_read_begin ssl cfg req g = (p, g')"
  shows "w_db (gw_world g') = w_db (gw_world g)" "w_system (gw_world g') = w_system (gw_world g)"
    and "prog_ok p (seen_key ssl cfg req) (may_write ssl cfg req) False (\<lambda>d res. acknowledges req res \<longrightarrow> d)"
  using assms handle_p_ok [of ssl cfg req "gw_reqid (with_metrics IncInFlight g)"]
  by (auto simp: on_read_begin_def is_metrics_request_def split_beta Let_def split: if_splits)

lemma handler_ok_simps [simp]:
  "handler_ok ssl cfg limit No_request (s, h) \<longleftrightarrow> session_ok limit s \<and> h = None"
  "handler_ok ssl cfg limit (Wrote req d) (s, Some (req', p)) \<longleftrightarrow> session_ok limit s \<and> req' = req \<and>
     done_ok p d (\<lambda>d res. acknowledges req res \<longrightarrow> d)"
  "handler_ok ssl cfg limit (Fresh req) (s, Some (req', p)) \<longleftrightarrow> session_ok limit s \<and> req' = req \<and>
     length (rq_body req) \<le> limit \<and> prog_ok p (seen_key ssl cfg req) (may_write ssl cfg req) False (\<lambda>d res. acknowledges req res \<longrightarrow> d)"
  by (auto simp: handler_ok_def)

lemma handler_ok_None: "handler_ok ssl cfg limit pr (s, None) \<Longrightarrow> pr = No_request \<and> session_ok limit s"
  by (cases pr) (auto simp: handler_ok_def)

lemma handler_ok_Some:
  assumes "handler_ok ssl cfg limit pr (s, Some (req, p))"
  obtains "pr = Fresh req" "session_ok limit s" "length (rq_body req) \<le> limit"
      "prog_ok p (seen_key ssl cfg req) (may_write ssl cfg req) False (\<lambda>d res. acknowledges req res \<longrightarrow> d)"
  | d where "pr = Wrote req d" "session_ok limit s" "done_ok p d (\<lambda>d res. acknowledges req res \<longrightarrow> d)"
  using assms by (cases pr) (auto simp: handler_ok_def)

lemma session_ok_Idle [simp]: "session_ok limit s \<Longrightarrow> session_ok limit (s\<lparr>waits_for := Idle\<rparr>)"
  by (simp add: session_ok_def)

lemma session_ok_end [simp]: "session_ok limit s \<Longrightarrow> session_ok limit (on_read_end ne req res s g)"
  by (simp add: session_ok_def on_read_end_def Let_def)

text \<open>A call of a handler, in the history.\<close>

context rocksdb_laws
begin

lemma call_history:
  assumes h: "conc_history ssl cfg limit s0 (V w) es cs prs ops" and i: "i < length cs" "cs ! i = (s, Some (req, p))"
    and st: "step_prog R p w = (p', w')" and c: "clocks_ok w" and l: "int limit < 2 ^ 63"
  shows "\<exists>prs' ops'. conc_history ssl cfg limit s0 (V w') (es @ [C_call i]) (cs[i := (s, Some (req, p'))]) prs' (ops @ ops')"
proof -
  have inv: "store_inv (V w)" using h by (simp add: conc_history_def)
  have "handler_ok ssl cfg limit (prs ! i) (s, Some (req, p))"
    using h i by (auto simp: conc_history_def dest: list_all2_nthD2)
  then show ?thesis
  proof (cases rule: handler_ok_Some)
    case 1
    note fresh = 1
    from step_prog_ok [OF st fresh(4) c] consider
      "V w' = V w" "prog_ok p' (seen_key ssl cfg req) (may_write ssl cfg req) False (\<lambda>d res. acknowledges req res \<longrightarrow> d)"
    | key where "seen_key ssl cfg req key" "V w key \<noteq> None" "done_ok p' True (\<lambda>d res. acknowledges req res \<longrightarrow> d)" "V w' = V w"
    | b d where "may_write ssl cfg req b" "done_ok p' d (\<lambda>d res. acknowledges req res \<longrightarrow> d)" "V w' = apply_batch b (V w)"
    | "done_ok p' False (\<lambda>d res. acknowledges req res \<longrightarrow> d)" "V w' = V w"
      by (elim disjE exE conjE) auto
    then show ?thesis
    proof cases
      case 1
      with history_update [OF h i(1), of "Fresh req" "(s, Some (req, p'))" "V w" "[]" "C_call i"] fresh inv show ?thesis
        by (auto simp: effects_def)
    next
      case 2
      then obtain b where b: "served ssl cfg req" "requested_op cfg req = Some (CreateBucket b)" "V w (bucket_key b) \<noteq> None"
        by (auto simp: seen_key_def)
      from history_update [OF h i(1), of "Wrote req True" "(s, Some (req, p'))" "V w" "[(req, CreateBucket b, 0)]" "C_call i"]
        create_seen [where V = "V w", OF b(2,3)] 2(3,4) b fresh inv show ?thesis by (simp add: effects_def)
    next
      case 3
      then obtain op t where op: "served ssl cfg req" "requested_op cfg req = Some op" "in_i64 t" "b = op_batch op t"
        by (auto simp: may_write_def)
      have "int (length (rq_body req)) < 2 ^ 63" using fresh(3) l by linarith
      from op_batch_inv [OF inv op(2,3) this] history_update [OF h i(1), of "Wrote req d" "(s, Some (req, p'))" "V w'" "[(req, op, t)]" "C_call i"]
        3 op fresh show ?thesis by (cases d) (auto simp: effects_def)
    next
      case 4
      with history_update [OF h i(1), of "Wrote req False" "(s, Some (req, p'))" "V w" "[]" "C_call i"] fresh inv show ?thesis
        by (auto simp: effects_def)
    qed
  next
    case (2 d)
    with step_prog_ok [OF st 2(3) c] history_update [OF h i(1), of "Wrote req d" "(s, Some (req, p'))" "V w" "[]" "C_call i"] inv
    show ?thesis by (auto simp: effects_def)
  qed
qed

lemma c_step_history:
  assumes "c_step ssl R ne cfg scfg cv e cv'" "int (max_request_body_bytes scfg) < 2 ^ 63"
    and "clocks_ok (gw_world (cv_gateway cv))"
    and h: "conc_history ssl cfg (max_request_body_bytes scfg) s0 (V (gw_world (cv_gateway cv))) es (cv_sessions cv) prs ops"
  shows "clocks_ok (gw_world (cv_gateway cv')) \<and>
    (\<exists>prs' ops'. conc_history ssl cfg (max_request_body_bytes scfg) s0 (V (gw_world (cv_gateway cv'))) (es @ [e])
       (cv_sessions cv') prs' (ops @ ops'))"
  using assms(1)
proof cases
  case (c_accept failed)
  show ?thesis
  proof (cases failed)
    case True
    with c_accept h assms(3) show ?thesis
      by (intro conjI exI [of _ prs] exI [of _ "[]"]) (auto simp: c_on_accept_def conc_history_def)
  next
    case False
    with c_accept h assms(3) show ?thesis
      by (intro conjI exI [of _ "prs @ [No_request]"] exI [of _ "[]"])
        (auto simp: c_on_accept_def session_run_def do_read_def new_Session_def session_ok_def Clock_now_def clocks_ok_def
          conc_history_def split_beta Let_def intro: list_all2_appendI)
  qed
next
  case (c_read i s limit ec c g)
  let ?l = "max_request_body_bytes scfg"
  have "handler_ok ssl cfg ?l (prs ! i) (s, None)"
    using h c_read by (auto simp: conc_history_def dest: list_all2_nthD2)
  then have n: "prs ! i = No_request" "session_ok ?l s" by (auto dest: handler_ok_None)
  have inv: "store_inv (V (gw_world (cv_gateway cv)))" using h by (simp add: conc_history_def)
  show ?thesis
  proof (cases ec)
    case (Read_ok req)
    obtain p where p: "on_read_begin ssl cfg req (cv_gateway cv) = (p, g)" and c: "c = (s\<lparr>waits_for := Idle\<rparr>, Some (req, p))"
      using c_read by (cases "on_read_begin ssl cfg req (cv_gateway cv)") (auto simp: Read_ok c_on_read_def)
    have "length (rq_body req) \<le> ?l" using n c_read by (simp add: Read_ok session_ok_def)
    with history_update [OF h c_read(3), of "Fresh req" c "V (gw_world (cv_gateway cv))" "[]" e] on_read_begin_world [OF p] n inv c c_read assms(3)
    show ?thesis by (auto simp: Read_ok effects_def put_csession_def clocks_ok_def)
  qed (use history_update [OF h c_read(3), of No_request c "V (gw_world (cv_gateway cv))" "[]" e] n inv c_read assms(3) in
      \<open>auto simp: effects_def put_csession_def clocks_ok_def c_on_read_def do_close_def session_ok_def\<close>)
next
  case (c_call i s req p p' w)
  from call_history [OF h c_call(3,4,6) assms(3,2)] c_call assms(3) clocks_front [OF front_step_prog [OF c_call(6)]] show ?thesis
    by (auto simp: put_csession_def)
next
  case (c_respond i s req res)
  let ?l = "max_request_body_bytes scfg"
  let ?c = "(on_read_end ne req res s (cv_gateway cv), None)"
  have inv: "store_inv (V (gw_world (cv_gateway cv)))" using h by (simp add: conc_history_def)
  have "handler_ok ssl cfg ?l (prs ! i) (s, Some (req, Ret res))"
    using h c_respond by (auto simp: conc_history_def dest: list_all2_nthD2)
  then have "session_ok ?l s \<and> (acknowledges req res \<longrightarrow> prs ! i = Wrote req True)"
    by (cases rule: handler_ok_Some) auto
  with history_update [OF h c_respond(3), of No_request ?c "V (gw_world (cv_gateway cv))" "[]" e] inv c_respond assms(3) show ?thesis
    by (auto simp: effects_def put_csession_def)
next
  case (c_write i s close failed s' g)
  let ?l = "max_request_body_bytes scfg"
  have inv: "store_inv (V (gw_world (cv_gateway cv)))" using h by (simp add: conc_history_def)
  have "handler_ok ssl cfg ?l (prs ! i) (s, None)"
    using h c_write by (auto simp: conc_history_def dest: list_all2_nthD2)
  then have n: "prs ! i = No_request" "session_ok ?l s" by (auto dest: handler_ok_None)
  have g: "w_db (gw_world g) = w_db (gw_world (cv_gateway cv))" "w_system (gw_world g) = w_system (gw_world (cv_gateway cv))"
    using on_write_world [of close failed s "cv_gateway cv"] c_write by simp_all
  from history_update [OF h c_write(3), of No_request "(s', None)" "V (gw_world (cv_gateway cv))" "[]" e] inv n g
    on_write_session_ok [OF n(2), of close failed "cv_gateway cv"] c_write assms(3) show ?thesis
    by (auto simp: effects_def put_csession_def clocks_ok_def)
qed

lemma c_run_history:
  assumes "c_run ssl R ne cfg scfg cv es' cv'" "int (max_request_body_bytes scfg) < 2 ^ 63"
    and "clocks_ok (gw_world (cv_gateway cv))"
    and "conc_history ssl cfg (max_request_body_bytes scfg) s0 (V (gw_world (cv_gateway cv))) es (cv_sessions cv) prs ops"
  shows "clocks_ok (gw_world (cv_gateway cv')) \<and>
    (\<exists>prs' ops'. conc_history ssl cfg (max_request_body_bytes scfg) s0 (V (gw_world (cv_gateway cv'))) (es @ es')
       (cv_sessions cv') prs' (ops @ ops'))"
  using assms(1)
proof (induction rule: c_run.induct)
  case c_run_start
  from assms(3,4) show ?case by (metis append_Nil2)
next
  case (c_run_step es' cv' e cv'')
  then obtain prs' ops' where h: "clocks_ok (gw_world (cv_gateway cv'))"
    "conc_history ssl cfg (max_request_body_bytes scfg) s0 (V (gw_world (cv_gateway cv'))) (es @ es') (cv_sessions cv') prs' (ops @ ops')"
    by blast
  from c_step_history [OF c_run_step.hyps(2) assms(2) h] show ?case by (metis append.assoc)
qed

lemma start_history:
  "store_inv (V (gw_world g)) \<Longrightarrow>
   conc_history ssl cfg limit (abs_ostore (V (gw_world g))) (V (gw_world (cv_gateway (start_cserver acc g)))) []
     (cv_sessions (start_cserver acc g)) [] []"
  by (simp add: conc_history_def start_cserver_def effects_def)

end

section \<open>Lemmas: the instant of a \<open>GET\<close>\<close>

text \<open>The handler of a \<open>GET\<close> of an object makes one call, and then has its response.\<close>

lemma get_one_call:
  assumes "object_request ssl cfg ''GET'' b k req" "step_prog R (fst (handle_p ssl cfg req n)) w = (p', w')"
  shows "p' = Ret (fst (run_prog R (fst (handle_p ssl cfg req n)) w))"
proof -
  have "\<exists>r. fst (handle_p ssl cfg req n) = handle_get_p req (api_parse_target req (cfg_virtual_host_suffix cfg)) r"
    using assms(1) by (auto simp: object_request_def served_def handle_p_def handle_object_p_def Let_def split_beta)
  moreover have "step_prog R (handle_get_p req pt r) w = (p'', w'') \<Longrightarrow> p'' = Ret (fst (run_prog R (handle_get_p req pt r) w))"
    for pt r p'' w''
    by (auto simp: handle_get_p_def get_object_data_p_def split_beta split: option.split)
  ultimately show ?thesis using assms(2) by metis
qed

text \<open>What the handler of session \<open>i\<close> answers, or will answer, when the instant of the request is over.\<close>

definition answered_at ::
  "'md openssl \<Rightarrow> 'db rocksdb \<Rightarrow> (Response \<Rightarrow> bool) \<Rightarrow> s3_config \<Rightarrow> server_config \<Rightarrow> 'db cserver \<Rightarrow> cevent list \<Rightarrow> nat \<Rightarrow> Request \<Rightarrow> Response \<Rightarrow> bool" where
  "answered_at ssl R ne cfg scfg cv0 es i req res \<longleftrightarrow>
     (\<exists>es1 es2 cv n. es = es1 @ es2 \<and> c_run ssl R ne cfg scfg cv0 es1 cv \<and> (\<forall>ec. C_read i ec \<notin> set es2) \<and>
        res = fst (handle ssl R cfg req ((cv_gateway cv)\<lparr>gw_reqid := n\<rparr>)))"

lemma answered_at_snoc:
  "answered_at ssl R ne cfg scfg cv0 es i req res \<Longrightarrow> (\<forall>ec. e \<noteq> C_read i ec) \<Longrightarrow> answered_at ssl R ne cfg scfg cv0 (es @ [e]) i req res"
  unfolding answered_at_def by (elim exE conjE) (rule_tac x = es1 in exI, rule_tac x = "es2 @ [e]" in exI, auto)

lemma answered_now:
  assumes "c_run ssl R ne cfg scfg cv0 es cv" "res = fst (run_prog R (fst (handle_p ssl cfg req n)) (gw_world (cv_gateway cv)))"
  shows "answered_at ssl R ne cfg scfg cv0 es i req res"
  unfolding answered_at_def
  by (rule exI [of _ es], rule exI [of _ "[]"], rule exI [of _ cv], rule exI [of _ n])
    (use assms in \<open>simp add: run_handle_p split_beta Let_def\<close>)

lemma c_step_get:
  assumes run: "c_run ssl R ne cfg scfg cv0 es cv" and "c_step ssl R ne cfg scfg cv e cv'"
    and IH: "\<And>s p. i < length (cv_sessions cv) \<Longrightarrow> cv_sessions cv ! i = (s, Some (req, p)) \<Longrightarrow>
      (\<exists>n. p = fst (handle_p ssl cfg req n)) \<or> (\<exists>res. p = Ret res \<and> answered_at ssl R ne cfg scfg cv0 es i req res)"
    and req: "object_request ssl cfg ''GET'' b k req" "\<not> is_metrics_request req"
    and i: "i < length (cv_sessions cv')" "cv_sessions cv' ! i = (s, Some (req, p))"
  shows "(\<exists>n. p = fst (handle_p ssl cfg req n)) \<or> (\<exists>res. p = Ret res \<and> answered_at ssl R ne cfg scfg cv0 (es @ [e]) i req res)"
  using assms(2)
proof cases
  case (c_accept failed)
  with i IH [of s p] show ?thesis
    by (auto simp: c_on_accept_def split_beta Let_def nth_append intro: answered_at_snoc split: if_splits)
next
  case (c_read j s' limit ec c g)
  with i IH [of s p] req(2) show ?thesis
    by (auto simp: put_csession_def c_on_read_def on_read_begin_def nth_list_update split_beta Let_def intro: answered_at_snoc
        split: read_result.splits if_splits)
next
  case (c_call j s' req' q q' w)
  show ?thesis
  proof (cases "j = i")
    case True
    with i c_call have eq: "req' = req" "q' = p" by (simp_all add: put_csession_def)
    then consider n where "q = fst (handle_p ssl cfg req n)" using IH [of s' q] c_call True by auto
    then show ?thesis
    proof cases
      case 1
      from get_one_call [OF req(1)] c_call eq 1
      have "p = Ret (fst (run_prog R (fst (handle_p ssl cfg req n)) (gw_world (cv_gateway cv))))" by blast
      with answered_at_snoc [OF answered_now [OF run refl]] c_call show ?thesis by auto
    qed
  next
    case False
    with i c_call IH [of s p] show ?thesis by (auto simp: put_csession_def intro: answered_at_snoc)
  qed
next
  case (c_respond j s' req' res)
  with i IH [of s p] show ?thesis by (auto simp: put_csession_def nth_list_update intro: answered_at_snoc split: if_splits)
next
  case (c_write j s' close failed s'' g)
  with i IH [of s p] show ?thesis by (auto simp: put_csession_def nth_list_update intro: answered_at_snoc split: if_splits)
qed

lemma c_run_get:
  assumes "c_run ssl R ne cfg scfg (start_cserver acc g) es cv" "object_request ssl cfg ''GET'' b k req" "\<not> is_metrics_request req"
    and "i < length (cv_sessions cv)" "cv_sessions cv ! i = (s, Some (req, p))"
  shows "(\<exists>n. p = fst (handle_p ssl cfg req n)) \<or>
    (\<exists>res. p = Ret res \<and> answered_at ssl R ne cfg scfg (start_cserver acc g) es i req res)"
  using assms(1,4,5)
proof (induction arbitrary: s p rule: c_run.induct)
  case c_run_start
  then show ?case by (simp add: start_cserver_def)
next
  case (c_run_step es cv' e cv'')
  show ?case by (rule c_step_get [OF c_run_step.hyps c_run_step.IH assms(2,3) c_run_step.prems])
qed


section \<open>Lemmas: the in-flight gauge\<close>

definition busy :: "csession \<Rightarrow> bool" where
  "busy c \<longleftrightarrow> snd c \<noteq> None \<or> is_writing (fst c)"

definition busy_count :: "'db cserver \<Rightarrow> nat" where
  "busy_count cv = length (filter busy (cv_sessions cv))"

fun c_request_event :: "cevent \<Rightarrow> bool" where
  "c_request_event (C_read _ (Read_ok _)) = True"
| "c_request_event _ = False"

fun c_answer_event :: "cevent \<Rightarrow> bool" where
  "c_answer_event (C_write _ _) = True"
| "c_answer_event _ = False"

lemma busy_simps [simp]: "busy (s, None) \<longleftrightarrow> is_writing s" "busy (s, Some x)"
  by (simp_all add: busy_def)

lemma busy_end [simp]: "is_writing (on_read_end ne req res s g)"
  by (simp add: on_read_end_def is_writing_def Let_def)

lemma gauge_begin:
  "on_read_begin ssl cfg req g = (p, g') \<Longrightarrow> gauge g' = map_option (\<lambda>(i, n). (i + 1, n)) (gauge g)"
  using gauge_with_metrics(1) [of g]
  by (auto simp: on_read_begin_def split_beta Let_def gauge_def split: if_splits)

lemma busy_update:
  "i < length (cv_sessions cv) \<Longrightarrow>
   int (busy_count (put_csession i c g cv)) = int (busy_count cv) - of_bool (busy (cv_sessions cv ! i)) + of_bool (busy c)"
  by (simp add: busy_count_def put_csession_def of_nat_filter_update)

lemma c_step_gauge:
  assumes "c_step ssl R ne cfg scfg cv e cv'"
  shows "gauge (cv_gateway cv') =
      map_option (\<lambda>(i, n). (i + of_bool (c_request_event e) - of_bool (c_answer_event e), n + of_bool (c_answer_event e)))
        (gauge (cv_gateway cv)) \<and>
    int (busy_count cv') = int (busy_count cv) + of_bool (c_request_event e) - of_bool (c_answer_event e)"
  using assms
proof cases
  case (c_accept failed)
  then show ?thesis
    by (cases failed) (simp_all add: c_on_accept_def session_run_def busy_count_def split_beta Let_def option.map_id0)
next
  case (c_read i s limit ec c g)
  show ?thesis
  proof (cases ec)
    case (Read_ok req)
    obtain p where p: "on_read_begin ssl cfg req (cv_gateway cv) = (p, g)" and c: "c = (s\<lparr>waits_for := Idle\<rparr>, Some (req, p))"
      using c_read by (cases "on_read_begin ssl cfg req (cv_gateway cv)") (auto simp: Read_ok c_on_read_def)
    from c_read gauge_begin [OF p] c busy_update [OF c_read(3), of c g] show ?thesis
      by (simp add: Read_ok put_csession_def)
  qed (use c_read busy_update [OF c_read(3), of c g] in
      \<open>auto simp: c_on_read_def do_close_def put_csession_def is_writing_def option.map_id0\<close>)
next
  case (c_call i s req p p' w)
  have "gauge ((cv_gateway cv)\<lparr>gw_world := w\<rparr>) = gauge (cv_gateway cv)"
    by (rule gauge_front) (simp add: front_step_prog [OF c_call(6)])
  with c_call busy_update [OF c_call(3), of "(s, Some (req, p'))"] show ?thesis by (simp add: put_csession_def option.map_id0)
next
  case (c_respond i s req res)
  with busy_update [OF c_respond(3), of "(on_read_end ne req res s (cv_gateway cv), None)" "cv_gateway cv"] show ?thesis
    by (simp add: put_csession_def option.map_id0)
next
  case (c_write i s close failed s' g)
  with on_write_gauge [of close failed s "cv_gateway cv"] busy_update [OF c_write(3), of "(s', None)" g] show ?thesis
    by (simp add: put_csession_def)
qed

lemma c_run_gauge:
  assumes "c_run ssl R ne cfg scfg (start_cserver acc g) es cv" "gauge g = Some (0, n)"
  shows "gauge (cv_gateway cv) = Some (of_nat (busy_count cv), n + of_nat (length (filter c_answer_event es))) \<and>
    length (filter c_request_event es) = length (filter c_answer_event es) + busy_count cv"
  using assms(1)
proof (induction rule: c_run.induct)
  case c_run_start
  show ?case using assms(2) by (simp add: start_cserver_def busy_count_def)
next
  case (c_run_step es cv' e cv'')
  have "int (busy_count cv'') = int (busy_count cv') + of_bool (c_request_event e) - of_bool (c_answer_event e)"
    using c_step_gauge [OF c_run_step.hyps(2)] by blast
  then have "(of_int (int (busy_count cv'')) :: u64) =
      of_int (int (busy_count cv') + of_bool (c_request_event e) - of_bool (c_answer_event e))" by (simp only:)
  then have "(of_nat (busy_count cv'') :: u64) = of_nat (busy_count cv') + of_bool (c_request_event e) - of_bool (c_answer_event e)"
    by (simp add: of_bool_def)
  moreover have "\<not> (c_request_event e \<and> c_answer_event e)" by (cases e) auto
  ultimately show ?case
    using c_run_step.IH c_step_gauge [OF c_run_step.hyps(2)] by (auto simp: of_bool_def split: if_splits)
qed

section \<open>Examples\<close>

text \<open>One session that reads a request, makes its calls and answers.\<close>

lemma c_demo_run:
  assumes "length (rq_body req) \<le> max_request_body_bytes scfg" "\<not> is_metrics_request req"
  shows "\<exists>n res cv. c_run ssl R ne cfg scfg (start_cserver Acceptor_Listening g)
      ([C_accept False, C_read 0 (Read_ok req)] @ replicate n (C_call 0) @ [C_respond 0 req res]) cv \<and>
    (\<exists>g1. w_db (gw_world g1) = w_db (gw_world g) \<and> handle ssl R cfg req g1 = (res, cv_gateway cv))"
proof -
  let ?run = "c_run ssl R ne cfg scfg" and ?step = "c_step ssl R ne cfg scfg" and ?cv0 = "start_cserver Acceptor_Listening g"
  let ?cv1 = "c_on_accept scfg False ?cv0"
  let ?s = "fst (do_read (new_Session (max_request_body_bytes scfg)) g)"
  have "?step ?cv0 (C_accept False) ?cv1" by (rule c_accept) (simp_all add: start_cserver_def)
  then have r1: "?run ?cv0 [C_accept False] ?cv1" by (rule c_run_single)
  have ss: "cv_sessions ?cv1 = [(?s, None)]" "w_db (gw_world (cv_gateway ?cv1)) = w_db (gw_world g)"
    by (simp_all add: c_on_accept_def session_run_def start_cserver_def Let_def split_beta)
  obtain p g2 where p: "on_read_begin ssl cfg req (cv_gateway ?cv1) = (p, g2)" by fastforce
  let ?c = "(?s\<lparr>waits_for := Idle\<rparr>, Some (req, p))"
  let ?cv2 = "put_csession 0 ?c g2 ?cv1"
  have "?step ?cv1 (C_read 0 (Read_ok req)) ?cv2"
    by (rule c_read [where s = ?s and limit = "max_request_body_bytes scfg"])
      (simp_all add: ss assms c_on_read_def p, simp add: new_Session_def)
  with r1 have r2: "?run ?cv0 [C_accept False, C_read 0 (Read_ok req)] ?cv2" using c_run_trans [OF r1 c_run_single] by simp
  have i2: "0 < length (cv_sessions ?cv2)" "cv_sessions ?cv2 ! 0 = ?c" by (simp_all add: put_csession_def ss)
  let ?cv3 = "put_csession 0 (?s\<lparr>waits_for := Idle\<rparr>, Some (req, Ret (fst (run_prog R p (gw_world g2)))))
        (g2\<lparr>gw_world := snd (run_prog R p (gw_world g2))\<rparr>) ?cv2"
  from c_run_calls [OF i2, of ssl R ne cfg scfg] obtain n where r3: "?run ?cv2 (replicate n (C_call 0)) ?cv3"
    by (auto simp: put_csession_def)
  let ?res = "fst (run_prog R p (gw_world g2))"
  have i3: "0 < length (cv_sessions ?cv3)" "cv_sessions ?cv3 ! 0 = (?s\<lparr>waits_for := Idle\<rparr>, Some (req, Ret ?res))"
    by (simp_all add: put_csession_def ss)
  obtain cv4 where r4: "?step ?cv3 (C_respond 0 req ?res) cv4" "cv_gateway cv4 = cv_gateway ?cv3"
    using c_respond [OF i3, of ssl R ne cfg scfg] by (simp add: put_csession_def)
  note r = c_run_trans [OF r2 c_run_trans [OF r3 c_run_single [OF r4(1)]]]
  have h: "handle ssl R cfg req (with_metrics IncInFlight (cv_gateway ?cv1)) = (?res, cv_gateway cv4)"
    using p assms(2) r4(2) by (auto simp: on_read_begin_def run_handle_p Let_def split_beta put_csession_def)
  show ?thesis
    by (rule exI [of _ n], rule exI [of _ ?res], rule exI [of _ cv4], intro conjI exI [of _ "with_metrics IncInFlight (cv_gateway ?cv1)"])
      (use r h ss(2) in simp_all)
qed


lemma c_demo_before:
  assumes "length (rq_body req) \<le> max_request_body_bytes scfg" "\<not> is_metrics_request req"
  shows "\<exists>n res cv cv'. c_run ssl R ne cfg scfg (start_cserver Acceptor_Listening g)
      ([C_accept False, C_read 0 (Read_ok req)] @ replicate n (C_call 0)) cv \<and> c_step ssl R ne cfg scfg cv (C_respond 0 req res) cv'"
proof -
  obtain n res cv where "c_run ssl R ne cfg scfg (start_cserver Acceptor_Listening g)
      (([C_accept False, C_read 0 (Read_ok req)] @ replicate n (C_call 0)) @ [C_respond 0 req res]) cv"
    using c_demo_run [OF assms, of ssl R ne cfg g] by auto
  then show ?thesis by (cases rule: c_run.cases) auto
qed

section \<open>Properties\<close>

text \<open>
  C3: Updates are linearizable, and acknowledged updates are not lost.  However the worker
  threads interleave at the calls of RocksDB and whichever calls fail, the object store is at every
  moment the initial one changed by a sequence of operations, one after the other: each was asked
  for by a request that passed authentication and is exactly the operation of its method, bucket,
  key and body; no request has more than one, and every request that was acknowledged, a \<open>PUT\<close> of a
  bucket or an object answered with 200 or a \<open>DELETE\<close> answered with 204, has one.  Creating a bucket
  that exists is an operation without effect.  Later moments only extend the sequence, so that an
  acknowledged update precedes every update requested afterwards.
\<close>

theorem requests_linearizable:
  assumes "rocksdb_laws R view" "c_run ssl R need_eof cfg scfg (start_cserver acc g) es1 cv1"
    and "c_run ssl R need_eof cfg scfg cv1 es2 cv2"
    and "store_inv (view (w_db (gw_world g)))" "\<forall>n. in_i64 (w_system (gw_world g) n)" "int (max_request_body_bytes scfg) < 2 ^ 63"
    and "s0 = abs_ostore (view (w_db (gw_world g)))"
  shows "\<exists>ops1 ops2.
    explains ssl cfg s0 (abs_ostore (view (w_db (gw_world (cv_gateway cv1))))) es1 ops1 \<and>
    explains ssl cfg s0 (abs_ostore (view (w_db (gw_world (cv_gateway cv2))))) (es1 @ es2) (ops1 @ ops2)"
proof -
  have "clocks_ok (gw_world (cv_gateway (start_cserver acc g)))" using assms(5) by (simp add: clocks_ok_def start_cserver_def)
  from rocksdb_laws.c_run_history [OF assms(1,2,6) this rocksdb_laws.start_history [OF assms(1,4)]]
  obtain prs1 ops1 where c1: "clocks_ok (gw_world (cv_gateway cv1))"
    and h1: "conc_history ssl cfg (max_request_body_bytes scfg) s0 (view (w_db (gw_world (cv_gateway cv1)))) es1 (cv_sessions cv1) prs1 ops1"
    using assms(7) by auto
  from rocksdb_laws.c_run_history [OF assms(1,3,6) c1 h1] history_explains [OF h1] show ?thesis
    using history_explains by blast
qed

theorem requests_linearizable_witness:
  "\<exists>n res cv t.
     c_run demo_ssl mem_rocksdb (\<lambda>_. False) demo_cfg demo_scfg (start_cserver Acceptor_Listening metered_gateway)
       ([C_accept False, C_read 0 (Read_ok (demo_request ''PUT'' (path_target ''pc'' ''k'') [] ''abc''))]
          @ replicate n (C_call 0) @ [C_respond 0 (demo_request ''PUT'' (path_target ''pc'' ''k'') [] ''abc'') res]) cv \<and>
     rs_status res = 200 \<and>
     abs_ostore (map_of (w_db (gw_world (cv_gateway cv)))) =
       abs_effect (PutObject ''pc'' ''k'' ''abc'' ''application/octet-stream'') t (abs_ostore (map_of demo_db))"
proof -
  let ?req = "demo_request ''PUT'' (path_target ''pc'' ''k'') [] ''abc''"
  let ?g = "metered_gateway"
  have or: "object_request demo_ssl demo_cfg ''PUT'' ''pc'' ''k'' ?req" by (rule demo_object_request) simp_all
  have rb: "rq_body ?req = ''abc''" "rq_find ?req ''Content-Type'' = None" by (simp_all add: demo_request_def)
  obtain n res cv g1 where run: "c_run demo_ssl mem_rocksdb (\<lambda>_. False) demo_cfg demo_scfg (start_cserver Acceptor_Listening ?g)
      ([C_accept False, C_read 0 (Read_ok ?req)] @ replicate n (C_call 0) @ [C_respond 0 ?req res]) cv" (is "c_run _ _ _ _ _ _ ?es _")
    and h: "handle demo_ssl mem_rocksdb demo_cfg ?req g1 = (res, cv_gateway cv)"
    using c_demo_run [of ?req demo_scfg demo_ssl mem_rocksdb "\<lambda>_. False" demo_cfg ?g] rb
    by (auto simp: demo_scfg_def is_metrics_request_def demo_request_def)
  from mem.handle_put_view [OF or h] have st: "rs_status res = 200" by blast
  have r: "concat (map requests_of (replicate n (C_call 0))) = []" "concat (map acks_of (replicate n (C_call 0))) = []"
    by simp_all
  have es: "requests_read ?es = {#?req#}" "requests_acked ?es = {#?req#}"
    using or st by (simp_all add: requests_read_def requests_acked_def acknowledges_def object_request_def)
  have s0: "store_inv (map_of (w_db (gw_world ?g)))" "\<forall>n. in_i64 (w_system (gw_world ?g) n)" "w_db (gw_world ?g) = demo_db"
    by (simp_all add: metered_gateway_def demo_world_def demo_db_inv in_i64_def)
  from requests_linearizable [OF mem_rocksdb_laws c_run_start run s0(1,2)]
  obtain ops where ops: "explains demo_ssl demo_cfg (abs_ostore (map_of demo_db)) (abs_ostore (map_of (w_db (gw_world (cv_gateway cv))))) ?es ops"
    by (auto simp: demo_scfg_def s0(3))
  then have "mset (map fst ops) \<subseteq># {#?req#}" "{#?req#} \<subseteq># mset (map fst ops)"
    unfolding explains_def es by blast+
  then have "mset (map fst ops) = {#?req#}" by (rule subset_mset.order_antisym)
  then have "map fst ops = [?req]" by (metis mset_single_iff)
  then obtain op t where o1: "ops = [(?req, op, t)]" by (cases ops) auto
  with ops have "requested_op demo_cfg ?req = Some op" by (simp add: explains_def)
  then have "op = PutObject ''pc'' ''k'' ''abc'' ''application/octet-stream''"
    using or rb by (auto simp: requested_op_def object_request_def Let_def split: if_splits)
  with ops o1 have "abs_ostore (map_of (w_db (gw_world (cv_gateway cv)))) =
      abs_effect (PutObject ''pc'' ''k'' ''abc'' ''application/octet-stream'') t (abs_ostore (map_of demo_db))"
    by (simp add: explains_def effects_def)
  with run st show ?thesis by blast
qed

text \<open>
  C9: The object store stays well formed whatever clients send, however the calls of the worker
  threads interleave and whichever of them fail: after any run of the server the database holds
  only well-formed keys, and data and metadata of every object agree.
\<close>

theorem threads_keep_store:
  assumes "rocksdb_laws R view" "c_run ssl R need_eof cfg scfg (start_cserver acc g) es cv"
    and "store_inv (view (w_db (gw_world g)))" "\<forall>n. in_i64 (w_system (gw_world g) n)" "int (max_request_body_bytes scfg) < 2 ^ 63"
  shows "store_inv (view (w_db (gw_world (cv_gateway cv))))"
proof -
  have "clocks_ok (gw_world (cv_gateway (start_cserver acc g)))" using assms(4) by (simp add: clocks_ok_def start_cserver_def)
  from rocksdb_laws.c_run_history [OF assms(1,2,5) this rocksdb_laws.start_history [OF assms(1,3)]] history_explains show ?thesis
    by blast
qed

theorem threads_keep_store_witness:
  "\<exists>n res cv.
     c_run demo_ssl mem_rocksdb (\<lambda>_. False) demo_cfg demo_scfg (start_cserver Acceptor_Listening metered_gateway)
       ([C_accept False, C_read 0 (Read_ok (demo_request ''PUT'' ''/pc/k'' [] ''abc''))]
          @ replicate n (C_call 0) @ [C_respond 0 (demo_request ''PUT'' ''/pc/k'' [] ''abc'') res]) cv \<and>
     store_inv (map_of (w_db (gw_world (cv_gateway cv))))"
proof -
  let ?req = "demo_request ''PUT'' ''/pc/k'' [] ''abc''"
  obtain n res cv where run: "c_run demo_ssl mem_rocksdb (\<lambda>_. False) demo_cfg demo_scfg (start_cserver Acceptor_Listening metered_gateway)
      ([C_accept False, C_read 0 (Read_ok ?req)] @ replicate n (C_call 0) @ [C_respond 0 ?req res]) cv"
    using c_demo_run [of ?req demo_scfg demo_ssl mem_rocksdb "\<lambda>_. False" demo_cfg metered_gateway]
    by (auto simp: demo_scfg_def is_metrics_request_def demo_request_def)
  have "store_inv (map_of (w_db (gw_world (cv_gateway cv))))"
    by (rule threads_keep_store [OF mem_rocksdb_laws run])
      (simp_all add: metered_gateway_def demo_world_def demo_db_inv in_i64_def demo_scfg_def)
  with run show ?thesis by blast
qed

text \<open>
  C10: A \<open>GET\<close> of an object sees the store at one instant: its answer is the one that \<open>Api::handle\<close>
  gives when it runs alone on a state of the server that lies between the reading of the request
  and the answer, up to the request id.
\<close>

theorem get_linearizable:
  assumes "c_run ssl R need_eof cfg scfg (start_cserver acc g) es cv" "c_step ssl R need_eof cfg scfg cv (C_respond i req res) cv'"
    and "object_request ssl cfg ''GET'' b k req" "\<not> is_metrics_request req"
  shows "\<exists>es1 es2 cv1 n. es = es1 @ es2 \<and> c_run ssl R need_eof cfg scfg (start_cserver acc g) es1 cv1 \<and>
    (\<forall>ec. C_read i ec \<notin> set es2) \<and> res = fst (handle ssl R cfg req ((cv_gateway cv1)\<lparr>gw_reqid := n\<rparr>))"
proof -
  from assms(2) obtain s where "i < length (cv_sessions cv)" "cv_sessions cv ! i = (s, Some (req, Ret res))"
    by cases auto
  from c_run_get [OF assms(1,3,4) this] answered_now [OF assms(1), of res req]
  have "answered_at ssl R need_eof cfg scfg (start_cserver acc g) es i req res"
    by (metis fst_conv prog.inject(1) run_prog.simps(1))
  then show ?thesis by (simp add: answered_at_def)
qed

theorem get_linearizable_witness:
  "\<exists>n res es1 es2 cv1 m.
     [C_accept False, C_read 0 (Read_ok (demo_request ''GET'' (path_target ''pc'' ''obj'') [] []))] @ replicate n (C_call 0) = es1 @ es2 \<and>
     c_run demo_ssl mem_rocksdb (\<lambda>_. False) demo_cfg demo_scfg (start_cserver Acceptor_Listening metered_gateway) es1 cv1 \<and>
     (\<forall>ec. C_read 0 ec \<notin> set es2) \<and>
     res = fst (handle demo_ssl mem_rocksdb demo_cfg (demo_request ''GET'' (path_target ''pc'' ''obj'') [] []) ((cv_gateway cv1)\<lparr>gw_reqid := m\<rparr>))"
proof -
  let ?req = "demo_request ''GET'' (path_target ''pc'' ''obj'') [] []"
  have or: "object_request demo_ssl demo_cfg ''GET'' ''pc'' ''obj'' ?req" by (rule demo_object_request) simp_all
  have nm: "\<not> is_metrics_request ?req"
    by (simp add: is_metrics_request_def demo_request_def path_target_def) code_simp
  from c_demo_before [OF _ nm, of demo_scfg demo_ssl mem_rocksdb "\<lambda>_. False" demo_cfg metered_gateway]
  obtain n res cv cv' where
    "c_run demo_ssl mem_rocksdb (\<lambda>_. False) demo_cfg demo_scfg (start_cserver Acceptor_Listening metered_gateway)
      ([C_accept False, C_read 0 (Read_ok ?req)] @ replicate n (C_call 0)) cv"
    "c_step demo_ssl mem_rocksdb (\<lambda>_. False) demo_cfg demo_scfg cv (C_respond 0 ?req res) cv'"
    by (auto simp: demo_request_def)
  from get_linearizable [OF this or nm] show ?thesis by blast
qed

text \<open>
  C16: The in-flight gauge is exact under threads too: it is the number of sessions that handle a
  request or write a response; every request that was read has been observed once or is being
  handled or answered, and nothing else is observed.
\<close>

theorem inflight_counts_busy:
  assumes "c_run ssl R need_eof cfg scfg (start_cserver acc g) es cv"
    and "w_metrics (gw_world g) = Some m0" "inflight m0 = 0"
  shows "\<exists>m. w_metrics (gw_world (cv_gateway cv)) = Some m \<and> inflight m = of_nat (busy_count cv) \<and>
    latency_count m = latency_count m0 + of_nat (length (filter c_answer_event es)) \<and>
    length (filter c_request_event es) = length (filter c_answer_event es) + busy_count cv"
  using c_run_gauge [OF assms(1), of "latency_count m0"] assms(2,3) by (auto simp: gauge_def)

theorem inflight_counts_busy_witness:
  "\<exists>n cv m. c_run demo_ssl mem_rocksdb (\<lambda>_. False) demo_cfg demo_scfg (start_cserver Acceptor_Listening metered_gateway)
      ([C_accept False, C_read 0 (Read_ok (demo_request ''GET'' ''/'' [] []))] @ replicate n (C_call 0)) cv \<and>
     w_metrics (gw_world (cv_gateway cv)) = Some m \<and> inflight m = 1"
proof -
  let ?req = "demo_request ''GET'' ''/'' [] []"
  have nm: "\<not> is_metrics_request ?req" by (simp add: is_metrics_request_def demo_request_def)
  from c_demo_before [OF _ nm, of demo_scfg demo_ssl mem_rocksdb "\<lambda>_. False" demo_cfg metered_gateway]
  obtain n res cv cv' where
    r: "c_run demo_ssl mem_rocksdb (\<lambda>_. False) demo_cfg demo_scfg (start_cserver Acceptor_Listening metered_gateway)
      ([C_accept False, C_read 0 (Read_ok ?req)] @ replicate n (C_call 0)) cv"
    and st: "c_step demo_ssl mem_rocksdb (\<lambda>_. False) demo_cfg demo_scfg cv (C_respond 0 ?req res) cv'"
    by (auto simp: demo_request_def)
  have "w_metrics (gw_world metered_gateway) = Some new_Metrics" "inflight new_Metrics = 0"
    by (simp_all add: metered_gateway_def new_Metrics_def)
  from inflight_counts_busy [OF r this] obtain m where m: "w_metrics (gw_world (cv_gateway cv)) = Some m"
    "inflight m = of_nat (busy_count cv)" and c: "Suc 0 = busy_count cv" by auto
  from m have "w_metrics (gw_world (cv_gateway cv)) = Some m \<and> inflight m = 1" by (simp add: c [symmetric])
  with r show ?thesis by blast
qed

end
