(* ===== verification/Schedules.thy ===== *)
theory Schedules
  imports Concurrent
begin

text \<open>
  Schedules of the threaded server: the step relation of \<open>Concurrent\<close> as a function of the choice of
  the next thread, so that a schedule can be run, and the schedules of a \<open>PUT\<close> that falls between the
  checks and the deletion of \<open>RocksObjectStore::delete_bucket\<close>.
\<close>

section \<open>Steps as a function\<close>

text \<open>
  The steps as a function of the scheduler's choice: an operation completes, or a handler goes on.
  \<open>c_turn_iff\<close> says that these are all the steps, so that schedules can be run.
\<close>

datatype turn = Accepts bool | Reads nat read_result | Goes_on nat | Writes nat bool

fun prog_result :: "'a prog \<Rightarrow> 'a option" where
  "prog_result (Ret a) = Some a"
| "prog_result _ = None"

lemma prog_result_iff: "prog_result p = Some a \<longleftrightarrow> p = Ret a" "prog_result p = None \<longleftrightarrow> \<not> is_Ret p"
  by (cases p; simp)+

fun c_turn ::
  "'md openssl \<Rightarrow> 'db rocksdb \<Rightarrow> (Response \<Rightarrow> bool) \<Rightarrow> s3_config \<Rightarrow> server_config \<Rightarrow> turn \<Rightarrow> 'db cserver \<Rightarrow> (cevent \<times> 'db cserver) option" where
  "c_turn ssl R need_eof cfg scfg (Accepts failed) cv =
     (if cv_accepting cv \<and> (cv_acceptor cv = Acceptor_Listening \<or> failed) then Some (C_accept failed, c_on_accept scfg failed cv) else None)"
| "c_turn ssl R need_eof cfg scfg (Reads i ec) cv =
     (if i < length (cv_sessions cv) then
        (case cv_sessions cv ! i of
           (s, None) \<Rightarrow>
             if waits_for s = Reading \<and> (case parser_limit s of Some limit \<Rightarrow> read_within limit ec | None \<Rightarrow> False)
             then (case c_on_read ssl cfg ec s (cv_gateway cv) of (c, g) \<Rightarrow> Some (C_read i ec, put_csession i c g cv)) else None
         | _ \<Rightarrow> None)
      else None)"
| "c_turn ssl R need_eof cfg scfg (Goes_on i) cv =
     (if i < length (cv_sessions cv) then
        (case cv_sessions cv ! i of
           (s, Some (req, p)) \<Rightarrow>
             (case prog_result p of
                Some res \<Rightarrow>
                  Some (C_respond i req res, put_csession i (on_read_end need_eof req res s (cv_gateway cv), None) (cv_gateway cv) cv)
              | None \<Rightarrow>
                  (case step_prog R p (gw_world (cv_gateway cv)) of (p', w) \<Rightarrow>
                     Some (C_call i, put_csession i (s, Some (req, p')) ((cv_gateway cv)\<lparr>gw_world := w\<rparr>) cv)))
         | _ \<Rightarrow> None)
      else None)"
| "c_turn ssl R need_eof cfg scfg (Writes i failed) cv =
     (if i < length (cv_sessions cv) then
        (case cv_sessions cv ! i of
           (s, None) \<Rightarrow>
             (case waits_for s of
                Writing close \<Rightarrow>
                  (case on_write close failed s (cv_gateway cv) of (s', g) \<Rightarrow> Some (C_write i failed, put_csession i (s', None) g cv))
              | _ \<Rightarrow> None)
         | _ \<Rightarrow> None)
      else None)"

fun c_schedule ::
  "'md openssl \<Rightarrow> 'db rocksdb \<Rightarrow> (Response \<Rightarrow> bool) \<Rightarrow> s3_config \<Rightarrow> server_config \<Rightarrow> turn list \<Rightarrow> 'db cserver \<Rightarrow> (cevent list \<times> 'db cserver) option" where
  "c_schedule ssl R need_eof cfg scfg [] cv = Some ([], cv)"
| "c_schedule ssl R need_eof cfg scfg (t # ts) cv =
     (case c_turn ssl R need_eof cfg scfg t cv of
        None \<Rightarrow> None
      | Some (e, cv) \<Rightarrow> map_option (apfst ((#) e)) (c_schedule ssl R need_eof cfg scfg ts cv))"

lemma c_turn_step: "c_turn ssl R ne cfg scfg t cv = Some (e, cv') \<Longrightarrow> c_step ssl R ne cfg scfg cv e cv'"
  by (cases t) (auto simp: prog_result_iff split: if_splits prod.splits option.splits pending.splits intro: c_step.intros)

lemma c_step_turn: "c_step ssl R ne cfg scfg cv e cv' \<Longrightarrow> \<exists>t. c_turn ssl R ne cfg scfg t cv = Some (e, cv')"
proof (induction rule: c_step.induct)
  case (c_accept cv failed)
  then show ?case by (intro exI [of _ "Accepts failed"]) auto
next
  case (c_read i cv s limit ec c g)
  then show ?case by (intro exI [of _ "Reads i ec"]) auto
next
  case (c_call i cv s req p p' w)
  then show ?case by (intro exI [of _ "Goes_on i"]) (auto simp: prog_result_iff split: option.split)
next
  case (c_respond i cv s req res)
  then show ?case by (intro exI [of _ "Goes_on i"]) auto
next
  case (c_write i cv s close failed s' g)
  then show ?case by (intro exI [of _ "Writes i failed"]) auto
qed

lemma c_turn_iff: "c_step ssl R ne cfg scfg cv e cv' \<longleftrightarrow> (\<exists>t. c_turn ssl R ne cfg scfg t cv = Some (e, cv'))"
  using c_turn_step c_step_turn by blast

lemma c_schedule_run: "c_schedule ssl R ne cfg scfg ts cv = Some (es, cv') \<Longrightarrow> c_run ssl R ne cfg scfg cv es cv'"
proof (induction ts arbitrary: cv es)
  case Nil
  then show ?case by (auto intro: c_run_start)
next
  case (Cons t ts)
  from Cons.prems obtain e cv1 es1 where t: "c_turn ssl R ne cfg scfg t cv = Some (e, cv1)"
    and s: "c_schedule ssl R ne cfg scfg ts cv1 = Some (es1, cv')" and es: "es = e # es1"
    by (auto split: option.splits prod.splits)
  from c_run_trans [OF c_run_single [OF c_turn_step [OF t]] Cons.IH [OF s]] show ?case by (simp add: es)
qed

section \<open>Deleting a bucket\<close>

text \<open>Run alone, a deletion that is acknowledged leaves no object in the bucket.\<close>

lemma delete_bucket_alone:
  assumes "rocksdb_laws R view" "delete_bucket R b e w = (True, e', w')"
  shows "no_objects b (view (w_db w')) \<and> view (w_db w') (bucket_key b) = None"
  using rocksdb_laws.delete_bucket_view(2) [OF assms] by (auto simp: no_objects_def)

text \<open>Run alone on a bucket with an object, it is refused.\<close>

context rocksdb_healthy
begin

lemma delete_bucket_refused:
  assumes "nul_free b" "V w (bucket_key b) \<noteq> None" "V w (meta_key b k) \<noteq> None"
  obtains w' where "delete_bucket R b e w = (False, set_err ''BucketNotEmpty'' e, w')"
proof -
  obtain w1 where x: "bucket_exists R b e w = (V w (bucket_key b) \<noteq> None, e, w1)" "w_db w1 = w_db w"
    using assms(1) by (rule bucket_exists_eq)
  let ?it = "db_Seek R (w_db w) (meta_prefix b)"
  have "Valid ?it \<and> starts_with (meta_prefix b) (it_key ?it)"
    using seek_first [of "w_db w" "meta_prefix b" k] Seek_total [of "w_db w" "meta_prefix b"] assms(3)
    by (metis it_status_def meta_key_def ok.simps(1))
  with x assms that show ?thesis by (auto simp: delete_bucket_def Let_def)
qed

end

text \<open>A request that is served and names a bucket.\<close>

definition bucket_request :: "'md openssl \<Rightarrow> s3_config \<Rightarrow> string \<Rightarrow> string \<Rightarrow> Request \<Rightarrow> bool" where
  "bucket_request ssl cfg m b req \<longleftrightarrow> served ssl cfg req \<and> rq_method req = m \<and>
     pt_bucket (api_parse_target req (cfg_virtual_host_suffix cfg)) = b \<and>
     pt_key (api_parse_target req (cfg_virtual_host_suffix cfg)) = [] \<and> b \<noteq> [] \<and> nul_free b"

lemma delete_request_program:
  assumes "bucket_request ssl cfg ''DELETE'' b req"
  obtains F where "fst (handle_p ssl cfg req n) = bind_prog (delete_bucket_p b (Some [])) F"
    "\<And>e. \<exists>res. F (True, e) = Ret res \<and> rs_status res = 204"
    "\<exists>res. F (False, Some ''BucketNotEmpty'') = Ret res \<and> rs_status res = 409"
  using assms
  by (rule_tac that) (auto simp: bucket_request_def served_def handle_p_def handle_bucket_p_def map_storage_error_def Let_def split_beta)

text \<open>The first two calls of a deletion, the checks, and what is left of it then: the deletion of the bucket's key.\<close>

definition delete_key_p :: "string \<Rightarrow> err \<Rightarrow> (bool \<times> err) prog" where
  "delete_key_p b e = Call_Delete (bucket_key b) (\<lambda>st. if \<not> ok st then Ret (False, set_err (ToString st) e) else Ret (True, e))"

context rocksdb_healthy
begin

lemma delete_bucket_checks:
  assumes "nul_free b" "V w (bucket_key b) \<noteq> None" "no_objects b (V w)"
  obtains p w1 where "step_prog R (bind_prog (delete_bucket_p b e) F) w = (p, w1)" "w_db w1 = w_db w"
    "step_prog R p w1 = (bind_prog (delete_key_p b e) F, w1)" "\<not> is_Ret (bind_prog (delete_bucket_p b e) F)" "\<not> is_Ret p"
proof -
  obtain v where v: "V w (bucket_key b) = Some v" using assms(2) by blast
  obtain st v' w1 where g: "timed_Get R (bucket_key b) w = (st, v', w1)"
    "db_Get R (w_db w) (bucket_key b) = (st, v')" "w_db w1 = w_db w" by (rule timed_Get_cases)
  have st: "st = Status_OK" using Get_Some [OF v] g(2) by simp
  let ?it = "db_Seek R (w_db w) (meta_prefix b)"
  have n: "\<not> (Valid ?it \<and> starts_with (meta_prefix b) (it_key ?it))"
    by (rule seek_no_objects [OF assms(3)])
  show ?thesis
    by (rule that [of "Call_Seek (meta_prefix b) (\<lambda>it. bind_prog
          (if Valid it \<and> starts_with (meta_prefix b) (it_key it) then Ret (False, set_err ''BucketNotEmpty'' e)
           else if \<not> ok (it_status it) then Ret (False, set_err (ToString (it_status it)) e) else delete_key_p b e) F)" w1])
      (use n g st assms(1) Seek_total [of "w_db w" "meta_prefix b"] in
        \<open>simp_all add: delete_bucket_p_def bucket_exists_p_def delete_key_p_def it_status_def cong: if_cong\<close>)
qed

lemma delete_key_step:
  obtains w' where "step_prog R (bind_prog (delete_key_p b e) F) w = (F (True, e), w')" "V w' = (V w)(bucket_key b := None)"
proof -
  obtain st w' where t: "timed_Delete R (bucket_key b) w = (st, w')" "db_Delete R (w_db w) (bucket_key b) = (st, w_db w')"
    by (rule timed_Delete_cases)
  with Delete_view [OF t(2)] show ?thesis by (intro that [of w']) (simp_all add: delete_key_p_def)
qed

end

section \<open>Sessions of the threaded server\<close>

text \<open>A session that waits for a request of at most \<open>n\<close> bytes.\<close>

definition awaits :: "nat \<Rightarrow> csession \<Rightarrow> bool" where
  "awaits n c \<longleftrightarrow> snd c = None \<and> waits_for (fst c) = Reading \<and> parser_limit (fst c) = Some n"

lemma two_accepts:
  obtains cv where "c_run ssl R ne cfg scfg (start_cserver Acceptor_Listening g) [C_accept False, C_accept False] cv"
    "length (cv_sessions cv) = 2" "awaits (max_request_body_bytes scfg) (cv_sessions cv ! 0)"
    "awaits (max_request_body_bytes scfg) (cv_sessions cv ! 1)" "w_db (gw_world (cv_gateway cv)) = w_db (gw_world g)"
proof -
  let ?cv0 = "start_cserver Acceptor_Listening g"
  let ?cv1 = "c_on_accept scfg False ?cv0"
  let ?cv2 = "c_on_accept scfg False ?cv1"
  have a: "cv_accepting ?cv0" "cv_accepting ?cv1" "cv_acceptor ?cv0 = Acceptor_Listening" "cv_acceptor ?cv1 = Acceptor_Listening"
    by (simp_all add: start_cserver_def c_on_accept_def Let_def split_beta)
  have "c_run ssl R ne cfg scfg ?cv0 ([C_accept False] @ [C_accept False]) ?cv2"
    using a by (intro c_run_trans [OF c_run_single [OF c_accept] c_run_single [OF c_accept]]) simp_all
  then show ?thesis
    by (intro that [of ?cv2]) (simp_all add: start_cserver_def c_on_accept_def session_run_def do_read_def new_Session_def
        Clock_now_def awaits_def Let_def split_beta)
qed

lemma read_request:
  assumes "i < length (cv_sessions cv)" "awaits n (cv_sessions cv ! i)" "length (rq_body req) \<le> n" "\<not> is_metrics_request req"
    and "handle_p ssl cfg req (gw_reqid (cv_gateway cv)) = (p, n')"
  obtains s where "c_step ssl R ne cfg scfg cv (C_read i (Read_ok req))
      (put_csession i (s, Some (req, p)) ((with_metrics IncInFlight (cv_gateway cv))\<lparr>gw_reqid := n'\<rparr>) cv)"
proof -
  obtain s where s: "cv_sessions cv ! i = (s, None)" "waits_for s = Reading" "parser_limit s = Some n"
    using assms(2) by (cases "cv_sessions cv ! i") (simp add: awaits_def)
  show ?thesis
    by (rule that [OF c_read [OF assms(1) s]])
      (use assms(3-5) in \<open>simp_all add: c_on_read_def on_read_begin_def with_metrics_def Let_def split_beta\<close>)
qed

text \<open>A request whose handler is not interrupted by other threads does what \<open>handle\<close> does.\<close>

lemma request_alone:
  assumes "i < length (cv_sessions cv)" "awaits n (cv_sessions cv ! i)" "length (rq_body req) \<le> n" "\<not> is_metrics_request req"
    and h: "handle ssl R cfg req (with_metrics IncInFlight (cv_gateway cv)) = (res, g)"
  obtains es c where "c_run ssl R ne cfg scfg cv es (put_csession i c g cv)" "C_respond i req res \<in> set es"
proof -
  obtain p r where pr: "handle_p ssl cfg req (gw_reqid (cv_gateway cv)) = (p, r)" by fastforce
  define g1 where "g1 = (with_metrics IncInFlight (cv_gateway cv))\<lparr>gw_reqid := r\<rparr>"
  obtain s where st: "c_step ssl R ne cfg scfg cv (C_read i (Read_ok req)) (put_csession i (s, Some (req, p)) g1 cv)"
    unfolding g1_def by (rule read_request [OF assms(1-4) pr])
  let ?cv = "put_csession i (s, Some (req, p)) g1 cv"
  have l: "i < length (cv_sessions ?cv)" "cv_sessions ?cv ! i = (s, Some (req, p))"
    using assms(1) by (simp_all add: put_csession_def)
  have run: "run_prog R p (gw_world g1) = (res, gw_world g)" "g = g1\<lparr>gw_world := gw_world g\<rparr>"
    using h pr by (auto simp: run_handle_p g1_def with_metrics_def Let_def split_beta)
  let ?cv2 = "put_csession i (s, Some (req, Ret res)) g cv"
  obtain m where c: "c_run ssl R ne cfg scfg ?cv (replicate m (C_call i)) ?cv2"
    using c_run_calls [OF l, of ssl R ne cfg scfg] run by (auto simp: put_csession_def)
  have r: "c_step ssl R ne cfg scfg ?cv2 (C_respond i req res) (put_csession i (on_read_end ne req res s g, None) g cv)"
    using c_respond [of i ?cv2 s req res ssl R ne cfg scfg] assms(1) by (simp add: put_csession_def)
  show ?thesis
    by (rule that [OF c_run_trans [OF c_run_single [OF st] c_run_trans [OF c c_run_single [OF r]]]]) simp
qed

section \<open>Lemmas: the race\<close>

context rocksdb_healthy
begin

lemma handle_delete_refused:
  assumes "bucket_request ssl cfg ''DELETE'' b req" "V (gw_world g) (bucket_key b) \<noteq> None" "V (gw_world g) (meta_key b k) \<noteq> None"
  shows "rs_status (fst (handle ssl R cfg req g)) = 409"
proof -
  obtain F where F: "fst (handle_p ssl cfg req (gw_reqid g)) = bind_prog (delete_bucket_p b (Some [])) F"
    "\<exists>res. F (False, Some ''BucketNotEmpty'') = Ret res \<and> rs_status res = 409"
    using delete_request_program [OF assms(1)] by metis
  have "nul_free b" using assms(1) by (simp add: bucket_request_def)
  then obtain w' where "delete_bucket R b (Some []) (gw_world g) = (False, set_err ''BucketNotEmpty'' (Some []), w')"
    by (rule delete_bucket_refused [OF _ assms(2,3)])
  with F(2) show ?thesis by (auto simp: run_handle_p split_beta F(1) set_err_def)
qed

text \<open>The first session's deletion, up to its last call.\<close>

lemma delete_checked:
  assumes "bucket_request ssl cfg ''DELETE'' b req" "length (rq_body req) \<le> max_request_body_bytes scfg"
    and "V (gw_world g) (bucket_key b) \<noteq> None" "no_objects b (V (gw_world g))"
  obtains es cv s F where "c_run ssl R ne cfg scfg (start_cserver Acceptor_Listening g) es cv"
    "length (cv_sessions cv) = 2" "awaits (max_request_body_bytes scfg) (cv_sessions cv ! 1)"
    "cv_sessions cv ! 0 = (s, Some (req, bind_prog (delete_key_p b (Some [])) F))"
    "V (gw_world (cv_gateway cv)) = V (gw_world g)" "\<forall>e. \<exists>res. F (True, e) = Ret res \<and> rs_status res = 204"
proof -
  obtain cv0 where c0: "c_run ssl R ne cfg scfg (start_cserver Acceptor_Listening g) [C_accept False, C_accept False] cv0"
    "length (cv_sessions cv0) = 2" "awaits (max_request_body_bytes scfg) (cv_sessions cv0 ! 0)"
    "awaits (max_request_body_bytes scfg) (cv_sessions cv0 ! 1)" "w_db (gw_world (cv_gateway cv0)) = w_db (gw_world g)"
    by (rule two_accepts)
  obtain F where F: "fst (handle_p ssl cfg req (gw_reqid (cv_gateway cv0))) = bind_prog (delete_bucket_p b (Some [])) F"
    "\<And>e. \<exists>res. F (True, e) = Ret res \<and> rs_status res = 204"
    using delete_request_program [OF assms(1)] by metis
  have nm: "\<not> is_metrics_request req" "nul_free b" "0 < length (cv_sessions cv0)"
    using assms(1) c0(2) by (simp_all add: bucket_request_def is_metrics_request_def)
  obtain n where hp: "handle_p ssl cfg req (gw_reqid (cv_gateway cv0)) = (bind_prog (delete_bucket_p b (Some [])) F, n)"
    using F(1) by (cases "handle_p ssl cfg req (gw_reqid (cv_gateway cv0))") simp
  define g1 where "g1 = (with_metrics IncInFlight (cv_gateway cv0))\<lparr>gw_reqid := n\<rparr>"
  obtain s where r: "c_step ssl R ne cfg scfg cv0 (C_read 0 (Read_ok req))
      (put_csession 0 (s, Some (req, bind_prog (delete_bucket_p b (Some [])) F)) g1 cv0)"
    unfolding g1_def by (rule read_request [OF nm(3) c0(3) assms(2) nm(1) hp])
  have g1: "w_db (gw_world g1) = w_db (gw_world g)" using c0(5) by (simp add: g1_def with_metrics_def)
  obtain p w1 where st: "step_prog R (bind_prog (delete_bucket_p b (Some [])) F) (gw_world g1) = (p, w1)" "w_db w1 = w_db (gw_world g1)"
    "step_prog R p w1 = (bind_prog (delete_key_p b (Some [])) F, w1)"
    "\<not> is_Ret (bind_prog (delete_bucket_p b (Some [])) F)" "\<not> is_Ret p"
    using delete_bucket_checks [OF nm(2), of "gw_world g1" "Some []" F] assms(3,4) g1 by metis
  let ?at = "\<lambda>p g. put_csession 0 (s, Some (req, p)) g cv0"
  have call: "c_step ssl R ne cfg scfg (?at p h) (C_call 0) (?at p' (h\<lparr>gw_world := w\<rparr>))"
    if "\<not> is_Ret p" "step_prog R p (gw_world h) = (p', w)" for p h p' w
    using c_call [of 0 "?at p h" s req p R p' w ssl ne cfg scfg] that nm(3) by (simp add: put_csession_def)
  from call [OF st(4,1)] call [OF st(5), of "g1\<lparr>gw_world := w1\<rparr>"] st(3)
  have "c_run ssl R ne cfg scfg (?at (bind_prog (delete_bucket_p b (Some [])) F) g1) ([C_call 0] @ [C_call 0])
      (?at (bind_prog (delete_key_p b (Some [])) F) (g1\<lparr>gw_world := w1\<rparr>))"
    by (intro c_run_trans [OF c_run_single c_run_single]) auto
  from c_run_trans [OF c0(1) c_run_trans [OF c_run_single [OF r] this]] show ?thesis
    by (rule that) (use c0 F(2) g1 st(2) in \<open>auto simp: put_csession_def\<close>)
qed

lemma race:
  assumes del: "bucket_request ssl cfg ''DELETE'' b del" "length (rq_body del) \<le> max_request_body_bytes scfg"
    and put: "object_request ssl cfg ''PUT'' b k put" "length (rq_body put) \<le> max_request_body_bytes scfg"
    and "V (gw_world g) (bucket_key b) \<noteq> None" "no_objects b (V (gw_world g))"
  shows "\<exists>es1 cv1 res1 m cv2 res2.
    c_run ssl R ne cfg scfg (start_cserver Acceptor_Listening g) es1 cv1 \<and>
    C_respond 1 put res1 \<in> set es1 \<and> rs_status res1 = 200 \<and>
    V (gw_world (cv_gateway cv1)) = put_kv b k (rq_body put) m (V (gw_world g)) \<and>
    rs_status (fst (handle ssl R cfg del (cv_gateway cv1))) = 409 \<and>
    c_run ssl R ne cfg scfg cv1 [C_call 0, C_respond 0 del res2] cv2 \<and> rs_status res2 = 204 \<and>
    V (gw_world (cv_gateway cv2)) = (put_kv b k (rq_body put) m (V (gw_world g)))(bucket_key b := None)"
proof -
  obtain es cv s F where c: "c_run ssl R ne cfg scfg (start_cserver Acceptor_Listening g) es cv"
    "length (cv_sessions cv) = 2" "awaits (max_request_body_bytes scfg) (cv_sessions cv ! 1)"
    "cv_sessions cv ! 0 = (s, Some (del, bind_prog (delete_key_p b (Some [])) F))"
    "V (gw_world (cv_gateway cv)) = V (gw_world g)" and F: "\<forall>e. \<exists>res. F (True, e) = Ret res \<and> rs_status res = 204"
    by (rule delete_checked [OF del assms(5,6), where ne = ne])
  obtain res1 g1 where h: "handle ssl R cfg put (with_metrics IncInFlight (cv_gateway cv)) = (res1, g1)" by fastforce
  obtain m where p: "rs_status res1 = 200" "V (gw_world g1) = put_kv b k (rq_body put) m (V (gw_world g))"
    using handle_put_view [OF put(1) h] c(5) by (auto simp: with_metrics_def)
  have nm: "\<not> is_metrics_request put" "nul_free b" "nul_free k"
    using put(1) by (simp_all add: object_request_def is_metrics_request_def)
  obtain es' x where r: "c_run ssl R ne cfg scfg cv es' (put_csession 1 x g1 cv)" "C_respond 1 put res1 \<in> set es'"
    using c(2) by (rule_tac request_alone [OF _ c(3) put(2) nm(1) h, where ne = ne and scfg = scfg]) simp_all
  let ?cv1 = "put_csession 1 x g1 cv"
  have s0: "0 < length (cv_sessions ?cv1)" "cv_sessions ?cv1 ! 0 = (s, Some (del, bind_prog (delete_key_p b (Some [])) F))"
    using c(2,4) by (simp_all add: put_csession_def)
  obtain w' where d: "step_prog R (bind_prog (delete_key_p b (Some [])) F) (gw_world (cv_gateway ?cv1)) = (F (True, Some []), w')"
    "V w' = (V (gw_world (cv_gateway ?cv1)))(bucket_key b := None)" by (rule delete_key_step)
  obtain res2 where res2: "F (True, Some []) = Ret res2" "rs_status res2 = 204" using F by blast
  have nr: "\<not> is_Ret (bind_prog (delete_key_p b (Some [])) F)" by (simp add: delete_key_p_def)
  from c_call [OF s0 nr d(1), of ssl ne cfg scfg]
  have "c_step ssl R ne cfg scfg ?cv1 (C_call 0) (put_csession 0 (s, Some (del, Ret res2)) (g1\<lparr>gw_world := w'\<rparr>) ?cv1)" (is "c_step _ _ _ _ _ _ _ ?cv2")
    by (simp add: res2 put_csession_def)
  moreover have "c_step ssl R ne cfg scfg ?cv2 (C_respond 0 del res2) (put_csession 0 (on_read_end ne del res2 s (cv_gateway ?cv2), None) (cv_gateway ?cv2) ?cv2)" (is "c_step _ _ _ _ _ _ _ ?cv3")
    using c(2) by (intro c_respond) (simp_all add: put_csession_def)
  ultimately have "c_run ssl R ne cfg scfg ?cv1 ([C_call 0] @ [C_respond 0 del res2]) ?cv3"
    by (intro c_run_trans [OF c_run_single c_run_single])
  moreover have "rs_status (fst (handle ssl R cfg del (cv_gateway ?cv1))) = 409"
    using assms(5) p(2) nm by (intro handle_delete_refused [OF del(1)]) (auto simp: put_csession_def put_kv_def key_lemmas)
  ultimately show ?thesis
    using c_run_trans [OF c(1) r(1)] r(2) p d(2) res2(2)
    by (intro exI [of _ "es @ es'"] exI [of _ ?cv1] exI [of _ res1] exI [of _ m] exI [of _ ?cv3] exI [of _ res2])
      (simp add: put_csession_def)
qed

end

section \<open>Properties\<close>

text \<open>
  C30: Deleting a bucket is not atomic under threads.  The database works, the bucket exists and is
  empty; a request to delete it and a request to put an object into it are sent on two connections.
  Then the server has a run in which the \<open>PUT\<close> is answered with 200 and leaves its object and its
  bucket in the store, a state in which \<open>Api::handle\<close>, run without interruption, refuses the deletion
  with 409; yet the thread of the deletion, whose two checks came before, makes one more call and is
  answered with 204: the bucket is gone and the object is still stored.  Run alone, an acknowledged
  deletion leaves no object (\<open>delete_bucket_alone\<close>).
\<close>

theorem delete_bucket_race:
  assumes "rocksdb_healthy R view"
    and "bucket_request ssl cfg ''DELETE'' b del" "length (rq_body del) \<le> max_request_body_bytes scfg"
    and "object_request ssl cfg ''PUT'' b k put" "length (rq_body put) \<le> max_request_body_bytes scfg"
    and V: "V = (\<lambda>g. view (w_db (gw_world g)))" and "V g (bucket_key b) \<noteq> None" "no_objects b (V g)"
  shows "\<exists>es1 cv1 res1 m cv2 res2.
    c_run ssl R need_eof cfg scfg (start_cserver Acceptor_Listening g) es1 cv1 \<and>
    C_respond 1 put res1 \<in> set es1 \<and> rs_status res1 = 200 \<and> V (cv_gateway cv1) = put_kv b k (rq_body put) m (V g) \<and>
    rs_status (fst (handle ssl R cfg del (cv_gateway cv1))) = 409 \<and>
    c_run ssl R need_eof cfg scfg cv1 [C_call 0, C_respond 0 del res2] cv2 \<and> rs_status res2 = 204 \<and>
    V (cv_gateway cv2) = (put_kv b k (rq_body put) m (V g))(bucket_key b := None)"
  unfolding V using rocksdb_healthy.race [OF assms(1-5), of g need_eof] assms(7,8) by (simp add: V)

theorem delete_bucket_race_witness:
  "\<exists>es1 cv1 res1 cv2 res2.
     c_run demo_ssl mem_rocksdb (\<lambda>_. False) demo_cfg demo_scfg
       (start_cserver Acceptor_Listening \<lparr>gw_world = demo_world [(bucket_key ''b'', [])], gw_reqid = 1\<rparr>) es1 cv1 \<and>
     C_respond 1 (demo_request ''PUT'' ''/b/k'' [] ''abc'') res1 \<in> set es1 \<and> rs_status res1 = 200 \<and>
     c_run demo_ssl mem_rocksdb (\<lambda>_. False) demo_cfg demo_scfg cv1
       [C_call 0, C_respond 0 (demo_request ''DELETE'' ''/b'' [] []) res2] cv2 \<and> rs_status res2 = 204 \<and>
     map_of (w_db (gw_world (cv_gateway cv2))) (bucket_key ''b'') = None \<and>
     map_of (w_db (gw_world (cv_gateway cv2))) (data_key ''b'' ''k'') = Some ''abc''"
proof -
  let ?del = "demo_request ''DELETE'' ''/b'' [] []" and ?put = "demo_request ''PUT'' ''/b/k'' [] ''abc''"
  let ?g = "\<lparr>gw_world = demo_world [(bucket_key ''b'', [])], gw_reqid = 1\<rparr>"
  have t: "pt_bucket (api_parse_target ?del []) = ''b''" "pt_key (api_parse_target ?del []) = []"
    "pt_bucket (api_parse_target ?put []) = ''b''" "pt_key (api_parse_target ?put []) = ''k''"
    "\<not> contains_nul ''b''" "\<not> contains_nul ''k''"
    by code_simp+
  have del: "bucket_request demo_ssl demo_cfg ''DELETE'' ''b'' ?del" and put: "object_request demo_ssl demo_cfg ''PUT'' ''b'' ''k'' ?put"
    by (simp_all add: bucket_request_def object_request_def served_def demo_cfg_def verify_sigv4_def auth_accept_def t)
      (simp_all add: demo_request_def)
  have "length (rq_body ?del) \<le> max_request_body_bytes demo_scfg" "length (rq_body ?put) \<le> max_request_body_bytes demo_scfg"
    by (simp_all add: demo_request_def demo_scfg_def)
  moreover have "map_of (w_db (gw_world ?g)) (bucket_key ''b'') \<noteq> None" "no_objects ''b'' (map_of (w_db (gw_world ?g)))"
    by (simp_all add: demo_world_def no_objects_def key_lemmas)
  ultimately obtain es1 cv1 res1 m cv2 res2 where
    c: "c_run demo_ssl mem_rocksdb (\<lambda>_. False) demo_cfg demo_scfg (start_cserver Acceptor_Listening ?g) es1 cv1"
      "C_respond 1 ?put res1 \<in> set es1" "rs_status res1 = 200"
      "c_run demo_ssl mem_rocksdb (\<lambda>_. False) demo_cfg demo_scfg cv1 [C_call 0, C_respond 0 ?del res2] cv2" "rs_status res2 = 204"
    and v: "map_of (w_db (gw_world (cv_gateway cv2))) = (put_kv ''b'' ''k'' (rq_body ?put) m (map_of (w_db (gw_world ?g))))(bucket_key ''b'' := None)"
    using delete_bucket_race [OF mem.rocksdb_healthy_axioms del _ put _ refl, of demo_scfg ?g "\<lambda>_. False"] by blast
  from v have "map_of (w_db (gw_world (cv_gateway cv2))) (bucket_key ''b'') = None"
    "map_of (w_db (gw_world (cv_gateway cv2))) (data_key ''b'' ''k'') = Some ''abc''"
    by (simp_all add: put_kv_def key_lemmas demo_request_def)
  with c show ?thesis by blast
qed

end
