(* ===== verification/Storage.thy ===== *)
theory Storage
  imports Cache
begin

text \<open>
  The contract of the abstract class \<open>Storage\<close> (\<open>index_layer/src/cache.h\<close>) that the prefix map
  relies on, and what a client of the prefix map gets from it: every hit of \<open>Lookup\<close> can be loaded,
  and what it loads is the promised prefix of the object.

  \<open>objects s\<close> is what the storage holds in state \<open>s\<close>, \<open>good\<close> the states in which it works,
  \<open>name_ok\<close> and \<open>data_ok\<close> the names and data it accepts.  A range of at least one byte is not asked
  of an empty object.
\<close>

locale storage_contract =
  fixes ops :: "'s storage_ops"
    and objects :: "'s \<Rightarrow> string \<Rightarrow> bytes option"
    and good :: "'s \<Rightarrow> bool"
    and name_ok :: "string \<Rightarrow> bool"
    and data_ok :: "bytes \<Rightarrow> bool"
  assumes Put_law: "good s \<Longrightarrow> name_ok i \<Longrightarrow> data_ok d \<Longrightarrow>
      \<exists>s'. sPut ops s i d = Inr (True, s') \<and> good s' \<and> objects s' = (objects s)(i \<mapsto> d)"
    and GetRange_law: "good s \<Longrightarrow> name_ok i \<Longrightarrow> objects s i = Some d \<Longrightarrow> (0 < n \<longrightarrow> d \<noteq> []) \<Longrightarrow> in_i32 n \<Longrightarrow>
      \<exists>s'. sGetRange ops s i n out = Inr (True, if 0 < n then take (nat n) d else d, s') \<and>
        good s' \<and> objects s' = objects s"
    and GetRange_absent: "good s \<Longrightarrow> name_ok i \<Longrightarrow> objects s i = None \<Longrightarrow>
      \<exists>out' s'. sGetRange ops s i n out = Inr (False, out', s') \<and> good s' \<and> objects s' = objects s"

text \<open>Every entry of the index names an object of the storage that is at least as long as the entry says.\<close>

definition entry_backed :: "(string \<Rightarrow> bytes option) \<Rightarrow> (string \<Rightarrow> bool) \<Rightarrow> PrefixEntry \<Rightarrow> bool" where
  "entry_backed obj nm e \<longleftrightarrow> nm (pe_obj_id e) \<and>
     (case obj (pe_obj_id e) of
        None \<Rightarrow> False
      | Some d \<Rightarrow> min 1 (int (length d)) \<le> pe_usable_len_bytes e \<and> pe_usable_len_bytes e \<le> int (length d) \<and>
          int (length d) < 2 ^ 31)"

definition backed :: "(string \<Rightarrow> bytes option) \<Rightarrow> (string \<Rightarrow> bool) \<Rightarrow> 's PrefixMap \<Rightarrow> bool" where
  "backed obj nm pm \<longleftrightarrow> (\<forall>e \<in> ran (map_of (prefix_map pm)). entry_backed obj nm e)"

lemma backed_stored:
  assumes "backed obj nm pm" "0 < block_size pm" "nm (HashBytesHex hash data)" "int (length data) < 2 ^ 31"
    and "\<And>d. obj (HashBytesHex hash data) = Some d \<Longrightarrow> length d = length data"
  shows "backed (obj(HashBytesHex hash data \<mapsto> data)) nm (stored_pm hash now pm tokens data owner_id priority s)"
  unfolding backed_def
proof
  fix e assume "e \<in> ran (map_of (prefix_map (stored_pm hash now pm tokens data owner_id priority s)))"
  then have "e \<in> stored_entry hash pm tokens data owner_id priority ` set (prefix_lens (block_size pm) (length tokens))
      \<union> ran (map_of (prefix_map pm))"
    using ran_write_prefixes by (fastforce simp: stored_pm_def)
  then consider (new) p where "0 < p" "e = stored_entry hash pm tokens data owner_id priority p"
    | (old) "e \<in> ran (map_of (prefix_map pm))"
    using prefix_lens_le [OF assms(2)] by blast
  then show "entry_backed (obj(HashBytesHex hash data \<mapsto> data)) nm e"
  proof cases
    case new
    with assms(3,4) usable_spec_bounds [of "int p" "int (length data)" "bytes_per_token pm" "int (length tokens)"]
    show ?thesis by (simp add: entry_backed_def stored_entry_def)
  next
    case old
    with assms(1) have "entry_backed obj nm e" by (simp add: backed_def)
    with assms(5) show ?thesis by (auto simp: entry_backed_def split: option.splits)
  qed
qed

lemma Store_block_size:
  assumes "sizes_ok (block_size pm) (bytes_per_token pm) tokens data"
    and "Store ops hash now pm tokens data owner_id priority skip_put = Some (Inr (i, pm'))"
  shows "block_size pm' = block_size pm"
  using assms(2) unfolding Store_eq [OF assms(1)] by (auto split: sum.splits prod.splits if_splits)

text \<open>A hit is an entry of the map.\<close>

lemma Lookup_hit_entry:
  assumes "0 < block_size pm" "int (length tokens) + block_size pm < 2 ^ 31"
    and "Lookup hash pm tokens max_len = Some (Inr r)" "lr_hit r"
  obtains e where "e \<in> ran (map_of (prefix_map pm))" "lr_obj_id r = pe_obj_id e"
    "lr_usable_len_bytes r = pe_usable_len_bytes e"
proof -
  define d where "d = lookup_depth (block_entry hash pm tokens) (lookup_limit tokens max_len div nat (block_size pm))"
  have r: "r = (if d = 0 then no_result
     else \<lparr>lr_hit = True, lr_obj_id = pe_obj_id (the (block_entry hash pm tokens d)),
           lr_usable_len_bytes = pe_usable_len_bytes (the (block_entry hash pm tokens d)),
           lr_prefix_tokens = int (nat (block_size pm) * d)\<rparr>)"
    using Lookup_eq [OF assms(1,2), of hash max_len] assms(3) by (simp add: d_def)
  with assms(4) have "d \<noteq> 0" by (cases "d = 0") (simp_all add: no_result_def)
  then obtain e where e: "block_entry hash pm tokens d = Some e"
    using lookup_depth_all [of d "block_entry hash pm tokens"] by (auto simp: d_def)
  then have "e \<in> ran (map_of (prefix_map pm))" by (auto simp: block_entry_def ran_def)
  with that [of e] r e \<open>d \<noteq> 0\<close> show thesis by simp
qed

context storage_contract
begin

abbreviation index_ok :: "'s PrefixMap \<Rightarrow> bool" where
  "index_ok pm \<equiv> good (storage pm) \<and> backed (objects (storage pm)) name_ok pm"

lemma store_succeeds:
  assumes "good (storage pm)" "sizes_ok (block_size pm) (bytes_per_token pm) tokens data"
    and "name_ok (HashBytesHex hash data)" "data_ok data"
  obtains s where "Store ops hash now pm tokens data owner_id priority False =
      Some (Inr (HashBytesHex hash data, stored_pm hash now pm tokens data owner_id priority s))"
    "good s" "objects s = (objects (storage pm))(HashBytesHex hash data \<mapsto> data)"
proof -
  obtain s where s: "sPut ops (storage pm) (HashBytesHex hash data) data = Inr (True, s)" "good s"
    "objects s = (objects (storage pm))(HashBytesHex hash data \<mapsto> data)"
    using Put_law [OF assms(1,3,4)] by blast
  then have "put_succeeds ops hash pm data False s" by (simp add: put_succeeds_def)
  from Store_succeeds [OF assms(2) this] s that show thesis by blast
qed

lemma store_index_ok:
  assumes "index_ok pm" "sizes_ok (block_size pm) (bytes_per_token pm) tokens data"
    and "name_ok (HashBytesHex hash data)" "data_ok data"
    and "\<And>d. objects (storage pm) (HashBytesHex hash data) = Some d \<Longrightarrow> length d = length data"
    and "Store ops hash now pm tokens data owner_id priority False = Some (Inr (i, pm'))"
  shows "index_ok pm'"
proof -
  obtain s where s: "Store ops hash now pm tokens data owner_id priority False =
      Some (Inr (HashBytesHex hash data, stored_pm hash now pm tokens data owner_id priority s))"
    "good s" "objects s = (objects (storage pm))(HashBytesHex hash data \<mapsto> data)"
    using assms(1-4) by (blast intro: store_succeeds)
  have "0 < block_size pm" "int (length data) < 2 ^ 31" using assms(2) by (simp_all add: sizes_ok_def)
  with backed_stored [of "objects (storage pm)" name_ok pm hash data] assms(1,3,5) s assms(6) show ?thesis by simp
qed

lemma hit_loads:
  assumes "index_ok pm" "0 < block_size pm" "int (length tokens) + block_size pm < 2 ^ 31"
    and "Lookup hash pm tokens max_len = Some (Inr r)" "lr_hit r"
  shows "\<exists>d pm'. objects (storage pm) (lr_obj_id r) = Some d \<and> 0 \<le> lr_usable_len_bytes r \<and>
    lr_usable_len_bytes r \<le> int (length d) \<and>
    Load ops pm (lr_obj_id r) (lr_usable_len_bytes r) out = Inr (True, take (nat (lr_usable_len_bytes r)) d, pm') \<and>
    index_ok pm' \<and> prefix_map pm' = prefix_map pm"
proof -
  obtain e where e: "e \<in> ran (map_of (prefix_map pm))" "lr_obj_id r = pe_obj_id e"
    "lr_usable_len_bytes r = pe_usable_len_bytes e"
    using Lookup_hit_entry [OF assms(2-5)] by blast
  then have "entry_backed (objects (storage pm)) name_ok e" using assms(1) by (simp add: backed_def)
  then obtain d where d: "name_ok (pe_obj_id e)" "objects (storage pm) (pe_obj_id e) = Some d"
    "min 1 (int (length d)) \<le> pe_usable_len_bytes e" "pe_usable_len_bytes e \<le> int (length d)" "int (length d) < 2 ^ 31"
    by (auto simp: entry_backed_def split: option.splits)
  let ?u = "pe_usable_len_bytes e"
  have u: "0 \<le> ?u" "in_i32 ?u" "0 < ?u \<longrightarrow> d \<noteq> []" "\<not> 0 < ?u \<longrightarrow> d = []"
    using d(3-5) by (auto simp: in_i32_def min_def split: if_splits)
  obtain s where s: "sGetRange ops (storage pm) (pe_obj_id e) ?u out = Inr (True, if 0 < ?u then take (nat ?u) d else d, s)"
    "good s" "objects s = objects (storage pm)"
    using GetRange_law [OF _ d(1,2) u(3,2)] assms(1) by blast
  moreover have "(if 0 < ?u then take (nat ?u) d else d) = take (nat ?u) d" using u(4) by auto
  ultimately show ?thesis
    using assms(1) d u(1) by (simp add: Load_def e(2,3) backed_def)
qed

text \<open>A hit right after a \<open>Store\<close> into an empty index is the stored object.\<close>

lemma stored_only_hit:
  assumes "sizes_ok (block_size pm) (bytes_per_token pm) tokens data" "prefix_map pm = []"
    and "int (length tokens') + block_size pm < 2 ^ 31"
    and "Lookup hash (stored_pm hash now pm tokens data owner_id priority s) tokens' max_len = Some (Inr r)" "lr_hit r"
  shows "lr_obj_id r = HashBytesHex hash data \<and> min 1 (int (length data)) \<le> lr_usable_len_bytes r \<and>
    lr_usable_len_bytes r \<le> int (length data)"
proof -
  let ?pm = "stored_pm hash now pm tokens data owner_id priority s"
  have bs: "0 < block_size pm" using assms(1) by (simp add: sizes_ok_def)
  obtain e where e: "e \<in> ran (map_of (prefix_map ?pm))" "lr_obj_id r = pe_obj_id e" "lr_usable_len_bytes r = pe_usable_len_bytes e"
    using Lookup_hit_entry [of ?pm tokens' hash max_len r] bs assms(3-5) by auto
  then obtain p where "p \<in> set (prefix_lens (block_size pm) (length tokens))" "e = stored_entry hash pm tokens data owner_id priority p"
    using ran_write_prefixes assms(2) by (fastforce simp: stored_pm_def)
  with e prefix_lens_le [OF bs] usable_spec_bounds [of "int p" "int (length data)" "bytes_per_token pm" "int (length tokens)"]
  show ?thesis by (simp add: stored_entry_def)
qed

lemma load_object:
  assumes "good s" "name_ok i" "objects s i = Some d" "min 1 (int (length d)) \<le> u" "u \<le> int (length d)" "int (length d) < 2 ^ 31"
    and "storage pm = s"
  shows "\<exists>pm'. Load ops pm i u out = Inr (True, take (nat u) d, pm')"
proof -
  have n: "in_i32 u" "0 < u \<longrightarrow> d \<noteq> []" "\<not> 0 < u \<longrightarrow> d = []"
    using assms(4-6) by (auto simp: in_i32_def min_def split: if_splits)
  from GetRange_law [OF assms(1-3) n(2,1)] obtain s' where "sGetRange ops s i u out = Inr (True, take (nat u) d, s')"
    using n(3) by (cases "0 < u") auto
  with assms(7) show ?thesis by (simp add: Load_def)
qed

lemma store_then_load_shared:
  assumes "good (storage pm)" "sizes_ok (block_size pm) (bytes_per_token pm) tokens data"
    and "name_ok (HashBytesHex hash data)" "data_ok data"
    and "1 \<le> k" "q = nat (block_size pm) * k" "q \<le> length tokens" "q \<le> length tokens'"
    and "take q tokens' = take q tokens" "int (length tokens') + block_size pm < 2 ^ 31"
  shows "\<exists>pm'. Store ops hash now pm tokens data owner_id priority False = Some (Inr (HashBytesHex hash data, pm')) \<and>
    (\<exists>u pm''. Lookup hash pm' tokens' (int q) = Some (Inr \<lparr>lr_hit = True, lr_obj_id = HashBytesHex hash data,
        lr_usable_len_bytes = u, lr_prefix_tokens = int q\<rparr>) \<and> 0 \<le> u \<and> u \<le> int (length data) \<and>
      Load ops pm' (HashBytesHex hash data) u out = Inr (True, take (nat u) data, pm'')) \<and>
    (\<forall>max_len. max_len \<le> 0 \<or> int q \<le> max_len \<longrightarrow>
      (\<exists>r. Lookup hash pm' tokens' max_len = Some (Inr r) \<and> lr_hit r \<and> int q \<le> lr_prefix_tokens r \<and>
        (prefix_map pm = [] \<longrightarrow> lr_obj_id r = HashBytesHex hash data \<and> lr_usable_len_bytes r \<le> int (length data) \<and>
          (\<exists>pm''. Load ops pm' (lr_obj_id r) (lr_usable_len_bytes r) out =
             Inr (True, take (nat (lr_usable_len_bytes r)) data, pm'')))))"
proof -
  obtain s where s: "Store ops hash now pm tokens data owner_id priority False =
      Some (Inr (HashBytesHex hash data, stored_pm hash now pm tokens data owner_id priority s))"
    "good s" "objects s = (objects (storage pm))(HashBytesHex hash data \<mapsto> data)"
    using assms(1-4) by (blast intro: store_succeeds)
  let ?pm = "stored_pm hash now pm tokens data owner_id priority s"
  have o: "objects s (HashBytesHex hash data) = Some data" "int (length data) < 2 ^ 31"
    using s(3) assms(2) by (simp_all add: sizes_ok_def)
  note ld = load_object [OF s(2) assms(3) o(1) _ _ o(2), of _ ?pm out]
  obtain u where u: "Lookup hash ?pm tokens' (int q) =
      Some (Inr \<lparr>lr_hit = True, lr_obj_id = HashBytesHex hash data, lr_usable_len_bytes = u, lr_prefix_tokens = int q\<rparr>)"
    "min 1 (int (length data)) \<le> u" "u \<le> int (length data)"
    using Lookup_stored_shared [OF assms(2,5-10)] by blast
  have 1: "\<exists>u pm''. Lookup hash ?pm tokens' (int q) = Some (Inr \<lparr>lr_hit = True, lr_obj_id = HashBytesHex hash data,
        lr_usable_len_bytes = u, lr_prefix_tokens = int q\<rparr>) \<and> 0 \<le> u \<and> u \<le> int (length data) \<and>
      Load ops ?pm (HashBytesHex hash data) u out = Inr (True, take (nat u) data, pm'')"
    using u ld [of u] by (intro exI [of _ u]) (auto simp: min_def split: if_splits)
  have 2: "\<exists>r. Lookup hash ?pm tokens' max_len = Some (Inr r) \<and> lr_hit r \<and> int q \<le> lr_prefix_tokens r \<and>
        (prefix_map pm = [] \<longrightarrow> lr_obj_id r = HashBytesHex hash data \<and> lr_usable_len_bytes r \<le> int (length data) \<and>
          (\<exists>pm''. Load ops ?pm (lr_obj_id r) (lr_usable_len_bytes r) out =
             Inr (True, take (nat (lr_usable_len_bytes r)) data, pm'')))" if m: "max_len \<le> 0 \<or> int q \<le> max_len" for max_len
  proof -
    obtain r where r: "Lookup hash ?pm tokens' max_len = Some (Inr r)" "lr_hit r" "int q \<le> lr_prefix_tokens r"
      using Lookup_stored_longer [OF assms(2,5-10) m] by blast
    with stored_only_hit [OF assms(2) _ assms(10) r(1,2)] ld [of "lr_usable_len_bytes r"] show ?thesis by auto
  qed
  from s(1) 1 2 show ?thesis by blast
qed

end

end
