(* ===== verification/S3Client.thy ===== *)
theory S3Client
  imports Storage HttpServer
begin

text \<open>
  The index layer's \<open>S3Storage\<close> (\<open>index_layer/src/s3_storage.h\<close>, \<open>s3_storage.cc\<close>): the storage
  provider that keeps objects in an S3 bucket through libcurl.  libcurl is an argument: whether
  \<open>curl_easy_init\<close> succeeds and what \<open>curl_easy_perform\<close> does with the options set.  The state of
  one thread is its \<open>thread_local\<close> handle and the network.  A call with a handle that
  \<open>curl_easy_cleanup\<close> freed is undefined.

  The locale \<open>http_transport\<close> says what the client needs of libcurl and of the HTTP server: the
  requests the client builds, and only those, arrive at \<open>Api::handle\<close> and their answers come back.
  \<open>s3_deployment\<close> composes the client with the gateway over a database that does not fail.  It is shown to keep the contract of
  \<open>Storage\<close>, so the facts proved of the prefix map over that contract hold of the whole system.
\<close>

record S3Config =
  sc_endpoint :: string
  sc_bucket :: string
  sc_timeout_ms :: int
  sc_connect_timeout_ms :: int
  sc_verify_tls :: bool

definition default_S3Config :: S3Config where
  "default_S3Config = \<lparr>sc_endpoint = [], sc_bucket = [], sc_timeout_ms = 5000, sc_connect_timeout_ms = 2000, sc_verify_tls = True\<rparr>"

text \<open>The options of a transfer, as \<open>curl_easy_setopt\<close> leaves them after \<open>curl_easy_reset\<close>; the options that are the same
  constants for every transfer are not recorded.\<close>

record curl_request =
  cq_url :: string
  cq_method :: string
  cq_headers :: "string list"
  cq_timeout_ms :: int
  cq_connect_timeout_ms :: int
  cq_verify_tls :: bool
  cq_postfields :: "bytes option"
  cq_writes :: bool

text \<open>The outcome: the \<open>CURLcode\<close>, the response code, and the pieces given to the write function.\<close>

record curl_result =
  cr_code :: nat
  cr_status :: int
  cr_pieces :: "bytes list"

record 'n libcurl =
  curl_easy_init :: "'n \<Rightarrow> bool"
  curl_easy_perform :: "'n \<Rightarrow> curl_request \<Rightarrow> curl_result \<times> 'n"

datatype curl_handle = Not_created | Null_handle | Live_handle | Freed_handle

record 'n client =
  cl_handle :: curl_handle
  cl_net :: 'n

section \<open>Helpers\<close>

definition WriteCallback :: "bytes \<Rightarrow> nat \<Rightarrow> nat \<Rightarrow> bytes \<Rightarrow> nat \<times> bytes" where
  "WriteCallback ptr sz nmemb out =
     (let total = (sz * nmemb) mod 2 ^ 64 in (total, out @ take total ptr))"

definition IsSuccessStatus :: "int \<Rightarrow> int list \<Rightarrow> bool" where
  "IsSuccessStatus code accepted \<longleftrightarrow> code \<in> set accepted"

definition TrimTrailingSlash :: "string \<Rightarrow> string" where
  "TrimTrailingSlash s = (if s \<noteq> [] \<and> last s = CHR ''/'' then take (length s - 1) s else s)"

definition ThreadCurlHandle :: "'n libcurl \<Rightarrow> 'n client \<Rightarrow> curl_handle \<times> 'n client" where
  "ThreadCurlHandle lib c =
     (let h = (if cl_handle c = Not_created
               then (if curl_easy_init lib (cl_net c) then Live_handle else Null_handle)
               else cl_handle c)
      in (h, c\<lparr>cl_handle := h\<rparr>))"

definition BuildBucketUrl :: "S3Config \<Rightarrow> string" where
  "BuildBucketUrl cfg = TrimTrailingSlash (sc_endpoint cfg) @ ''/'' @ sc_bucket cfg"

definition BuildObjectUrl :: "S3Config \<Rightarrow> string \<Rightarrow> string" where
  "BuildObjectUrl cfg obj_id = TrimTrailingSlash (sc_endpoint cfg) @ ''/'' @ sc_bucket cfg @ ''/'' @ obj_id"

section \<open>Requests\<close>

definition sends_body :: "string \<Rightarrow> bytes option \<Rightarrow> bool" where
  "sends_body meth body \<longleftrightarrow> body \<noteq> None \<and> (meth = ''PUT'' \<or> meth = ''POST'')"

definition request_headers :: "string \<Rightarrow> bytes option \<Rightarrow> string \<Rightarrow> string list" where
  "request_headers meth body range_hdr =
     [''Content-Type: application/octet-stream'']
       @ (if sends_body meth body then [''Expect:''] else [])
       @ (if range_hdr \<noteq> [] then [''Range: '' @ range_hdr] else [])"

definition request_options :: "S3Config \<Rightarrow> string \<Rightarrow> string \<Rightarrow> bytes option \<Rightarrow> bool \<Rightarrow> string \<Rightarrow> curl_request" where
  "request_options cfg url meth body has_out range_hdr =
     \<lparr>cq_url = url, cq_method = meth, cq_headers = request_headers meth body range_hdr,
      cq_timeout_ms = sc_timeout_ms cfg, cq_connect_timeout_ms = sc_connect_timeout_ms cfg,
      cq_verify_tls = sc_verify_tls cfg,
      cq_postfields = (if sends_body meth body then body else None), cq_writes = has_out\<rparr>"

text \<open>The write function is called once per piece, with \<open>size = 1\<close>.\<close>

definition write_pieces :: "bytes list \<Rightarrow> bytes \<Rightarrow> bytes" where
  "write_pieces ps out = fold (\<lambda>p out. snd (WriteCallback p 1 (length p) out)) ps out"

text \<open>
  The result: the returned flag, \<open>*http_code\<close> (0 as the callers initialise it, when it is not set),
  the \<open>out\<close> vector when there is one, and the state.
\<close>

definition PerformRequest ::
  "'n libcurl \<Rightarrow> S3Config \<Rightarrow> string \<Rightarrow> string \<Rightarrow> bytes option \<Rightarrow> bytes option \<Rightarrow> string \<Rightarrow> 'n client \<Rightarrow>
   ub + (bool \<times> int \<times> bytes option \<times> 'n client)" where
  "PerformRequest lib cfg url meth body out range_hdr c =
     (let (curl, c) = ThreadCurlHandle lib c in
      if curl = Null_handle then Inr (False, 0, out, c)
      else if curl = Freed_handle then Inl UseAfterFree
      else
        let (res, net) = curl_easy_perform lib (cl_net c) (request_options cfg url meth body (out \<noteq> None) range_hdr);
            out = map_option (\<lambda>_. write_pieces (cr_pieces res) []) out;
            c = c\<lparr>cl_net := net\<rparr>
        in if cr_code res \<noteq> 0 then Inr (False, 0, out, c\<lparr>cl_handle := Freed_handle\<rparr>)
           else Inr (True, cr_status res, out, c))"

definition S3_CreateBucket :: "'n libcurl \<Rightarrow> S3Config \<Rightarrow> 'n client \<Rightarrow> ub + (bool \<times> 'n client)" where
  "S3_CreateBucket lib cfg c =
     (case PerformRequest lib cfg (BuildBucketUrl cfg) ''PUT'' None None [] c of
        Inl u \<Rightarrow> Inl u
      | Inr (performed, code, out, c) \<Rightarrow> Inr (performed \<and> IsSuccessStatus code [200, 204], c))"

definition S3_Put :: "'n libcurl \<Rightarrow> S3Config \<Rightarrow> 'n client \<Rightarrow> string \<Rightarrow> bytes \<Rightarrow> ub + (bool \<times> 'n client)" where
  "S3_Put lib cfg c obj_id data =
     (case PerformRequest lib cfg (BuildObjectUrl cfg obj_id) ''PUT'' (Some data) None [] c of
        Inl u \<Rightarrow> Inl u
      | Inr (performed, code, out, c) \<Rightarrow> Inr (performed \<and> (code \<ge> 200 \<and> code < 300), c))"

definition S3_GetRange :: "'n libcurl \<Rightarrow> S3Config \<Rightarrow> 'n client \<Rightarrow> string \<Rightarrow> int \<Rightarrow> bytes \<Rightarrow> ub + (bool \<times> bytes \<times> 'n client)" where
  "S3_GetRange lib cfg c obj_id max_bytes out =
     (let range = (if max_bytes > 0 then ''bytes=0-'' @ to_string (max_bytes - 1) else []) in
      case PerformRequest lib cfg (BuildObjectUrl cfg obj_id) ''GET'' None (Some out) range c of
        Inl u \<Rightarrow> Inl u
      | Inr (performed, code, out', c) \<Rightarrow>
          if \<not> performed then Inr (False, the out', c)
          else Inr (IsSuccessStatus code [200, 206], the out', c))"

definition S3_Delete :: "'n libcurl \<Rightarrow> S3Config \<Rightarrow> 'n client \<Rightarrow> string \<Rightarrow> ub + (bool \<times> 'n client)" where
  "S3_Delete lib cfg c obj_id =
     (case PerformRequest lib cfg (BuildObjectUrl cfg obj_id) ''DELETE'' None None [] c of
        Inl u \<Rightarrow> Inl u
      | Inr (performed, code, out, c) \<Rightarrow> Inr (performed \<and> (code \<ge> 200 \<and> code < 300), c))"

definition S3_Size :: "'n client \<Rightarrow> nat" where
  "S3_Size c = 0"

text \<open>The class as an implementation of \<open>Storage\<close>.\<close>

definition S3Storage :: "'n libcurl \<Rightarrow> S3Config \<Rightarrow> 'n client storage_ops" where
  "S3Storage lib cfg =
     \<lparr>sPut = S3_Put lib cfg, sGetRange = S3_GetRange lib cfg, sDelete = S3_Delete lib cfg, sSize = S3_Size\<rparr>"

section \<open>Lemmas\<close>

lemma write_pieces_concat:
  "list_all (\<lambda>p. length p < 2 ^ 64) ps \<Longrightarrow> write_pieces ps out = out @ concat ps"
  by (induction ps arbitrary: out) (simp_all add: write_pieces_def WriteCallback_def)

text \<open>The value of a header line \<open>name: value\<close>.\<close>

fun header_line :: "string list \<Rightarrow> string \<Rightarrow> string option" where
  "header_line [] name = None"
| "header_line (l # ls) name =
     (if starts_with (name @ '': '') l then Some (drop (length name + 2) l) else header_line ls name)"

lemma header_line_range [simp]:
  "header_line (request_headers m b r) ''Range'' = (if r \<noteq> [] then Some r else None)"
  by (simp add: request_headers_def starts_with_def)

definition carries :: "curl_request \<Rightarrow> string \<Rightarrow> Request \<Rightarrow> bool" where
  "carries q path req \<longleftrightarrow> rq_method req = cq_method q \<and> rq_target req = path \<and>
     rq_body req = (case cq_postfields q of Some b \<Rightarrow> b | None \<Rightarrow> []) \<and>
     rq_find req ''Range'' = header_line (cq_headers q) ''Range''"

text \<open>A part of a path that libcurl sends as it is: nothing to encode, no dot segment.\<close>

definition name_safe :: "string \<Rightarrow> bool" where
  "name_safe i \<longleftrightarrow> i \<noteq> [] \<and> list_all (\<lambda>c. is_unreserved c \<and> c \<noteq> CHR ''.'') i"

text \<open>
  The requests of the class: \<open>CreateBucket\<close> on \<open>/bucket\<close>; \<open>Put\<close> with a body the server's parser accepts,
  \<open>GetRange\<close> and \<open>Delete\<close> on \<open>/bucket/key\<close>.
\<close>

definition client_call :: "nat \<Rightarrow> string \<Rightarrow> string \<Rightarrow> bytes option \<Rightarrow> string \<Rightarrow> bool" where
  "client_call limit meth path body rng \<longleftrightarrow>
     (\<exists>b. name_safe b \<and> path = ''/'' @ b \<and> meth = ''PUT'' \<and> body = None \<and> rng = []) \<or>
     (\<exists>b k. name_safe b \<and> name_safe k \<and> path = ''/'' @ b @ ''/'' @ k \<and>
        (meth = ''PUT'' \<and> (\<exists>d. body = Some d \<and> length d \<le> limit) \<and> rng = [] \<or>
         meth = ''GET'' \<and> body = None \<and> (rng = [] \<or> (\<exists>n. 0 \<le> n \<and> rng = ''bytes=0-'' @ to_string n)) \<or>
         meth = ''DELETE'' \<and> body = None \<and> rng = []))"

lemma percent_encode_unreserved: "list_all is_unreserved s \<Longrightarrow> percent_encode s b = s"
  by (induction s) (auto simp: percent_encode_def percent_encode_char_def)

lemma name_safe_path:
  assumes "name_safe b" "name_safe k"
  shows "''/'' @ b @ ''/'' @ k = path_target b k"
proof -
  have "list_all is_unreserved b" "list_all is_unreserved k" using assms by (auto simp: name_safe_def list_all_iff)
  then show ?thesis by (simp add: path_target_def percent_encode_unreserved)
qed

lemma client_call_intros:
  "name_safe b \<Longrightarrow> client_call limit ''PUT'' (''/'' @ b) None []"
  "name_safe b \<Longrightarrow> name_safe k \<Longrightarrow> length d \<le> limit \<Longrightarrow> client_call limit ''PUT'' (''/'' @ b @ ''/'' @ k) (Some d) []"
  "name_safe b \<Longrightarrow> name_safe k \<Longrightarrow> rng = (if 0 < n then ''bytes=0-'' @ to_string (n - 1) else []) \<Longrightarrow>
     client_call limit ''GET'' (''/'' @ b @ ''/'' @ k) None rng"
  "name_safe b \<Longrightarrow> name_safe k \<Longrightarrow> client_call limit ''DELETE'' (''/'' @ b @ ''/'' @ k) None []"
proof -
  show "client_call limit ''GET'' (''/'' @ b @ ''/'' @ k) None rng"
    if "name_safe b" "name_safe k" "rng = (if 0 < n then ''bytes=0-'' @ to_string (n - 1) else [])"
  proof -
    have "rng = [] \<or> (\<exists>m. 0 \<le> m \<and> rng = ''bytes=0-'' @ to_string m)"
      using that(3) by (cases "0 < n") (auto intro!: exI [of _ "n - 1"])
    with that(1,2) show ?thesis unfolding client_call_def by blast
  qed
qed (auto simp: client_call_def)

text \<open>None of them is the request that the server answers itself.\<close>

lemma client_call_not_metrics:
  assumes "client_call limit meth path body rng" "rq_method req = meth" "rq_target req = path"
  shows "\<not> is_metrics_request req"
proof -
  have "CHR ''/'' \<notin> set ''metrics''" by simp
  then have "''/'' @ b @ ''/'' @ k \<noteq> ''/metrics''" for b k :: string by (metis append_Cons append_Nil in_set_conv_decomp list.inject)
  with assms show ?thesis by (auto simp: client_call_def is_metrics_request_def)
qed

lemma name_safe_nul: "name_safe b \<Longrightarrow> nul_free b"
proof -
  have "\<not> is_unreserved CHR 0x00" by (simp add: is_unreserved_def isalnum_def isdigit_def isupper_def islower_def)
  then show "name_safe b \<Longrightarrow> nul_free b" by (auto simp: name_safe_def list_all_iff)
qed

lemma hex_digit_safe: "n < 16 \<Longrightarrow> is_unreserved (hex_digit n) \<and> hex_digit n \<noteq> CHR ''.''"
  by (drule nibble_cases) (auto simp: hex_digit_def is_unreserved_def isalnum_def isdigit_def islower_def)

lemma nat_to_hex_safe: "list_all (\<lambda>c. is_unreserved c \<and> c \<noteq> CHR ''.'') (nat_to_hex n)"
proof (induction n rule: nat_to_hex.induct)
  case (1 n)
  then show ?case using hex_digit_safe [of n] hex_digit_safe [of "n mod 16"] by (subst nat_to_hex.simps) simp
qed

lemma HashBytesHex_safe: "name_safe (HashBytesHex hash data)"
proof -
  have "is_unreserved CHR ''0''" by (simp add: is_unreserved_def isalnum_def isdigit_def)
  then have "list_all (\<lambda>c. is_unreserved c \<and> c \<noteq> CHR ''.'') (HashBytesHex hash data)"
    unfolding HashBytesHex_def pad_left_def list_all_append using nat_to_hex_safe by (simp add: list_all_iff)
  then show ?thesis by (simp add: name_safe_def)
qed

section \<open>The client over the gateway\<close>

text \<open>
  What arrives at the API and comes back.  The gateway's counters and clocks may have moved on when the
  request is handled; its database has not, as the client is the only one.
\<close>

locale http_transport =
  fixes lib :: "'n libcurl"
    and base :: string
    and cfg :: S3Config
    and limit :: nat
    and serve :: "Request \<Rightarrow> 'db gateway \<Rightarrow> Response \<times> 'db gateway"
    and gw :: "'n \<Rightarrow> 'db gateway"
  assumes init_ok: "curl_easy_init lib n"
    and deliver: "client_call limit m path body rng \<Longrightarrow> q = request_options cfg (base @ path) m body has_out rng \<Longrightarrow>
      \<exists>req g res g' ps n'. carries q path req \<and> w_db (gw_world g) = w_db (gw_world (gw n)) \<and> serve req g = (res, g') \<and>
        curl_easy_perform lib n q = (\<lparr>cr_code = 0, cr_status = int (rs_status res), cr_pieces = ps\<rparr>, n') \<and>
        (has_out \<longrightarrow> concat ps = rs_body res) \<and> list_all (\<lambda>p. length p < 2 ^ 64) ps \<and>
        w_db (gw_world (gw n')) = w_db (gw_world g')"
begin

definition usable :: "'n client \<Rightarrow> bool" where
  "usable c \<longleftrightarrow> cl_handle c = Not_created \<or> cl_handle c = Live_handle"

lemma perform_delivers:
  assumes "usable c" "url = base @ path" "client_call limit m path body rng"
  obtains req g res g' c' where "carries (request_options cfg url m body (out \<noteq> None) rng) path req"
    "w_db (gw_world g) = w_db (gw_world (gw (cl_net c)))" "serve req g = (res, g')"
    "PerformRequest lib cfg url m body out rng c = Inr (True, int (rs_status res), map_option (\<lambda>_. rs_body res) out, c')"
    "usable c'" "w_db (gw_world (gw (cl_net c'))) = w_db (gw_world g')"
proof -
  let ?q = "request_options cfg url m body (out \<noteq> None) rng"
  from deliver [OF assms(3), of ?q "out \<noteq> None" "cl_net c"] obtain req g res g' ps n' where d: "carries ?q path req"
    "w_db (gw_world g) = w_db (gw_world (gw (cl_net c)))" "serve req g = (res, g')"
    "out \<noteq> None \<longrightarrow> concat ps = rs_body res" "list_all (\<lambda>p. length p < 2 ^ 64) ps" "w_db (gw_world (gw n')) = w_db (gw_world g')"
    "curl_easy_perform lib (cl_net c) ?q = (\<lparr>cr_code = 0, cr_status = int (rs_status res), cr_pieces = ps\<rparr>, n')"
    using assms(2) by blast
  have "PerformRequest lib cfg url m body out rng c =
      Inr (True, int (rs_status res), map_option (\<lambda>_. rs_body res) out, \<lparr>cl_handle = Live_handle, cl_net = n'\<rparr>)"
    using assms(1) d init_ok
    by (cases c; cases out) (auto simp: PerformRequest_def ThreadCurlHandle_def usable_def write_pieces_concat)
  with d that [of req g res g' "\<lparr>cl_handle = Live_handle, cl_net = n'\<rparr>"] show thesis by (simp add: usable_def)
qed

end

locale s3_deployment =
  rocksdb_healthy R view + http_transport lib base cfg "cfg_max_object_bytes gcfg" "handle ssl R gcfg" gw
  for R :: "'db rocksdb" and view and lib :: "'n libcurl" and base and ssl :: "'md openssl" and gcfg and gw and cfg +
  assumes endpoint_base: "TrimTrailingSlash (sc_endpoint cfg) = base"
    and bucket_safe: "name_safe (sc_bucket cfg)"
    and open_gateway: "cfg_auth_mode gcfg = Mode_None" "cfg_virtual_host_suffix gcfg = []"
begin

definition held :: "'n client \<Rightarrow> string \<Rightarrow> bytes option" where
  "held c i = view (w_db (gw_world (gw (cl_net c)))) (data_key (sc_bucket cfg) i)"

definition fits :: "bytes \<Rightarrow> bool" where
  "fits d \<longleftrightarrow> length d \<le> cfg_max_object_bytes gcfg"

text \<open>What arrives at the gateway when the client asks for an object.\<close>

lemma object_perform:
  assumes "usable c" "name_safe i" "client_call (cfg_max_object_bytes gcfg) m (''/'' @ sc_bucket cfg @ ''/'' @ i) body rng"
    and "m = ''PUT'' \<Longrightarrow> \<exists>d. body = Some d \<and> fits d"
  obtains req g res g' c' where "object_request ssl gcfg m (sc_bucket cfg) i req"
    "rq_find req ''Range'' = (if rng \<noteq> [] then Some rng else None)"
    "rq_body req = (if sends_body m body then the body else [])"
    "handle ssl R gcfg req g = (res, g')"
    "PerformRequest lib cfg (BuildObjectUrl cfg i) m body out rng c =
       Inr (True, int (rs_status res), map_option (\<lambda>_. rs_body res) out, c')"
    "usable c'" "w_db (gw_world g) = w_db (gw_world (gw (cl_net c)))" "w_db (gw_world (gw (cl_net c'))) = w_db (gw_world g')"
proof -
  let ?b = "sc_bucket cfg" and ?path = "path_target (sc_bucket cfg) i"
  have p: "''/'' @ ?b @ ''/'' @ i = ?path" by (rule name_safe_path [OF bucket_safe assms(2)])
  have url: "BuildObjectUrl cfg i = base @ ?path" by (simp only: BuildObjectUrl_def endpoint_base p)
  obtain req g res g' c' where r: "carries (request_options cfg (BuildObjectUrl cfg i) m body (out \<noteq> None) rng) ?path req"
    "w_db (gw_world g) = w_db (gw_world (gw (cl_net c)))" "handle ssl R gcfg req g = (res, g')"
    "PerformRequest lib cfg (BuildObjectUrl cfg i) m body out rng c =
       Inr (True, int (rs_status res), map_option (\<lambda>_. rs_body res) out, c')" "usable c'"
    "w_db (gw_world (gw (cl_net c'))) = w_db (gw_world g')"
    by (rule perform_delivers [OF assms(1) url assms(3) [unfolded p]])
  have q: "rq_target req = ?path" "rq_method req = m" "rq_find req ''Range'' = (if rng \<noteq> [] then Some rng else None)"
    "rq_body req = (if sends_body m body then the body else [])"
    using r(1) by (auto simp: carries_def request_options_def sends_body_def)
  have "served ssl gcfg req"
    using q assms(4) open_gateway(1) by (auto simp: served_def verify_sigv4_def auth_accept_def sends_body_def fits_def)
  then have "object_request ssl gcfg m ?b i req"
    using q parse_path_target [OF q(1), of "[]"] open_gateway(2) bucket_safe assms(2) name_safe_nul
    by (simp add: object_request_def name_safe_def)
  with that r q show thesis by blast
qed

lemma put_keeps_contract:
  assumes "usable c" "name_safe i" "fits d"
  shows "\<exists>c'. S3_Put lib cfg c i d = Inr (True, c') \<and> usable c' \<and> held c' = (held c)(i \<mapsto> d)"
proof -
  obtain req g res g' c' where r: "object_request ssl gcfg ''PUT'' (sc_bucket cfg) i req"
    "rq_body req = (if sends_body ''PUT'' (Some d) then the (Some d) else [])"
    "handle ssl R gcfg req g = (res, g')"
    "PerformRequest lib cfg (BuildObjectUrl cfg i) ''PUT'' (Some d) None [] c =
       Inr (True, int (rs_status res), map_option (\<lambda>_. rs_body res) None, c')"
    "usable c'" "w_db (gw_world g) = w_db (gw_world (gw (cl_net c)))" "w_db (gw_world (gw (cl_net c'))) = w_db (gw_world g')"
    using assms client_call_intros(2) [OF bucket_safe assms(2), of d]
    by (rule_tac object_perform [of c i "''PUT''" "Some d" "[]" None]) (simp_all add: fits_def)
  from r(2) have b: "rq_body req = d" by (simp add: sends_body_def)
  have "rs_status res = 200" "held c' = (held c)(i \<mapsto> d)"
    using handle_put_view [OF r(1,3)] r(6,7) b name_safe_nul [OF bucket_safe]
    by (auto simp: held_def put_kv_def key_lemmas fun_eq_iff)
  with r(4,5) show ?thesis by (simp add: S3_Put_def)
qed

lemma get_perform:
  assumes "usable c" "name_safe i" "rng = (if 0 < n then ''bytes=0-'' @ to_string (n - 1) else [])"
  obtains req res c' where "rq_find req ''Range'' = (if rng \<noteq> [] then Some rng else None)"
    "case held c i of None \<Rightarrow> rs_status res = 404 | Some d \<Rightarrow> \<exists>rc path. res = get_response req rc path d"
    "S3_GetRange lib cfg c i n out = Inr (IsSuccessStatus (int (rs_status res)) [200, 206], rs_body res, c')"
    "usable c'" "held c' = held c"
proof -
  obtain req g res g' c' where r: "object_request ssl gcfg ''GET'' (sc_bucket cfg) i req"
    "rq_find req ''Range'' = (if rng \<noteq> [] then Some rng else None)"
    "handle ssl R gcfg req g = (res, g')"
    "PerformRequest lib cfg (BuildObjectUrl cfg i) ''GET'' None (Some out) rng c =
       Inr (True, int (rs_status res), map_option (\<lambda>_. rs_body res) (Some out), c')"
    "usable c'" "w_db (gw_world g) = w_db (gw_world (gw (cl_net c)))" "w_db (gw_world (gw (cl_net c'))) = w_db (gw_world g')"
    using client_call_intros(3) [OF bucket_safe assms(2,3)] assms(1,2)
    by (rule_tac object_perform [of c i "''GET''" None rng "Some out"]) simp_all
  have "case held c i of None \<Rightarrow> rs_status res = 404 | Some d \<Rightarrow> \<exists>rc path. res = get_response req rc path d"
    "held c' = held c"
    using handle_get_view [OF r(1,3)] r(6,7) by (auto simp: held_def fun_eq_iff split: option.splits)
  moreover have "S3_GetRange lib cfg c i n out = Inr (IsSuccessStatus (int (rs_status res)) [200, 206], rs_body res, c')"
    using r(4) unfolding S3_GetRange_def Let_def assms(3) [symmetric] by simp
  ultimately show thesis using that r(2,5) by blast
qed

lemma get_keeps_contract:
  assumes "usable c" "name_safe i" "held c i = Some d" "0 < n \<longrightarrow> d \<noteq> []" "in_i32 n"
  shows "\<exists>c'. S3_GetRange lib cfg c i n out = Inr (True, if 0 < n then take (nat n) d else d, c') \<and>
    usable c' \<and> held c' = held c"
proof -
  let ?rng = "if 0 < n then ''bytes=0-'' @ to_string (n - 1) else []"
  obtain req res c' where r: "rq_find req ''Range'' = (if ?rng \<noteq> [] then Some ?rng else None)"
    "\<exists>rc path. res = get_response req rc path d"
    "S3_GetRange lib cfg c i n out = Inr (IsSuccessStatus (int (rs_status res)) [200, 206], rs_body res, c')"
    "usable c'" "held c' = held c"
    by (rule get_perform [OF assms(1,2) refl, of n out]) (simp only: assms(3) option.case)
  have "IsSuccessStatus (int (rs_status res)) [200, 206] \<and> rs_body res = (if 0 < n then take (nat n) d else d)"
  proof (cases "0 < n")
    case True
    have z: "to_string 0 = ''0''" by code_simp
    have i64: "in_i64 0" "in_i64 (n - 1)" using assms(5) True by (auto simp: in_i64_def in_i32_def)
    have "parse_single_range (range_header (to_string 0) (to_string (n - 1))) (int (length d)) =
        Some \<lparr>br_start = 0, br_end = min (n - 1) (int (length d) - 1)\<rparr>"
      using parse_range_header [OF digits_to_string [of 0] digits_to_string [of "n - 1"], of "int (length d)"] True assms(4) i64
      by (simp add: from_chars_digits)
    then have "parse_single_range ?rng (int (length d)) = Some \<lparr>br_start = 0, br_end = min (n - 1) (int (length d) - 1)\<rparr>"
      using True by (simp add: range_header_def z)
    moreover have "nat (min (n - 1) (int (length d) - 1)) + 1 = min (nat n) (length d)"
      using True assms(4) by (cases d) (auto simp: min_def)
    ultimately show ?thesis
      using r(1,2) True get_response_cases(3) [of req ?rng d] by (auto simp: IsSuccessStatus_def min_def)
  next
    case False
    then show ?thesis using r(1,2) get_response_cases(1) [of req] by (auto simp: IsSuccessStatus_def)
  qed
  with r show ?thesis by simp
qed

lemma get_absent_contract:
  assumes "usable c" "name_safe i" "held c i = None"
  shows "\<exists>out' c'. S3_GetRange lib cfg c i n out = Inr (False, out', c') \<and> usable c' \<and> held c' = held c"
  by (rule get_perform [OF assms(1,2) refl, of n out]) (auto simp: assms(3) IsSuccessStatus_def)

end

sublocale s3_deployment \<subseteq> s3: storage_contract "S3Storage lib cfg" held usable name_safe fits
  by unfold_locales (simp_all add: S3Storage_def put_keeps_contract get_keeps_contract get_absent_contract)

section \<open>An instance\<close>

text \<open>libcurl and the network as the session of the HTTP server: it reads the request, answers and has written
  the answer.  A body above the limit of its parser gets no answer.\<close>

definition loopback_request :: "curl_request \<Rightarrow> string \<Rightarrow> Request" where
  "loopback_request q base =
     \<lparr>rq_method = cq_method q, rq_target = drop (length base) (cq_url q), rq_version = 11,
      rq_find = header_line (cq_headers q), rq_keep_alive = True,
      rq_body = (case cq_postfields q of Some b \<Rightarrow> b | None \<Rightarrow> [])\<rparr>"

definition loopback :: "'md openssl \<Rightarrow> 'db rocksdb \<Rightarrow> s3_config \<Rightarrow> string \<Rightarrow> ('db gateway) libcurl" where
  "loopback ssl R gcfg base =
     \<lparr>curl_easy_init = (\<lambda>_. True),
      curl_easy_perform = (\<lambda>g q.
        let (s, g) = session_run (new_Session (cfg_max_object_bytes gcfg)) g;
            req = loopback_request q base
        in if cfg_max_object_bytes gcfg < length (rq_body req)
           then (\<lparr>cr_code = 52, cr_status = 0, cr_pieces = []\<rparr>, snd (on_read ssl R (\<lambda>_. False) gcfg Read_failed s g))
           else let (s, g) = on_read ssl R (\<lambda>_. False) gcfg (Read_ok req) s g;
                    res = ss_res s
                in (\<lparr>cr_code = 0, cr_status = int (rs_status res), cr_pieces = map (\<lambda>c. [c]) (rs_body res)\<rparr>,
                    snd (on_write False False s g)))\<rparr>"

definition demo_S3Config :: S3Config where
  "demo_S3Config = default_S3Config\<lparr>sc_endpoint := ''http://127.0.0.1:9000/'', sc_bucket := ''pc''\<rparr>"

lemma concat_singletons [simp]: "concat (map (\<lambda>c. [c]) xs) = xs"
  by (induction xs) simp_all

lemma loopback_transport:
  fixes R :: "'db rocksdb"
  shows "http_transport (loopback ssl R gcfg base) base cfg (cfg_max_object_bytes gcfg) (handle ssl R gcfg) (\<lambda>g. g)"
proof
  fix n show "curl_easy_init (loopback ssl R gcfg base) n" by (simp add: loopback_def)
next
  fix m path body rng q has_out and n :: "'db gateway"
  assume c: "client_call (cfg_max_object_bytes gcfg) m path body rng" and q: "q = request_options cfg (base @ path) m body has_out rng"
  let ?req = "loopback_request q base"
  let ?sg = "session_run (new_Session (cfg_max_object_bytes gcfg)) n"
  let ?g = "with_metrics IncInFlight (snd ?sg)"
  let ?r = "on_read ssl R (\<lambda>_. False) gcfg (Read_ok ?req) (fst ?sg) (snd ?sg)"
  obtain res g' where h: "handle ssl R gcfg ?req ?g = (res, g')" by fastforce
  have mt: "rq_method ?req = m" "rq_target ?req = path" by (simp_all add: q loopback_request_def request_options_def)
  have b: "length (rq_body ?req) \<le> cfg_max_object_bytes gcfg"
    using c by (auto simp: q loopback_request_def request_options_def client_call_def sends_body_def)
  have r: "ss_res (fst ?r) = res" "snd ?r = g'"
    using client_call_not_metrics [OF c mt] h by (simp_all add: on_read_def Let_def)
  have p: "curl_easy_perform (loopback ssl R gcfg base) n q =
      (\<lparr>cr_code = 0, cr_status = int (rs_status res), cr_pieces = map (\<lambda>c. [c]) (rs_body res)\<rparr>,
       snd (on_write False False (fst ?r) g'))"
    using b r by (simp add: loopback_def split_beta Let_def)
  have db: "w_db (gw_world ?g) = w_db (gw_world n)" "w_db (gw_world (snd (on_write False False (fst ?r) g'))) = w_db (gw_world g')"
    using on_write_world [of False False "fst ?r" g'] by (simp_all add: session_run_def)
  have k: "carries q path ?req" by (simp add: q loopback_request_def request_options_def carries_def)
  show "\<exists>req g res g' ps n'. carries q path req \<and> w_db (gw_world g) = w_db (gw_world n) \<and> handle ssl R gcfg req g = (res, g') \<and>
      curl_easy_perform (loopback ssl R gcfg base) n q = (\<lparr>cr_code = 0, cr_status = int (rs_status res), cr_pieces = ps\<rparr>, n') \<and>
      (has_out \<longrightarrow> concat ps = rs_body res) \<and> list_all (\<lambda>p. length p < 2 ^ 64) ps \<and> w_db (gw_world n') = w_db (gw_world g')"
    by (rule exI [of _ ?req], rule exI [of _ ?g], rule exI [of _ res], rule exI [of _ g'],
        rule exI [of _ "map (\<lambda>c. [c]) (rs_body res)"], rule exI [of _ "snd (on_write False False (fst ?r) g')"]) (use k db h p in \<open>simp add: list_all_iff\<close>)
qed

interpretation net: http_transport "loopback demo_ssl mem_rocksdb demo_cfg ''http://127.0.0.1:9000''"
    "''http://127.0.0.1:9000''" demo_S3Config "cfg_max_object_bytes demo_cfg" "handle demo_ssl mem_rocksdb demo_cfg" "\<lambda>g. g"
  by (rule loopback_transport)

lemma loopback_deployment:
  "s3_deployment mem_rocksdb map_of (loopback demo_ssl mem_rocksdb demo_cfg ''http://127.0.0.1:9000'')
     ''http://127.0.0.1:9000'' demo_ssl demo_cfg (\<lambda>g. g) demo_S3Config"
proof (intro s3_deployment.intro s3_deployment_axioms.intro mem_rocksdb_healthy loopback_transport)
  show "TrimTrailingSlash (sc_endpoint demo_S3Config) = ''http://127.0.0.1:9000''"
    by (simp add: demo_S3Config_def TrimTrailingSlash_def)
  show "name_safe (sc_bucket demo_S3Config)"
    by (simp add: demo_S3Config_def name_safe_def is_unreserved_def isalnum_def islower_def)
qed (simp_all add: demo_cfg_def)

interpretation loop: s3_deployment mem_rocksdb map_of "loopback demo_ssl mem_rocksdb demo_cfg ''http://127.0.0.1:9000''"
    "''http://127.0.0.1:9000''" demo_ssl demo_cfg "\<lambda>g. g" demo_S3Config
  by (rule loopback_deployment)

section \<open>Properties\<close>

text \<open>
  C24: A transfer that fails frees the handle of the thread but leaves the pointer in place: the
  request reports failure, and every later request of the thread uses the freed handle.
\<close>

theorem client_use_after_free:
  assumes "cl_handle c = Not_created \<or> cl_handle c = Live_handle" "curl_easy_init lib (cl_net c)"
    and "curl_easy_perform lib (cl_net c) (request_options cfg url m body (out \<noteq> None) rng) = (res, net)"
    and "cr_code res \<noteq> 0"
  shows "\<exists>out' c'. PerformRequest lib cfg url m body out rng c = Inr (False, 0, out', c') \<and>
    S3_Put lib cfg c' i d = Inl UseAfterFree \<and> S3_GetRange lib cfg c' i n buf = Inl UseAfterFree \<and>
    S3_Delete lib cfg c' i = Inl UseAfterFree \<and> S3_CreateBucket lib cfg c' = Inl UseAfterFree"
proof -
  let ?c = "\<lparr>cl_handle = Freed_handle, cl_net = net\<rparr>"
  have "\<exists>out'. PerformRequest lib cfg url m body out rng c = Inr (False, 0, out', ?c)"
    using assms by (cases c) (auto simp: PerformRequest_def ThreadCurlHandle_def)
  moreover have "PerformRequest lib cfg u' m' b' o' r' ?c = Inl UseAfterFree" for u' m' b' o' r'
    by (simp add: PerformRequest_def ThreadCurlHandle_def)
  ultimately show ?thesis
    by (auto simp: S3_Put_def S3_GetRange_def S3_Delete_def S3_CreateBucket_def Let_def)
qed

theorem client_use_after_free_witness:
  "\<exists>out' c'. PerformRequest \<lparr>curl_easy_init = (\<lambda>_. True), curl_easy_perform = (\<lambda>n q. (\<lparr>cr_code = 7, cr_status = 0, cr_pieces = []\<rparr>, n))\<rparr>
       demo_S3Config ''u'' ''GET'' None None [] \<lparr>cl_handle = Not_created, cl_net = ()\<rparr> = Inr (False, 0, out', c') \<and>
     S3_Put \<lparr>curl_easy_init = (\<lambda>_. True), curl_easy_perform = (\<lambda>n q. (\<lparr>cr_code = 7, cr_status = 0, cr_pieces = []\<rparr>, n))\<rparr>
       demo_S3Config c' ''i'' ''d'' = Inl UseAfterFree"
  using client_use_after_free [of "\<lparr>cl_handle = Not_created, cl_net = ()\<rparr>"
      "\<lparr>curl_easy_init = (\<lambda>_. True), curl_easy_perform = (\<lambda>n q. (\<lparr>cr_code = 7, cr_status = 0, cr_pieces = []\<rparr>, n))\<rparr>"
      demo_S3Config "''u''" "''GET''" None None "[]" "\<lparr>cr_code = 7, cr_status = 0, cr_pieces = []\<rparr>" "()" "''i''" "''d''" 0 "[]"]
  by auto

end
