(* ===== verification/IndexCli.thy ===== *)
theory IndexCli
  imports S3Client
begin

text \<open>
  The index layer's command line program (\<open>index_layer/src/main.cpp\<close>).  \<open>index_main\<close> is \<open>main\<close> on its
  \<open>argv\<close>: it ends with an exit code and what it wrote to the standard streams, or with an uncaught
  exception of \<open>std::stoi\<close> or \<open>std::stol\<close>; the prefix map's undefined behaviour and divergence are
  passed on.  The files the program can read and write are part of its world, with the storage
  client; libcurl, the string hash and the clock are arguments.

  The lemmas show what each command does.  The prefix map lives as long as the process: a
  \<open>lookup\<close> never hits, while \<open>load\<close> finds what an earlier \<open>store\<close> put into the bucket.
\<close>

definition usage :: "string \<Rightarrow> string" where
  "usage prog = concat (map (\<lambda>l. l @ nl)
     [''Usage: '' @ prog @ '' <command> [options]'',
      ''Commands:'',
      ''  store --tokens a,b,c --data-file path [--owner id] [--priority n]'',
      ''  lookup --tokens a,b,c [--max-len n]'',
      ''  load --obj-id id [--usable-len n] [--out-file path]'',
      ''  stats'',
      ''Options:'',
      ''  --block-size n (default 8)'',
      ''  --bytes-per-token n (default 0 = proportional)'',
      ''  --s3-endpoint url (required, e.g. http://127.0.0.1:9000)'',
      ''  --s3-bucket name (default prompt-cache)'',
      ''  --s3-create-bucket (create bucket on startup)'',
      ''  --s3-timeout-ms n (default 5000)'',
      ''  --s3-connect-timeout-ms n (default 2000)'',
      ''  --s3-insecure (disable TLS verification)''])"

text \<open>The \<open>getline\<close> loop: it ends when nothing is left, and empty items are dropped.\<close>

function SplitTokens :: "string \<Rightarrow> string list" where
  "SplitTokens input =
     (if input = [] then []
      else case find_char (CHR '','') input of
             None \<Rightarrow> [input]
           | Some pos \<Rightarrow>
               let item = take pos input in
               (if item \<noteq> [] then [item] else []) @ SplitTokens (drop (Suc pos) input))"
  by pat_completeness auto
termination
  by (relation "measure length") (auto dest: find_char_less_length)

declare SplitTokens.simps [simp del]

text \<open>
  The files, and what the file system does with an output file: it may not be opened (\<open>None\<close>), or it
  is truncated, takes some of the bytes, and the stream reports whether it is good.
\<close>

record 'n cli_world =
  cw_files :: "string \<Rightarrow> bytes option"
  cw_disk :: "string \<Rightarrow> bytes \<Rightarrow> (bool \<times> bytes) option"
  cw_client :: "'n client"

definition ReadFile :: "string \<Rightarrow> 'n cli_world \<Rightarrow> bytes option" where
  "ReadFile path w = cw_files w path"

definition WriteFile :: "string \<Rightarrow> bytes \<Rightarrow> 'n cli_world \<Rightarrow> bool \<times> 'n cli_world" where
  "WriteFile path data w =
     (case cw_disk w path data of
        None \<Rightarrow> (False, w)
      | Some (good, written) \<Rightarrow> (good, w\<lparr>cw_files := (cw_files w)(path \<mapsto> written)\<rparr>))"

text \<open>\<open>Exit code out err\<close>, with the final world; or an exception that \<open>main\<close> does not catch.\<close>

datatype 'n main_result = Exit int string string "'n cli_world" | Uncaught

text \<open>A process starts with a \<open>thread_local\<close> handle that is not created yet.\<close>

definition new_process :: "'n cli_world \<Rightarrow> 'n cli_world" where
  "new_process w = w\<lparr>cw_client := (cw_client w)\<lparr>cl_handle := Not_created\<rparr>\<rparr>"

section \<open>Arguments\<close>

fun get_arg_loop :: "string \<Rightarrow> string list \<Rightarrow> string" where
  "get_arg_loop key (a # b # rest) = (if a = key then b else get_arg_loop key (b # rest))"
| "get_arg_loop key _ = []"

definition get_arg :: "string list \<Rightarrow> string \<Rightarrow> string" where
  "get_arg argv key = get_arg_loop key (tl argv)"

definition has_flag :: "string list \<Rightarrow> string \<Rightarrow> bool" where
  "has_flag argv key \<longleftrightarrow> key \<in> set (tl argv)"

record cli_options =
  co_block_size :: int
  co_bytes_per_token :: int
  co_create_bucket :: bool
  co_s3 :: S3Config

text \<open>A numeric option: its default when the argument is empty, else what \<open>stoi\<close> or \<open>stol\<close> reads.\<close>

definition num_arg :: "(string \<Rightarrow> int option) \<Rightarrow> string list \<Rightarrow> string \<Rightarrow> int \<Rightarrow> int option" where
  "num_arg sto argv key dflt = (if get_arg argv key \<noteq> [] then sto (get_arg argv key) else Some dflt)"

definition parse_options :: "string list \<Rightarrow> cli_options option" where
  "parse_options argv =
     (case num_arg stoi argv ''--block-size'' 8 of
        None \<Rightarrow> None
      | Some bs \<Rightarrow>
     (case num_arg stoi argv ''--bytes-per-token'' 0 of
        None \<Rightarrow> None
      | Some bpt \<Rightarrow>
     (case num_arg stoll argv ''--s3-timeout-ms'' 5000 of
        None \<Rightarrow> None
      | Some t \<Rightarrow>
     (case num_arg stoll argv ''--s3-connect-timeout-ms'' 2000 of
        None \<Rightarrow> None
      | Some ct \<Rightarrow>
          Some \<lparr>co_block_size = bs, co_bytes_per_token = bpt, co_create_bucket = has_flag argv ''--s3-create-bucket'',
                co_s3 = \<lparr>sc_endpoint = get_arg argv ''--s3-endpoint'',
                         sc_bucket = (if get_arg argv ''--s3-bucket'' \<noteq> [] then get_arg argv ''--s3-bucket'' else ''prompt-cache''),
                         sc_timeout_ms = t, sc_connect_timeout_ms = ct, sc_verify_tls = \<not> has_flag argv ''--s3-insecure''\<rparr>\<rparr>))))"

section \<open>Commands\<close>

definition cmd_store ::
  "'n libcurl \<Rightarrow> (string \<Rightarrow> 64 word) \<Rightarrow> int \<Rightarrow> S3Config \<Rightarrow> string list \<Rightarrow> 'n client PrefixMap \<Rightarrow> 'n cli_world \<Rightarrow>
   (ub + 'n main_result) option" where
  "cmd_store lib hash now cfg argv cache w =
     (let token_arg = get_arg argv ''--tokens''; data_file = get_arg argv ''--data-file'';
          owner = get_arg argv ''--owner''
      in if token_arg = [] \<or> data_file = [] then Some (Inr (Exit 1 [] (usage (hd argv)) w))
         else
           case num_arg stoi argv ''--priority'' 0 of
             None \<Rightarrow> Some (Inr Uncaught)
           | Some priority \<Rightarrow>
               (case ReadFile data_file w of
                  None \<Rightarrow> Some (Inr (Exit 1 [] (''Failed to read data file'' @ nl) w))
                | Some data \<Rightarrow>
                    (case Store (S3Storage lib cfg) hash now cache (SplitTokens token_arg) data owner priority False of
                       None \<Rightarrow> None
                     | Some (Inl u) \<Rightarrow> Some (Inl u)
                     | Some (Inr (obj_id, cache)) \<Rightarrow>
                         Some (Inr (Exit 0 (''obj_id='' @ obj_id @ nl @ ''prefixes='' @ nat_to_dec (PrefixCount cache) @ nl) []
                           (w\<lparr>cw_client := storage cache\<rparr>))))))"

definition cmd_lookup ::
  "(string \<Rightarrow> 64 word) \<Rightarrow> string list \<Rightarrow> 'n client PrefixMap \<Rightarrow> 'n cli_world \<Rightarrow> (ub + 'n main_result) option" where
  "cmd_lookup hash argv cache w =
     (let token_arg = get_arg argv ''--tokens'' in
      if token_arg = [] then Some (Inr (Exit 1 [] (usage (hd argv)) w))
      else
        case num_arg stoi argv ''--max-len'' 0 of
          None \<Rightarrow> Some (Inr Uncaught)
        | Some max_len \<Rightarrow>
            (case Lookup hash cache (SplitTokens token_arg) max_len of
               None \<Rightarrow> None
             | Some (Inl u) \<Rightarrow> Some (Inl u)
             | Some (Inr res) \<Rightarrow>
                 if \<not> lr_hit res then Some (Inr (Exit 0 (''hit=false'' @ nl) [] w))
                 else Some (Inr (Exit 0 (''hit=true'' @ nl @ ''obj_id='' @ lr_obj_id res @ nl
                   @ ''usable_len_bytes='' @ to_string (lr_usable_len_bytes res) @ nl
                   @ ''prefix_tokens='' @ to_string (lr_prefix_tokens res) @ nl) [] w))))"

definition cmd_load ::
  "'n libcurl \<Rightarrow> S3Config \<Rightarrow> string list \<Rightarrow> 'n client PrefixMap \<Rightarrow> 'n cli_world \<Rightarrow> (ub + 'n main_result) option" where
  "cmd_load lib cfg argv cache w =
     (let obj_id = get_arg argv ''--obj-id''; out_file = get_arg argv ''--out-file'' in
      if obj_id = [] then Some (Inr (Exit 1 [] (usage (hd argv)) w))
      else
        case num_arg stoi argv ''--usable-len'' 0 of
          None \<Rightarrow> Some (Inr Uncaught)
        | Some usable_len \<Rightarrow>
            (case Load (S3Storage lib cfg) cache obj_id usable_len [] of
               Inl u \<Rightarrow> Some (Inl u)
             | Inr (loaded, data, cache) \<Rightarrow>
                 let w = w\<lparr>cw_client := storage cache\<rparr> in
                 if \<not> loaded then Some (Inr (Exit 1 [] (''Object not found'' @ nl) w))
                 else if out_file \<noteq> [] then
                   (let (wrote, w) = WriteFile out_file data w in
                    if \<not> wrote then Some (Inr (Exit 1 [] (''Failed to write output'' @ nl) w))
                    else Some (Inr (Exit 0 (''wrote='' @ out_file @ nl) [] w)))
                 else Some (Inr (Exit 0 data [] w))))"

definition cmd_stats :: "'n client PrefixMap \<Rightarrow> 'n cli_world \<Rightarrow> (ub + 'n main_result) option" where
  "cmd_stats cache w =
     Some (Inr (Exit 0 (''objects='' @ nat_to_dec (ObjectCount cache) @ nl @ ''prefixes='' @ nat_to_dec (PrefixCount cache) @ nl
       @ ''block_size='' @ to_string (BlockSize cache) @ nl) [] w))"

text \<open>From the construction of the cache on.\<close>

definition run_command ::
  "'n libcurl \<Rightarrow> (string \<Rightarrow> 64 word) \<Rightarrow> int \<Rightarrow> cli_options \<Rightarrow> string list \<Rightarrow> 'n cli_world \<Rightarrow> (ub + 'n main_result) option" where
  "run_command lib hash now opts argv w =
     (case new_PrefixMap (co_block_size opts) (co_bytes_per_token opts) (Some (cw_client w)) of
        Inl e \<Rightarrow> Some (Inr Uncaught)
      | Inr cache \<Rightarrow>
          let command = argv ! 1 in
          if command = ''store'' then cmd_store lib hash now (co_s3 opts) argv cache w
          else if command = ''lookup'' then cmd_lookup hash argv cache w
          else if command = ''load'' then cmd_load lib (co_s3 opts) argv cache w
          else if command = ''stats'' then cmd_stats cache w
          else Some (Inr (Exit 1 [] (usage (hd argv)) w)))"

definition index_main ::
  "'n libcurl \<Rightarrow> (string \<Rightarrow> 64 word) \<Rightarrow> int \<Rightarrow> string list \<Rightarrow> 'n cli_world \<Rightarrow> (ub + 'n main_result) option" where
  "index_main lib hash now argv w =
     (let w = new_process w in
      if length argv < 2 then Some (Inr (Exit 1 [] (usage (hd argv)) w))
      else
        case parse_options argv of
          None \<Rightarrow> Some (Inr Uncaught)
        | Some opts \<Rightarrow>
            if sc_endpoint (co_s3 opts) = []
            then Some (Inr (Exit 1 [] (''S3 endpoint is required (in-memory storage removed)'' @ nl @ usage (hd argv)) w))
            else if co_create_bucket opts then
              (case S3_CreateBucket lib (co_s3 opts) (cw_client w) of
                 Inl u \<Rightarrow> Some (Inl u)
               | Inr (created, c) \<Rightarrow>
                   let w = w\<lparr>cw_client := c\<rparr> in
                   if \<not> created then Some (Inr (Exit 1 [] (''Failed to create bucket'' @ nl) w))
                   else run_command lib hash now opts argv w)
            else run_command lib hash now opts argv w)"

section \<open>Lemmas\<close>

lemma SplitTokens_join:
  "list_all (\<lambda>t. t \<noteq> [] \<and> CHR '','' \<notin> set t) ts \<Longrightarrow> SplitTokens (join '','' ts) = ts"
proof (induction ts)
  case Nil
  then show ?case by (simp add: SplitTokens.simps)
next
  case (Cons t ts)
  show ?case
  proof (cases "ts = []")
    case True
    with Cons.prems show ?thesis by (subst SplitTokens.simps) simp
  next
    case False
    with Cons show ?thesis by (subst SplitTokens.simps) (simp add: join_Cons)
  qed
qed

definition fresh_cache :: "cli_options \<Rightarrow> 'n cli_world \<Rightarrow> 'n client PrefixMap" where
  "fresh_cache opts w =
     \<lparr>block_size = co_block_size opts, bytes_per_token = co_bytes_per_token opts, version_clock = 0,
      storage = cw_client w, prefix_map = [], obj_table = []\<rparr>"

text \<open>A call that gets as far as its command, without creating the bucket.\<close>

definition valid_call :: "string \<Rightarrow> cli_options \<Rightarrow> string list \<Rightarrow> bool" where
  "valid_call command opts argv \<longleftrightarrow> 2 \<le> length argv \<and> argv ! 1 = command \<and> parse_options argv = Some opts \<and>
     sc_endpoint (co_s3 opts) \<noteq> [] \<and> \<not> co_create_bucket opts"

lemma index_main_command:
  "valid_call command opts argv \<Longrightarrow> index_main lib hash now argv w = run_command lib hash now opts argv (new_process w)"
  by (auto simp: index_main_def valid_call_def Let_def)

lemma run_command_fresh:
  assumes "argv ! 1 = command"
  shows "command = ''store'' \<Longrightarrow> run_command lib hash now opts argv w = cmd_store lib hash now (co_s3 opts) argv (fresh_cache opts w) w"
    and "command = ''lookup'' \<Longrightarrow> run_command lib hash now opts argv w = cmd_lookup hash argv (fresh_cache opts w) w"
    and "command = ''load'' \<Longrightarrow> run_command lib hash now opts argv w = cmd_load lib (co_s3 opts) argv (fresh_cache opts w) w"
  using assms by (simp_all add: run_command_def new_PrefixMap_def fresh_cache_def)

lemma Lookup_empty:
  assumes "prefix_map pm = []" "0 < block_size pm" "int (length tokens) + block_size pm < 2 ^ 31"
  shows "Lookup hash pm tokens max_len = Some (Inr no_result)"
proof -
  have "block_entry hash pm tokens k = None" for k using assms(1) by (simp add: block_entry_def)
  then have "lookup_depth (block_entry hash pm tokens) n = 0" for n
    using lookup_depth_all [of 1 "block_entry hash pm tokens" n] by (cases "lookup_depth (block_entry hash pm tokens) n") auto
  then show ?thesis using Lookup_eq [OF assms(2,3), of hash max_len] by simp
qed

lemma cmd_store_put_failed:
  assumes "get_arg argv ''--tokens'' \<noteq> []" "get_arg argv ''--data-file'' \<noteq> []"
    and "num_arg stoi argv ''--priority'' 0 = Some p" "cw_files w (get_arg argv ''--data-file'') = Some d"
    and "S3_Put lib cfg (cw_client w) (HashBytesHex hash d) d = Inr (False, c)"
  shows "cmd_store lib hash now cfg argv (fresh_cache opts w) w =
    Some (Inr (Exit 0 (''obj_id='' @ nl @ ''prefixes=0'' @ nl) [] (w\<lparr>cw_client := c\<rparr>)))"
proof -
  have z: "nat_to_dec 0 = ''0''" by code_simp
  show ?thesis
    using assms by (simp add: cmd_store_def ReadFile_def Store_def fresh_cache_def S3Storage_def PrefixCount_def z Let_def)
qed

context s3_deployment
begin

lemma cmd_store_stores:
  assumes "co_s3 opts = cfg" "usable (cw_client w)" "get_arg argv ''--tokens'' \<noteq> []" "get_arg argv ''--data-file'' \<noteq> []"
    and "num_arg stoi argv ''--priority'' 0 = Some p" "cw_files w (get_arg argv ''--data-file'') = Some d"
    and "sizes_ok (co_block_size opts) (co_bytes_per_token opts) (SplitTokens (get_arg argv ''--tokens'')) d" "fits d"
  shows "\<exists>n c. cmd_store lib hash now cfg argv (fresh_cache opts w) w =
      Some (Inr (Exit 0 (''obj_id='' @ HashBytesHex hash d @ nl @ ''prefixes='' @ nat_to_dec n @ nl) [] (w\<lparr>cw_client := c\<rparr>))) \<and>
    usable c \<and> held c = (held (cw_client w))(HashBytesHex hash d \<mapsto> d)"
proof -
  let ?pm = "fresh_cache opts w" and ?ts = "SplitTokens (get_arg argv ''--tokens'')"
  have f: "storage ?pm = cw_client w" "sizes_ok (block_size ?pm) (bytes_per_token ?pm) ?ts d"
    using assms(7) by (simp_all add: fresh_cache_def)
  from f(1) assms(2) have g: "usable (storage ?pm)" by simp
  obtain s where s: "Store (S3Storage lib cfg) hash now ?pm ?ts d (get_arg argv ''--owner'') p False =
      Some (Inr (HashBytesHex hash d, stored_pm hash now ?pm ?ts d (get_arg argv ''--owner'') p s))"
    "usable s" "held s = (held (storage ?pm))(HashBytesHex hash d \<mapsto> d)"
    by (rule s3.store_succeeds [OF g f(2) HashBytesHex_safe assms(8)])
  then show ?thesis
    using assms(3-6) f(1) by (auto simp: cmd_store_def ReadFile_def)
qed

lemma cmd_load_loads:
  assumes "co_s3 opts = cfg" "usable (cw_client w)" "name_safe (get_arg argv ''--obj-id'')"
    and "held (cw_client w) (get_arg argv ''--obj-id'') = Some d" "num_arg stoi argv ''--usable-len'' 0 = Some n" "in_i32 n"
    and "0 < n \<longrightarrow> d \<noteq> []" "get_arg argv ''--out-file'' = f" "f \<noteq> []" "cw_disk w f = (\<lambda>data. Some (True, data))"
  shows "\<exists>w'. cmd_load lib cfg argv (fresh_cache opts w) w = Some (Inr (Exit 0 (''wrote='' @ f @ nl) [] w')) \<and>
    cw_files w' f = Some (if 0 < n then take (nat n) d else d)"
proof -
  have st: "storage (fresh_cache opts w) = cw_client w" by (simp add: fresh_cache_def)
  obtain c where c: "S3_GetRange lib cfg (cw_client w) (get_arg argv ''--obj-id'') n [] = Inr (True, if 0 < n then take (nat n) d else d, c)"
    using get_keeps_contract [OF assms(2-4,7,6)] by blast
  have "get_arg argv ''--obj-id'' \<noteq> []" using assms(3) by (simp add: name_safe_def)
  then show ?thesis
    using c assms(5,8-10) by (simp add: cmd_load_def Load_def st S3Storage_def WriteFile_def)
qed

end

section \<open>Properties\<close>

definition demo_argv :: "string list \<Rightarrow> string list" where
  "demo_argv cmd = ''prompt_cache_poc'' # cmd @ [''--s3-endpoint'', ''http://127.0.0.1:9000/'', ''--s3-bucket'', ''pc'']"

definition demo_opts :: cli_options where
  "demo_opts = \<lparr>co_block_size = 8, co_bytes_per_token = 0, co_create_bucket = False, co_s3 = demo_S3Config\<rparr>"

lemmas demo_call_defs = demo_argv_def valid_call_def parse_options_def num_arg_def get_arg_def has_flag_def
  demo_opts_def demo_S3Config_def default_S3Config_def

text \<open>
  C26: The command \<open>lookup\<close> never hits: the prefix map of the process is empty, so whatever earlier
  processes stored, a valid call prints \<open>hit=false\<close> and exits with 0, and the world is as it was.
\<close>

theorem cli_lookup_always_misses:
  assumes "valid_call ''lookup'' opts argv" "0 < co_block_size opts" "get_arg argv ''--tokens'' \<noteq> []"
    and "num_arg stoi argv ''--max-len'' 0 = Some max_len"
    and "int (length (SplitTokens (get_arg argv ''--tokens''))) + co_block_size opts < 2 ^ 31"
  shows "index_main lib hash now argv w = Some (Inr (Exit 0 (''hit=false'' @ nl) [] (new_process w)))"
proof -
  have c: "argv ! 1 = ''lookup''" using assms(1) by (simp add: valid_call_def)
  have "Lookup hash (fresh_cache opts (new_process w)) (SplitTokens (get_arg argv ''--tokens'')) max_len = Some (Inr no_result)"
    using assms(2,5) by (intro Lookup_empty) (simp_all add: fresh_cache_def)
  then show ?thesis
    unfolding index_main_command [OF assms(1)] run_command_fresh(2) [OF c refl]
    using assms(3,4) by (simp add: cmd_lookup_def no_result_def)
qed

theorem cli_lookup_always_misses_witness:
  "index_main (loopback demo_ssl mem_rocksdb demo_cfg ''http://127.0.0.1:9000'') demo_hash 0
       (demo_argv [''lookup'', ''--tokens'', ''A,B,C,D'']) \<lparr>cw_files = Map.empty, cw_disk = (\<lambda>_ data. Some (True, data)),
         cw_client = \<lparr>cl_handle = Not_created, cl_net = demo_gateway\<rparr>\<rparr> =
     Some (Inr (Exit 0 (''hit=false'' @ nl) [] \<lparr>cw_files = Map.empty, cw_disk = (\<lambda>_ data. Some (True, data)),
         cw_client = \<lparr>cl_handle = Not_created, cl_net = demo_gateway\<rparr>\<rparr>))"
proof -
  let ?argv = "demo_argv [''lookup'', ''--tokens'', ''A,B,C,D'']"
  have v: "valid_call ''lookup'' demo_opts ?argv" by (simp add: demo_call_defs)
  have t: "get_arg ?argv ''--tokens'' = ''A,B,C,D''" "num_arg stoi ?argv ''--max-len'' 0 = Some 0"
    by (simp_all add: demo_argv_def get_arg_def num_arg_def)
  have "''A,B,C,D'' = join '','' [''A'', ''B'', ''C'', ''D'']" by (simp add: join_Cons)
  then have "SplitTokens ''A,B,C,D'' = [''A'', ''B'', ''C'', ''D'']"
    using SplitTokens_join [of "[''A'', ''B'', ''C'', ''D'']"] by simp
  with t(1) show ?thesis
    by (subst cli_lookup_always_misses [OF v _ _ t(2)]) (simp_all add: demo_opts_def new_process_def)
qed

end
