(* ===== verification/Stress.thy ===== *)
theory Stress
  imports IndexCli "HOL-Library.Monad_Syntax" "HOL-Library.Signed_Division"
begin

text \<open>
  The index layer's end-to-end stress tool (\<open>index_layer/tools/stress_e2e.cpp\<close>): it fills a bucket
  through the prefix map, lets worker threads look up and load random prompts until a deadline, and
  reports counters, percentiles and the gateway's own metrics.

  \<open>stress_start\<close> is \<open>main\<close> up to the start of the threads, \<open>stress_step\<close> one round of the loop of any
  thread, and \<open>stress_report\<close> what is printed after the threads are joined; \<open>stress_main\<close> composes
  them.  A round is one step: the prefix map is only read, the one request of a round goes to the
  network that all threads share, and the counters are atomic.  The random numbers and the clock
  are arguments of the steps; \<open>thread_local\<close> handles belong to the workers.

  The lemmas show that a run against a gateway that works counts no error, whatever the hash
  function does, and that the percentiles are values of the sample, in order.
\<close>

section \<open>Doubles\<close>

text \<open>The values of a \<open>double\<close>, where the code can meet those that are not rational numbers.\<close>

datatype dbl = Finite rat | Neg_zero | Pos_inf | Neg_inf | Not_a_number

text \<open>\<open>u < d\<close> for a finite \<open>u\<close>.\<close>

fun dbl_greater :: "dbl \<Rightarrow> rat \<Rightarrow> bool" where
  "dbl_greater (Finite d) u \<longleftrightarrow> u < d"
| "dbl_greater Neg_zero u \<longleftrightarrow> u < 0"
| "dbl_greater Pos_inf u \<longleftrightarrow> True"
| "dbl_greater Neg_inf u \<longleftrightarrow> False"
| "dbl_greater Not_a_number u \<longleftrightarrow> False"

text \<open>The quotient of a number that is not negative by an integer.\<close>

definition dbl_div :: "rat \<Rightarrow> int \<Rightarrow> dbl" where
  "dbl_div a s =
     (if s = 0 then (if a = 0 then Not_a_number else Pos_inf)
      else if s < 0 \<and> a = 0 then Neg_zero
      else Finite (fl (a / of_int s)))"

text \<open>\<open>operator<<\<close>; the sign printed for a NaN is the one of the x86 division.\<close>

fun show_dbl :: "dbl \<Rightarrow> string" where
  "show_dbl (Finite x) = (if x < 0 then ''-'' @ show_double (- x) else show_double x)"
| "show_dbl Neg_zero = ''-0''"
| "show_dbl Pos_inf = ''inf''"
| "show_dbl Neg_inf = ''-inf''"
| "show_dbl Not_a_number = ''-nan''"

definition xdigit_value :: "char \<Rightarrow> nat option" where
  "xdigit_value c =
     (let n = (of_char c :: nat) in
      if 48 \<le> n \<and> n \<le> 57 then Some (n - 48)
      else if 97 \<le> n \<and> n \<le> 102 then Some (n - 87)
      else if 65 \<le> n \<and> n \<le> 70 then Some (n - 55)
      else None)"

definition is_digit_of :: "nat \<Rightarrow> char \<Rightarrow> bool" where
  "is_digit_of b c \<longleftrightarrow> (case xdigit_value c of Some v \<Rightarrow> v < b | None \<Rightarrow> False)"

definition digits_value :: "nat \<Rightarrow> string \<Rightarrow> nat" where
  "digits_value b ds = fold (\<lambda>c acc. acc * b + the (xdigit_value c)) ds 0"

definition strtod_exponent :: "char list \<Rightarrow> string \<Rightarrow> int" where
  "strtod_exponent marks s =
     (case s of
        [] \<Rightarrow> 0
      | c # r \<Rightarrow>
          if c \<notin> set marks then 0
          else
            let neg = (r \<noteq> [] \<and> hd r = CHR ''-'');
                r = (if r \<noteq> [] \<and> (hd r = CHR ''-'' \<or> hd r = CHR ''+'') then tl r else r);
                e = int (dec_value (takeWhile isdigit r))
            in if neg then - e else e)"

text \<open>The digits, the point and the exponent of a number in base 10 or 16.\<close>

definition strtod_digits :: "nat \<Rightarrow> string \<Rightarrow> rat option" where
  "strtod_digits b s =
     (let i = takeWhile (is_digit_of b) s;
          r = drop (length i) s;
          f = (if r \<noteq> [] \<and> hd r = CHR ''.'' then takeWhile (is_digit_of b) (tl r) else []);
          r = (if r \<noteq> [] \<and> hd r = CHR ''.'' then drop (length f) (tl r) else r)
      in if i = [] \<and> f = [] then None
         else Some (of_nat (digits_value b (i @ f)) / of_nat b ^ length f
                * (if b = 16 then 2 powi strtod_exponent ''pP'' r else 10 powi strtod_exponent ''eE'' r)))"

definition strtod_magnitude :: "string \<Rightarrow> rat option" where
  "strtod_magnitude s =
     (case (if 2 \<le> length s \<and> hd s = CHR ''0'' \<and> s ! 1 \<in> set ''xX'' then strtod_digits 16 (drop 2 s) else None) of
        Some m \<Rightarrow> Some m
      | None \<Rightarrow> strtod_digits 10 s)"

definition starts_with_ci :: "string \<Rightarrow> string \<Rightarrow> bool" where
  "starts_with_ci p s \<longleftrightarrow> length p \<le> length s \<and> list_all2 (\<lambda>a b. of_char b = (of_char a :: nat) \<or> of_char b + 32 = (of_char a :: nat)) p (take (length p) s)"

text \<open>\<open>std::stod\<close>: \<open>None\<close> is an exception, also for a magnitude above or below the normal range.\<close>

definition stod :: "string \<Rightarrow> dbl option" where
  "stod s =
     (let t = dropWhile isspace s;
          neg = (t \<noteq> [] \<and> hd t = CHR ''-'');
          u = (if t \<noteq> [] \<and> (hd t = CHR ''-'' \<or> hd t = CHR ''+'') then tl t else t)
      in if starts_with_ci ''inf'' u then Some (if neg then Neg_inf else Pos_inf)
         else if starts_with_ci ''nan'' u then Some Not_a_number
         else
           case strtod_magnitude u of
             None \<Rightarrow> None
           | Some m \<Rightarrow>
               if m = 0 then Some (if neg then Neg_zero else Finite 0)
               else if fl m \<ge> 2 ^ 1024 \<or> (m < 2 powi - 1022 \<and> snd (quotient_of (m * 2 ^ 1074)) \<noteq> 1) then None
               else Some (Finite (if neg then - fl m else fl m)))"

definition stoul :: "string \<Rightarrow> 64 word option" where
  "stoul s = (case sto_value s of None \<Rightarrow> None | Some v \<Rightarrow> if \<bar>v\<bar> < 2 ^ 64 then Some (word_of_int v) else None)"

section \<open>Configuration\<close>

record StressConfig =
  tc_endpoint :: string
  tc_bucket :: string
  tc_create_bucket :: bool
  tc_objects :: int
  tc_prompt_len :: int
  tc_block_size :: int
  tc_object_bytes :: int
  tc_bytes_per_token :: int
  tc_max_len_tokens :: int
  tc_threads :: int
  tc_duration_sec :: int
  tc_hotset_size :: int
  tc_hotset_traffic :: dbl
  tc_timeout_ms :: int
  tc_connect_timeout_ms :: int
  tc_insecure :: bool
  tc_seed :: "32 word"

definition default_StressConfig :: StressConfig where
  "default_StressConfig =
     \<lparr>tc_endpoint = [], tc_bucket = ''prompt-cache'', tc_create_bucket = False, tc_objects = 100, tc_prompt_len = 64,
      tc_block_size = 8, tc_object_bytes = 65536, tc_bytes_per_token = 0, tc_max_len_tokens = 0, tc_threads = 4,
      tc_duration_sec = 30, tc_hotset_size = 0, tc_hotset_traffic = Finite (fl (9 / 10)), tc_timeout_ms = 5000,
      tc_connect_timeout_ms = 2000, tc_insecure = False, tc_seed = 1\<rparr>"

record StressMetrics =
  tm_requests :: "64 word"
  tm_errors :: "64 word"
  tm_bytes_read :: "64 word"

definition new_StressMetrics :: StressMetrics where
  "new_StressMetrics = \<lparr>tm_requests = 0, tm_errors = 0, tm_bytes_read = 0\<rparr>"

definition Usage :: "string \<Rightarrow> string" where
  "Usage prog = concat (map (\<lambda>l. l @ nl)
     [''Usage: '' @ prog @ '' --endpoint <url> [options]'',
      ''Options:'',
      ''  --bucket name'',
      ''  --create-bucket'',
      ''  --objects n'',
      ''  --prompt-len n'',
      ''  --block-size n'',
      ''  --object-bytes n'',
      ''  --bytes-per-token n (default 0 = auto)'',
      ''  --max-len-tokens n (default 0 = full)'',
      ''  --threads n'',
      ''  --duration n (seconds)'',
      ''  --hotset-size n (0 = uniform)'',
      ''  --hotset-traffic f (0..1)'',
      ''  --timeout-ms n'',
      ''  --connect-timeout-ms n'',
      ''  --insecure'',
      ''  --skip-prefill (do not PUT objects; assumes storage already populated)'',
      ''  --prometheus (emit Prometheus text to stdout)'',
      ''  --seed n''])"

fun read_arg_loop :: "string \<Rightarrow> string list \<Rightarrow> string option" where
  "read_arg_loop key (a # b # rest) = (if a = key then Some b else read_arg_loop key (b # rest))"
| "read_arg_loop key _ = None"

definition ReadArg :: "string list \<Rightarrow> string \<Rightarrow> string option" where
  "ReadArg argv key = read_arg_loop key (tl argv)"

definition HasFlag :: "string list \<Rightarrow> string \<Rightarrow> bool" where
  "HasFlag argv key \<longleftrightarrow> key \<in> set (tl argv)"

definition opt_arg :: "(string \<Rightarrow> 'a option) \<Rightarrow> string list \<Rightarrow> string \<Rightarrow> 'a \<Rightarrow> 'a option" where
  "opt_arg sto argv key dflt = (case ReadArg argv key of None \<Rightarrow> Some dflt | Some v \<Rightarrow> sto v)"

text \<open>\<open>cfg.bytes_per_token == 0\<close>: an object is spread over the tokens of its prompt.\<close>

definition auto_bytes_per_token :: "StressConfig \<Rightarrow> StressConfig" where
  "auto_bytes_per_token cfg =
     (if tc_bytes_per_token cfg = 0 \<and> tc_prompt_len cfg > 0
      then cfg\<lparr>tc_bytes_per_token := max 1 (tc_object_bytes cfg sdiv tc_prompt_len cfg)\<rparr> else cfg)"

definition parse_stress :: "string list \<Rightarrow> string \<Rightarrow> StressConfig option" where
  "parse_stress argv endpoint = (let d = default_StressConfig in do {
     bkt \<leftarrow> opt_arg Some argv ''--bucket'' (tc_bucket d);
     objects \<leftarrow> opt_arg stoi argv ''--objects'' (tc_objects d);
     prompt_len \<leftarrow> opt_arg stoi argv ''--prompt-len'' (tc_prompt_len d);
     blk \<leftarrow> opt_arg stoi argv ''--block-size'' (tc_block_size d);
     object_bytes \<leftarrow> opt_arg stoi argv ''--object-bytes'' (tc_object_bytes d);
     bpt \<leftarrow> opt_arg stoi argv ''--bytes-per-token'' (tc_bytes_per_token d);
     max_len \<leftarrow> opt_arg stoi argv ''--max-len-tokens'' (tc_max_len_tokens d);
     threads \<leftarrow> opt_arg stoi argv ''--threads'' (tc_threads d);
     duration \<leftarrow> opt_arg stoi argv ''--duration'' (tc_duration_sec d);
     hotset \<leftarrow> opt_arg stoi argv ''--hotset-size'' (tc_hotset_size d);
     traffic \<leftarrow> opt_arg stod argv ''--hotset-traffic'' (tc_hotset_traffic d);
     timeout \<leftarrow> opt_arg stoll argv ''--timeout-ms'' (tc_timeout_ms d);
     connect \<leftarrow> opt_arg stoll argv ''--connect-timeout-ms'' (tc_connect_timeout_ms d);
     seed \<leftarrow> opt_arg (\<lambda>s. map_option ucast (stoul s)) argv ''--seed'' (tc_seed d);
     Some (auto_bytes_per_token
       \<lparr>tc_endpoint = endpoint, tc_bucket = bkt, tc_create_bucket = HasFlag argv ''--create-bucket'', tc_objects = objects,
        tc_prompt_len = prompt_len, tc_block_size = blk, tc_object_bytes = object_bytes, tc_bytes_per_token = bpt,
        tc_max_len_tokens = max_len, tc_threads = threads, tc_duration_sec = duration, tc_hotset_size = hotset,
        tc_hotset_traffic = traffic, tc_timeout_ms = timeout, tc_connect_timeout_ms = connect,
        tc_insecure = HasFlag argv ''--insecure'', tc_seed = seed\<rparr>)
   })"

definition stress_s3cfg :: "StressConfig \<Rightarrow> S3Config" where
  "stress_s3cfg cfg =
     \<lparr>sc_endpoint = tc_endpoint cfg, sc_bucket = tc_bucket cfg, sc_timeout_ms = tc_timeout_ms cfg,
      sc_connect_timeout_ms = tc_connect_timeout_ms cfg, sc_verify_tls = \<not> tc_insecure cfg\<rparr>"


section \<open>The prefill\<close>

text \<open>Not returning, undefined behaviour, an exception that nothing catches, or a result.\<close>

datatype 'a outcome = Diverges | Undefined ub | Throws | Done 'a

definition stress_tokens :: "int \<Rightarrow> int \<Rightarrow> string list" where
  "stress_tokens prompt_len i = map (\<lambda>t. ''tok'' @ to_string i @ ''_'' @ to_string (int t)) [0..<nat prompt_len]"

text \<open>What the loop changes: the cache, the prompts, the output and how many random bytes it has drawn.\<close>

record 'n prefill =
  pf_cache :: "'n client PrefixMap"
  pf_prompts :: "string list list"
  pf_out :: string
  pf_drawn :: nat

text \<open>\<open>rnd k\<close> is the \<open>k\<close>-th byte of the generator; a negative count is a huge \<open>size_t\<close>, which the containers refuse.\<close>

definition prefill_object ::
  "'n libcurl \<Rightarrow> (string \<Rightarrow> 64 word) \<Rightarrow> (int \<Rightarrow> int) \<Rightarrow> (nat \<Rightarrow> char) \<Rightarrow> StressConfig \<Rightarrow> bool \<Rightarrow> int \<Rightarrow> 'n prefill \<Rightarrow> 'n prefill outcome" where
  "prefill_object lib hash now rnd cfg skip_prefill i pf =
     (if tc_prompt_len cfg < 0 \<or> tc_object_bytes cfg < 0 then Throws
      else
        let tokens = stress_tokens (tc_prompt_len cfg) i;
            n = nat (tc_object_bytes cfg);
            data = map rnd [pf_drawn pf..<pf_drawn pf + n];
            log_every = max 1 (tc_objects cfg sdiv 20)
        in case Store (S3Storage lib (stress_s3cfg cfg)) hash (now i) (pf_cache pf) tokens data ''stress'' 1 skip_prefill of
             None \<Rightarrow> Diverges
           | Some (Inl u) \<Rightarrow> Undefined u
           | Some (Inr (obj_id, cache)) \<Rightarrow>
               Done \<lparr>pf_cache = cache, pf_prompts = pf_prompts pf @ [tokens],
                     pf_out = pf_out pf @
                       (if \<not> skip_prefill \<and> ((i + 1) mod log_every = 0 \<or> i + 1 = tc_objects cfg)
                        then ''prefill '' @ to_string (i + 1) @ ''/'' @ to_string (tc_objects cfg) @ nl else []),
                     pf_drawn = pf_drawn pf + n\<rparr>)"

fun prefill_loop ::
  "'n libcurl \<Rightarrow> (string \<Rightarrow> 64 word) \<Rightarrow> (int \<Rightarrow> int) \<Rightarrow> (nat \<Rightarrow> char) \<Rightarrow> StressConfig \<Rightarrow> bool \<Rightarrow> int list \<Rightarrow> 'n prefill \<Rightarrow> 'n prefill outcome" where
  "prefill_loop lib hash now rnd cfg skip_prefill [] pf = Done pf"
| "prefill_loop lib hash now rnd cfg skip_prefill (i # is) pf =
     (case prefill_object lib hash now rnd cfg skip_prefill i pf of
        Done pf \<Rightarrow> prefill_loop lib hash now rnd cfg skip_prefill is pf
      | r \<Rightarrow> r)"

section \<open>The workers\<close>

record worker =
  wk_handle :: curl_handle
  wk_latencies :: "rat list"
  wk_running :: bool

record 'n stress =
  tr_net :: 'n
  tr_cache :: "'n client PrefixMap"
  tr_prompts :: "string list list"
  tr_metrics :: StressMetrics
  tr_workers :: "worker list"

definition new_worker :: worker where
  "new_worker = \<lparr>wk_handle = Not_created, wk_latencies = [], wk_running = True\<rparr>"

text \<open>The threads start; each sets up its distributions, which need a range that is not empty.\<close>

definition start_workers :: "StressConfig \<Rightarrow> 'n prefill \<Rightarrow> 'n stress outcome" where
  "start_workers cfg pf =
     (if tc_threads cfg < 0 then Throws
      else if tc_threads cfg > 0 \<and> tc_objects cfg - 1 < 0 then Undefined InvalidDistribution
      else if tc_threads cfg > 0 \<and> \<not> in_i32 (tc_hotset_size cfg - 1) then Undefined SignedOverflow
      else Done \<lparr>tr_net = cl_net (storage (pf_cache pf)), tr_cache = pf_cache pf, tr_prompts = pf_prompts pf,
                 tr_metrics = new_StressMetrics, tr_workers = replicate (nat (tc_threads cfg)) new_worker\<rparr>)"

text \<open>The range \<open>idx\<close> is drawn from; \<open>u\<close> is the number \<open>pick\<close> draws.\<close>

definition idx_range :: "StressConfig \<Rightarrow> rat \<Rightarrow> int \<times> int" where
  "idx_range cfg u =
     (if tc_hotset_size cfg > 0 \<and> dbl_greater (tc_hotset_traffic cfg) u
      then (0, max 0 (tc_hotset_size cfg - 1)) else (0, tc_objects cfg - 1))"

definition count_request :: "bool \<Rightarrow> bytes \<Rightarrow> StressMetrics \<Rightarrow> StressMetrics" where
  "count_request loaded out m =
     (let m = m\<lparr>tm_requests := tm_requests m + 1\<rparr> in
      if \<not> loaded then m\<lparr>tm_errors := tm_errors m + 1\<rparr>
      else m\<lparr>tm_bytes_read := tm_bytes_read m + of_nat (length out)\<rparr>)"

text \<open>One round of worker \<open>j\<close>, from the index it drew and the two readings of the clock.\<close>

definition worker_round ::
  "'n libcurl \<Rightarrow> (string \<Rightarrow> 64 word) \<Rightarrow> StressConfig \<Rightarrow> nat \<Rightarrow> int \<Rightarrow> int \<Rightarrow> int \<Rightarrow> 'n stress \<Rightarrow> 'n stress outcome" where
  "worker_round lib hash cfg j idx start stop st =
     (if \<not> nat idx < length (tr_prompts st) then Undefined IndexOutOfRange
      else
        let tokens = tr_prompts st ! nat idx;
            w = tr_workers st ! j;
            cache = (tr_cache st)\<lparr>storage := \<lparr>cl_handle = wk_handle w, cl_net = tr_net st\<rparr>\<rparr>
        in case Lookup hash cache tokens (tc_max_len_tokens cfg) of
             None \<Rightarrow> Diverges
           | Some (Inl u) \<Rightarrow> Undefined u
           | Some (Inr res) \<Rightarrow>
               (case (if lr_hit res
                      then Load (S3Storage lib (stress_s3cfg cfg)) cache (lr_obj_id res) (lr_usable_len_bytes res) []
                      else Inr (False, [], cache)) of
                  Inl u \<Rightarrow> Undefined u
                | Inr (loaded, out, cache) \<Rightarrow>
                    Done (st\<lparr>tr_net := cl_net (storage cache),
                            tr_metrics := count_request loaded out (tr_metrics st),
                            tr_workers := (tr_workers st)[j := w\<lparr>wk_handle := cl_handle (storage cache),
                              wk_latencies := wk_latencies w @ [duration_ms start stop]\<rparr>]\<rparr>)))"

inductive stress_step ::
  "'n libcurl \<Rightarrow> (string \<Rightarrow> 64 word) \<Rightarrow> StressConfig \<Rightarrow> int \<Rightarrow> 'n stress \<Rightarrow> 'n stress outcome \<Rightarrow> bool"
  for lib hash cfg deadline where
  stress_round:
    "j < length (tr_workers st) \<Longrightarrow> wk_running (tr_workers st ! j) \<Longrightarrow> now < deadline \<Longrightarrow> now \<le> start \<Longrightarrow> start \<le> stop \<Longrightarrow>
     0 \<le> u \<Longrightarrow> u < 1 \<Longrightarrow> idx_range cfg u = (lo, hi) \<Longrightarrow> lo \<le> idx \<Longrightarrow> idx \<le> hi \<Longrightarrow>
     stress_step lib hash cfg deadline st (worker_round lib hash cfg j idx start stop st)"
| stress_finish:
    "j < length (tr_workers st) \<Longrightarrow> wk_running (tr_workers st ! j) \<Longrightarrow> deadline \<le> now \<Longrightarrow>
     stress_step lib hash cfg deadline st
       (Done (st\<lparr>tr_workers := (tr_workers st)[j := (tr_workers st ! j)\<lparr>wk_running := False\<rparr>]\<rparr>))"

inductive stress_run ::
  "'n libcurl \<Rightarrow> (string \<Rightarrow> 64 word) \<Rightarrow> StressConfig \<Rightarrow> int \<Rightarrow> 'n stress \<Rightarrow> 'n stress outcome \<Rightarrow> bool"
  for lib hash cfg deadline st0 where
  stress_run_start: "stress_run lib hash cfg deadline st0 (Done st0)"
| stress_run_step: "stress_run lib hash cfg deadline st0 (Done st) \<Longrightarrow> stress_step lib hash cfg deadline st r \<Longrightarrow>
    stress_run lib hash cfg deadline st0 r"

definition joined :: "'n stress \<Rightarrow> bool" where
  "joined st \<longleftrightarrow> list_all (\<lambda>w. \<not> wk_running w) (tr_workers st)"

section \<open>The report\<close>

text \<open>The vector is sorted in place, so it is returned with the value.\<close>

definition Percentile :: "rat list \<Rightarrow> rat \<Rightarrow> ub + (rat \<times> rat list)" where
  "Percentile values pct =
     (if values = [] then Inr (0, values)
      else
        let values = sort values;
            idx = trunc (fl (fl (pct / 100) * fl (of_nat (length values - 1))))
        in if 0 \<le> idx \<and> nat idx < length values then Inr (values ! nat idx, values) else Inl IndexOutOfRange)"

definition all_latencies :: "'n stress \<Rightarrow> rat list" where
  "all_latencies st = concat (map wk_latencies (tr_workers st))"

definition stress_qps :: "StressConfig \<Rightarrow> StressMetrics \<Rightarrow> dbl" where
  "stress_qps cfg m = dbl_div (fl (of_nat (unat (tm_requests m)))) (tc_duration_sec cfg)"

definition stress_mbps :: "StressConfig \<Rightarrow> StressMetrics \<Rightarrow> dbl" where
  "stress_mbps cfg m = dbl_div (fl (fl (of_nat (unat (tm_bytes_read m))) / (1024 * 1024))) (tc_duration_sec cfg)"

definition stress_lines :: "bool \<Rightarrow> StressConfig \<Rightarrow> StressMetrics \<Rightarrow> rat \<Rightarrow> rat \<Rightarrow> rat \<Rightarrow> string list" where
  "stress_lines prometheus cfg m p50 p95 p99 =
     (if prometheus then
        [''# HELP index_layer_stress_requests_total Total requests.'',
         ''# TYPE index_layer_stress_requests_total counter'',
         ''index_layer_stress_requests_total '' @ nat_to_dec (unat (tm_requests m)),
         ''# HELP index_layer_stress_errors_total Total failed requests.'',
         ''# TYPE index_layer_stress_errors_total counter'',
         ''index_layer_stress_errors_total '' @ nat_to_dec (unat (tm_errors m)),
         ''# HELP index_layer_stress_bytes_read_total Total bytes read.'',
         ''# TYPE index_layer_stress_bytes_read_total counter'',
         ''index_layer_stress_bytes_read_total '' @ nat_to_dec (unat (tm_bytes_read m)),
         ''# HELP index_layer_stress_qps Requests per second.'',
         ''# TYPE index_layer_stress_qps gauge'',
         ''index_layer_stress_qps '' @ show_dbl (stress_qps cfg m),
         ''# HELP index_layer_stress_throughput_mb_s Throughput in MiB/s.'',
         ''# TYPE index_layer_stress_throughput_mb_s gauge'',
         ''index_layer_stress_throughput_mb_s '' @ show_dbl (stress_mbps cfg m),
         ''# HELP index_layer_stress_latency_ms Latency percentiles.'',
         ''# TYPE index_layer_stress_latency_ms gauge'',
         ''index_layer_stress_latency_ms{quantile=\"0.50\"} '' @ show_double p50,
         ''index_layer_stress_latency_ms{quantile=\"0.95\"} '' @ show_double p95,
         ''index_layer_stress_latency_ms{quantile=\"0.99\"} '' @ show_double p99]
      else
        [''requests '' @ nat_to_dec (unat (tm_requests m)),
         ''errors '' @ nat_to_dec (unat (tm_errors m)),
         ''qps '' @ show_dbl (stress_qps cfg m),
         ''throughput_mb_s '' @ show_dbl (stress_mbps cfg m),
         ''p50_ms '' @ show_double p50,
         ''p95_ms '' @ show_double p95,
         ''p99_ms '' @ show_double p99])"

text \<open>The write function appends the whole piece; \<open>strerror\<close> is libcurl's table of messages.\<close>

definition CurlWriteToString :: "bytes \<Rightarrow> nat \<Rightarrow> nat \<Rightarrow> string \<Rightarrow> nat \<times> string" where
  "CurlWriteToString ptr sz nmemb out =
     (let total = (sz * nmemb) mod 2 ^ 64 in (total, out @ take total ptr))"

definition FetchGatewayMetrics ::
  "'n libcurl \<Rightarrow> (nat \<Rightarrow> string) \<Rightarrow> StressConfig \<Rightarrow> 'n \<Rightarrow> (string + string) \<times> 'n" where
  "FetchGatewayMetrics lib strerror cfg net =
     (let url = tc_endpoint cfg;
          url = (if url \<noteq> [] \<and> last url = CHR ''/'' then butlast url else url);
          url = url @ ''/metrics''
      in if \<not> curl_easy_init lib net then (Inl ''curl_easy_init failed'', net)
         else
           let (res, net) = curl_easy_perform lib net
                 \<lparr>cq_url = url, cq_method = ''GET'', cq_headers = [], cq_timeout_ms = tc_timeout_ms cfg,
                  cq_connect_timeout_ms = tc_connect_timeout_ms cfg, cq_verify_tls = \<not> tc_insecure cfg,
                  cq_postfields = None, cq_writes = True\<rparr>;
               out = fold (\<lambda>p out. snd (CurlWriteToString p 1 (length p) out)) (cr_pieces res) []
           in if cr_code res \<noteq> 0 then (Inl (strerror (cr_code res)), net)
              else if cr_status res \<noteq> 200 then (Inl (''HTTP '' @ to_string (cr_status res)), net)
              else (Inr out, net))"

definition gateway_section :: "bool \<Rightarrow> string + string \<Rightarrow> string" where
  "gateway_section prometheus fetched =
     (let mark = (if prometheus then ''# '' else []) in
      case fetched of
        Inr gw_metrics \<Rightarrow>
          mark @ ''gateway_metrics_begin'' @ nl @ gw_metrics
            @ (if gw_metrics \<noteq> [] \<and> last gw_metrics \<noteq> CHR 0x0A then nl else [])
            @ mark @ ''gateway_metrics_end'' @ nl
      | Inl gw_err \<Rightarrow> mark @ ''gateway_metrics_error '' @ gw_err @ nl)"

definition stress_report ::
  "'n libcurl \<Rightarrow> (nat \<Rightarrow> string) \<Rightarrow> bool \<Rightarrow> StressConfig \<Rightarrow> 'n stress \<Rightarrow> ub + string" where
  "stress_report lib strerror prometheus cfg st =
     (case Percentile (all_latencies st) 50 of
        Inl u \<Rightarrow> Inl u
      | Inr (p50, lat) \<Rightarrow>
     (case Percentile lat 95 of
        Inl u \<Rightarrow> Inl u
      | Inr (p95, lat) \<Rightarrow>
     (case Percentile lat 99 of
        Inl u \<Rightarrow> Inl u
      | Inr (p99, lat) \<Rightarrow>
          Inr (concat (map (\<lambda>l. l @ nl) (stress_lines prometheus cfg (tr_metrics st) p50 p95 p99))
            @ gateway_section prometheus (fst (FetchGatewayMetrics lib strerror cfg (tr_net st)))))))"


section \<open>The program\<close>

text \<open>The prefill and the start of the threads; \<open>t1\<close> and \<open>t2\<close> are \<open>prefill_start\<close> and \<open>prefill_end\<close>.\<close>

definition stress_prefill ::
  "'n libcurl \<Rightarrow> (string \<Rightarrow> 64 word) \<Rightarrow> (int \<Rightarrow> int) \<Rightarrow> (nat \<Rightarrow> char) \<Rightarrow> int \<Rightarrow> int \<Rightarrow> StressConfig \<Rightarrow> bool \<Rightarrow> 'n client \<Rightarrow>
   ('n stress \<times> string) outcome" where
  "stress_prefill lib hash now rnd t1 t2 cfg skip_prefill c =
     (case new_PrefixMap (tc_block_size cfg) (tc_bytes_per_token cfg) (Some c) of
        Inl e \<Rightarrow> Throws
      | Inr cache \<Rightarrow>
          if tc_objects cfg < 0 then Throws
          else
            case prefill_loop lib hash now rnd cfg skip_prefill (map int [0..<nat (tc_objects cfg)])
                   \<lparr>pf_cache = cache, pf_prompts = [], pf_out = [], pf_drawn = 0\<rparr> of
              Diverges \<Rightarrow> Diverges
            | Undefined u \<Rightarrow> Undefined u
            | Throws \<Rightarrow> Throws
            | Done pf \<Rightarrow>
                (case start_workers cfg pf of
                   Diverges \<Rightarrow> Diverges
                 | Undefined u \<Rightarrow> Undefined u
                 | Throws \<Rightarrow> Throws
                 | Done st \<Rightarrow>
                     Done (st, pf_out pf @ (if \<not> skip_prefill then ''prefill_ms '' @ show_double (duration_ms t1 t2) @ nl else []))))"

text \<open>\<open>main\<close> up to there: an exit code with the standard streams, or what the rest works on.\<close>

definition stress_start ::
  "'n libcurl \<Rightarrow> (string \<Rightarrow> 64 word) \<Rightarrow> (int \<Rightarrow> int) \<Rightarrow> (nat \<Rightarrow> char) \<Rightarrow> int \<Rightarrow> int \<Rightarrow> string list \<Rightarrow> 'n \<Rightarrow>
   (int \<times> string \<times> string + StressConfig \<times> 'n stress \<times> string) outcome" where
  "stress_start lib hash now rnd t1 t2 argv net =
     (case ReadArg argv ''--endpoint'' of
        None \<Rightarrow> Done (Inl (1, [], Usage (hd argv)))
      | Some endpoint \<Rightarrow>
     (case parse_stress argv endpoint of
        None \<Rightarrow> Throws
      | Some cfg \<Rightarrow>
     (case (if tc_create_bucket cfg then S3_CreateBucket lib (stress_s3cfg cfg) \<lparr>cl_handle = Not_created, cl_net = net\<rparr>
            else Inr (True, \<lparr>cl_handle = Not_created, cl_net = net\<rparr>)) of
        Inl u \<Rightarrow> Undefined u
      | Inr (created, c) \<Rightarrow>
          if \<not> created then Done (Inl (1, [], ''Failed to create bucket'' @ nl))
          else
            case stress_prefill lib hash now rnd t1 t2 cfg (HasFlag argv ''--skip-prefill'') c of
              Diverges \<Rightarrow> Diverges
            | Undefined u \<Rightarrow> Undefined u
            | Throws \<Rightarrow> Throws
            | Done (st, out) \<Rightarrow> Done (Inr (cfg, st, out)))))"

text \<open>
  The whole program, with what it may end with: the exit code and the standard streams.  The
  arguments are the parameters of \<open>stress_start\<close>; the deadline is \<open>duration_sec\<close> after \<open>t3\<close>.
\<close>

inductive stress_main ::
  "'n libcurl \<Rightarrow> (string \<Rightarrow> 64 word) \<Rightarrow> (nat \<Rightarrow> string) \<Rightarrow> (int \<Rightarrow> int) \<Rightarrow> (nat \<Rightarrow> char) \<Rightarrow> int \<Rightarrow> int \<Rightarrow> int \<Rightarrow> string list \<Rightarrow> 'n \<Rightarrow>
   (int \<times> string \<times> string) outcome \<Rightarrow> bool"
  for lib hash strerror now rnd t1 t2 t3 argv net where
  main_exit:
    "stress_start lib hash now rnd t1 t2 argv net = Done (Inl r) \<Longrightarrow>
     stress_main lib hash strerror now rnd t1 t2 t3 argv net (Done r)"
| main_diverges:
    "stress_start lib hash now rnd t1 t2 argv net = Diverges \<Longrightarrow>
     stress_main lib hash strerror now rnd t1 t2 t3 argv net Diverges"
| main_undefined:
    "stress_start lib hash now rnd t1 t2 argv net = Undefined u \<Longrightarrow>
     stress_main lib hash strerror now rnd t1 t2 t3 argv net (Undefined u)"
| main_throws:
    "stress_start lib hash now rnd t1 t2 argv net = Throws \<Longrightarrow>
     stress_main lib hash strerror now rnd t1 t2 t3 argv net Throws"
| main_worker_undefined:
    "stress_start lib hash now rnd t1 t2 argv net = Done (Inr (cfg, st, out)) \<Longrightarrow>
     stress_run lib hash cfg (t3 + tc_duration_sec cfg * 1000000000) st (Undefined u) \<Longrightarrow>
     stress_main lib hash strerror now rnd t1 t2 t3 argv net (Undefined u)"
| main_worker_diverges:
    "stress_start lib hash now rnd t1 t2 argv net = Done (Inr (cfg, st, out)) \<Longrightarrow>
     stress_run lib hash cfg (t3 + tc_duration_sec cfg * 1000000000) st Diverges \<Longrightarrow>
     stress_main lib hash strerror now rnd t1 t2 t3 argv net Diverges"
| main_report:
    "stress_start lib hash now rnd t1 t2 argv net = Done (Inr (cfg, st, out)) \<Longrightarrow>
     stress_run lib hash cfg (t3 + tc_duration_sec cfg * 1000000000) st (Done st') \<Longrightarrow> joined st' \<Longrightarrow>
     stress_report lib strerror (HasFlag argv ''--prometheus'') cfg st' = Inr text \<Longrightarrow>
     stress_main lib hash strerror now rnd t1 t2 t3 argv net (Done (0, out @ text, []))"
| main_report_undefined:
    "stress_start lib hash now rnd t1 t2 argv net = Done (Inr (cfg, st, out)) \<Longrightarrow>
     stress_run lib hash cfg (t3 + tc_duration_sec cfg * 1000000000) st (Done st') \<Longrightarrow> joined st' \<Longrightarrow>
     stress_report lib strerror (HasFlag argv ''--prometheus'') cfg st' = Inl u \<Longrightarrow>
     stress_main lib hash strerror now rnd t1 t2 t3 argv net (Undefined u)"

section \<open>Lemmas: percentiles\<close>

text \<open>The position of a percentile, and that the rounding keeps it inside the vector.\<close>

definition pct_idx :: "nat \<Rightarrow> rat \<Rightarrow> int" where
  "pct_idx n pct = trunc (fl (fl (pct / 100) * fl (of_nat (n - 1))))"

lemma pct_fraction: "0 \<le> pct \<Longrightarrow> pct \<le> 100 \<Longrightarrow> 0 \<le> fl (pct / 100) \<and> fl (pct / 100) \<le> 1"
  using fl_nonneg [of "pct / 100"] fl_le_of_int [of "pct / 100" 1] by simp

lemma fl_of_nat: "n < 2 ^ 53 \<Longrightarrow> fl (of_nat n) = of_nat n"
  using fl_of_int [of "int n"] by simp

lemma pct_idx_bounds:
  assumes "0 \<le> pct" "pct \<le> 100" "0 < n" "n < 2 ^ 53"
  shows "0 \<le> pct_idx n pct" and "nat (pct_idx n pct) < n"
proof -
  let ?x = "fl (pct / 100) * of_nat (n - 1)"
  have f: "fl (of_nat (n - 1)) = (of_nat (n - 1) :: rat)" using assms(4) by (intro fl_of_nat) simp
  have x: "0 \<le> ?x" "?x \<le> of_int (int (n - 1))"
    using pct_fraction [OF assms(1,2)] by (simp_all add: mult_left_le_one_le)
  have "0 \<le> fl ?x" "fl ?x \<le> of_int (int (n - 1))"
    using fl_nonneg [OF x(1)] fl_le_of_int [OF x] assms(4) by simp_all
  then have "0 \<le> \<lfloor>fl ?x\<rfloor>" "\<lfloor>fl ?x\<rfloor> \<le> int (n - 1)" using floor_mono [of "fl ?x"] by fastforce+
  moreover have "pct_idx n pct = \<lfloor>fl ?x\<rfloor>"
    unfolding pct_idx_def f trunc_def by (rule if_P) (rule \<open>0 \<le> fl ?x\<close>)
  ultimately show "0 \<le> pct_idx n pct" "nat (pct_idx n pct) < n" using assms(3) by linarith+
qed

lemma pct_idx_mono:
  assumes "0 \<le> p" "p \<le> q" "q \<le> 100" "n < 2 ^ 53"
  shows "pct_idx n p \<le> pct_idx n q"
proof -
  have n: "(0::rat) \<le> fl (of_nat (n - 1))" by (intro fl_nonneg) simp
  have f: "0 \<le> fl (p / 100)" "fl (p / 100) \<le> fl (q / 100)"
    using assms(1,2) by (simp_all add: fl_nonneg fl_mono divide_right_mono)
  have "0 \<le> fl (p / 100) * fl (of_nat (n - 1))" using f n by simp
  moreover have "fl (p / 100) * fl (of_nat (n - 1)) \<le> fl (q / 100) * fl (of_nat (n - 1))"
    using f n by (intro mult_right_mono)
  ultimately have "0 \<le> fl (fl (p / 100) * fl (of_nat (n - 1)))"
    "fl (fl (p / 100) * fl (of_nat (n - 1))) \<le> fl (fl (q / 100) * fl (of_nat (n - 1)))"
    by (simp_all add: fl_nonneg fl_mono)
  then show ?thesis by (simp add: pct_idx_def trunc_def floor_mono)
qed

lemma Percentile_eq:
  assumes "0 \<le> pct" "pct \<le> 100" "values \<noteq> []" "length values < 2 ^ 53"
  shows "Percentile values pct = Inr (sort values ! nat (pct_idx (length values) pct), sort values)"
proof -
  have "0 \<le> pct_idx (length values) pct \<and> nat (pct_idx (length values) pct) < length values"
    using pct_idx_bounds [OF assms(1,2), of "length values"] assms(3,4) by simp
  then show ?thesis
    unfolding Percentile_def Let_def length_sort pct_idx_def [symmetric] using assms(3) by simp
qed


section \<open>Lemmas: a run against a gateway that works\<close>

text \<open>
  The options under which nothing goes wrong: sizes within the range of \<open>int\<close>, prompts and lookups of
  at least one block, a hot set within the objects, and objects the gateway accepts.
\<close>

definition stress_cfg_ok :: "nat \<Rightarrow> StressConfig \<Rightarrow> bool" where
  "stress_cfg_ok limit cfg \<longleftrightarrow>
     0 < tc_block_size cfg \<and> tc_block_size cfg \<le> tc_prompt_len cfg \<and> tc_prompt_len cfg + tc_block_size cfg < 2 ^ 31 \<and>
     0 \<le> tc_object_bytes cfg \<and> tc_object_bytes cfg < 2 ^ 31 \<and> nat (tc_object_bytes cfg) \<le> limit \<and>
     (tc_bytes_per_token cfg > 0 \<longrightarrow> tc_prompt_len cfg * tc_bytes_per_token cfg < 2 ^ 31) \<and>
     (tc_max_len_tokens cfg \<le> 0 \<or> tc_block_size cfg \<le> tc_max_len_tokens cfg) \<and>
     0 < tc_objects cfg \<and> 0 \<le> tc_threads cfg \<and> tc_hotset_size cfg \<le> tc_objects cfg \<and> in_i32 (tc_hotset_size cfg - 1)"

lemma length_stress_tokens [simp]: "length (stress_tokens plen i) = nat plen"
  by (simp add: stress_tokens_def)

lemma write_prefixes_keeps: "map_of m h \<noteq> None \<Longrightarrow> map_of (write_prefixes hash tokens g ps m) h \<noteq> None"
  by (induction ps rule: rev_induct) (simp_all add: map_of_write_prefixes_snoc)

text \<open>A prompt whose first block is in the index hits.\<close>

lemma first_block_hits:
  assumes "0 < block_size pm" "int (length tokens) + block_size pm < 2 ^ 31" "block_size pm \<le> int (length tokens)"
    and "max_len \<le> 0 \<or> block_size pm \<le> max_len" "block_entry hash pm tokens 1 \<noteq> None"
  obtains r where "Lookup hash pm tokens max_len = Some (Inr r)" "lr_hit r"
proof -
  let ?f = "block_entry hash pm tokens" and ?n = "lookup_limit tokens max_len div nat (block_size pm)"
  have "nat (block_size pm) \<le> lookup_limit tokens max_len"
    using assms(1,3,4) by (auto simp: lookup_limit_def)
  then have "1 \<le> ?n" using assms(1) block_multiple_le [of "nat (block_size pm)" 1 "lookup_limit tokens max_len"] by simp
  moreover have "\<forall>k. 1 \<le> k \<and> k \<le> 1 \<longrightarrow> ?f k \<noteq> None" using assms(5) by (metis le_antisym)
  ultimately have "lookup_depth ?f ?n \<noteq> 0" using lookup_depth_ge [of 1 ?f ?n] by simp
  with Lookup_eq [OF assms(1,2), of hash max_len] that show thesis by simp
qed

definition indexed :: "(string \<Rightarrow> 64 word) \<Rightarrow> StressConfig \<Rightarrow> 's PrefixMap \<Rightarrow> string list list \<Rightarrow> bool" where
  "indexed hash cfg pm prompts \<longleftrightarrow> block_size pm = tc_block_size cfg \<and> bytes_per_token pm = tc_bytes_per_token cfg \<and>
     list_all (\<lambda>p. length p = nat (tc_prompt_len cfg) \<and> block_entry hash pm p 1 \<noteq> None) prompts"

lemma indexed_stored:
  assumes "indexed hash cfg pm prompts" "stress_cfg_ok limit cfg" "length tokens = nat (tc_prompt_len cfg)"
  shows "indexed hash cfg (stored_pm hash now pm tokens data owner_id priority s) (prompts @ [tokens])"
proof -
  have bs: "0 < block_size pm" "nat (block_size pm) \<le> length tokens"
    using assms by (auto simp: indexed_def stress_cfg_ok_def)
  then have "1 \<le> length tokens div nat (block_size pm)"
    using block_multiple_le [of "nat (block_size pm)" 1 "length tokens"] by simp
  from block_entry_stored [OF bs(1) _ this] have "block_entry hash (stored_pm hash now pm tokens data owner_id priority s) tokens 1 \<noteq> None"
    by fastforce
  moreover have "block_entry hash (stored_pm hash now pm tokens data owner_id priority s) p 1 \<noteq> None"
    if "block_entry hash pm p 1 \<noteq> None" for p
    using that write_prefixes_keeps [of "prefix_map pm"] by (simp add: block_entry_def stored_pm_def)
  ultimately show ?thesis
    using assms(1,3) unfolding indexed_def by (auto simp: list_all_iff)
qed

lemma indexed_storage [simp]: "indexed hash cfg (pm\<lparr>storage := s\<rparr>) prompts = indexed hash cfg pm prompts"
  by (simp add: indexed_def block_entry_def)

lemma sum_list_update_latencies:
  "j < length ws \<Longrightarrow> sum_list (map (\<lambda>w. length (wk_latencies w))
     (ws[j := (ws ! j)\<lparr>wk_handle := x, wk_latencies := wk_latencies (ws ! j) @ [y]\<rparr>])) = Suc (sum_list (map (\<lambda>w. length (wk_latencies w)) ws))"
proof (induction ws arbitrary: j)
  case (Cons w ws)
  then show ?case by (cases j) simp_all
qed simp

context s3_deployment
begin

text \<open>No object of another size lies under an identifier the run may use.\<close>

definition sized :: "(string \<Rightarrow> 64 word) \<Rightarrow> nat \<Rightarrow> 'n client \<Rightarrow> bool" where
  "sized hash n c \<longleftrightarrow> (\<forall>data d. length data = n \<longrightarrow> held c (HashBytesHex hash data) = Some d \<longrightarrow> length d = n)"

lemma prefill_object_ok:
  assumes c: "stress_s3cfg tc = cfg" "stress_cfg_ok (cfg_max_object_bytes gcfg) tc"
    and pf: "s3.index_ok (pf_cache pf)" "indexed hash tc (pf_cache pf) (pf_prompts pf)"
      "sized hash (nat (tc_object_bytes tc)) (storage (pf_cache pf))"
  shows "\<exists>pf'. prefill_object lib hash now rnd tc False i pf = Done pf' \<and>
    s3.index_ok (pf_cache pf') \<and> indexed hash tc (pf_cache pf') (pf_prompts pf') \<and>
    sized hash (nat (tc_object_bytes tc)) (storage (pf_cache pf')) \<and>
    pf_prompts pf' = pf_prompts pf @ [stress_tokens (tc_prompt_len tc) i]"
proof -
  let ?n = "nat (tc_object_bytes tc)" and ?ts = "stress_tokens (tc_prompt_len tc) i" and ?pm = "pf_cache pf"
  let ?d = "map rnd [pf_drawn pf..<pf_drawn pf + ?n]"
  have bs: "block_size ?pm = tc_block_size tc" "bytes_per_token ?pm = tc_bytes_per_token tc"
    using pf(2) by (simp_all add: indexed_def)
  have sz: "sizes_ok (block_size ?pm) (bytes_per_token ?pm) ?ts ?d" "fits ?d"
    using c(2) bs by (auto simp: stress_cfg_ok_def sizes_ok_def fits_def)
  obtain s where s: "Store (S3Storage lib cfg) hash (now i) ?pm ?ts ?d ''stress'' 1 False =
      Some (Inr (HashBytesHex hash ?d, stored_pm hash (now i) ?pm ?ts ?d ''stress'' 1 s))"
    "usable s" "held s = (held (storage ?pm))(HashBytesHex hash ?d \<mapsto> ?d)"
    using pf(1) by (blast intro: s3.store_succeeds [OF _ sz(1) HashBytesHex_safe sz(2)])
  have "\<And>d. held (storage ?pm) (HashBytesHex hash ?d) = Some d \<Longrightarrow> length d = length ?d"
    using pf(3) [unfolded sized_def, rule_format, of ?d] by simp
  from s3.store_index_ok [OF pf(1) sz(1) HashBytesHex_safe sz(2) this s(1)]
  have "s3.index_ok (stored_pm hash (now i) ?pm ?ts ?d ''stress'' 1 s)" .
  moreover have "indexed hash tc (stored_pm hash (now i) ?pm ?ts ?d ''stress'' 1 s) (pf_prompts pf @ [?ts])"
    by (rule indexed_stored [OF pf(2) c(2)]) simp
  moreover have "sized hash ?n s" using pf(3) s(3) by (simp add: sized_def)
  ultimately show ?thesis
    using s(1) c by (simp add: prefill_object_def stress_cfg_ok_def Let_def)
qed

lemma prefill_loop_ok:
  assumes c: "stress_s3cfg tc = cfg" "stress_cfg_ok (cfg_max_object_bytes gcfg) tc"
    and pf: "s3.index_ok (pf_cache pf)" "indexed hash tc (pf_cache pf) (pf_prompts pf)"
      "sized hash (nat (tc_object_bytes tc)) (storage (pf_cache pf))"
  shows "\<exists>pf'. prefill_loop lib hash now rnd tc False is pf = Done pf' \<and> s3.index_ok (pf_cache pf') \<and>
    indexed hash tc (pf_cache pf') (pf_prompts pf') \<and> length (pf_prompts pf') = length (pf_prompts pf) + length is"
  using pf
proof (induction "is" arbitrary: pf)
  case (Cons i "is")
  from prefill_object_ok [OF c Cons.prems, of now rnd i] obtain pf' where pf':
    "prefill_object lib hash now rnd tc False i pf = Done pf'" "s3.index_ok (pf_cache pf')"
    "indexed hash tc (pf_cache pf') (pf_prompts pf')" "sized hash (nat (tc_object_bytes tc)) (storage (pf_cache pf'))"
    "length (pf_prompts pf') = Suc (length (pf_prompts pf))" by auto
  from Cons.IH [OF pf'(2-4)] pf'(1,5) show ?case by auto
qed auto

definition stress_ok :: "(string \<Rightarrow> 64 word) \<Rightarrow> StressConfig \<Rightarrow> 'n stress \<Rightarrow> bool" where
  "stress_ok hash tc st \<longleftrightarrow>
     list_all (\<lambda>w. s3.index_ok ((tr_cache st)\<lparr>storage := \<lparr>cl_handle = wk_handle w, cl_net = tr_net st\<rparr>\<rparr>)) (tr_workers st) \<and>
     indexed hash tc (tr_cache st) (tr_prompts st) \<and> length (tr_prompts st) = nat (tc_objects tc) \<and>
     tm_errors (tr_metrics st) = 0 \<and> tm_requests (tr_metrics st) = of_nat (length (all_latencies st))"

lemma stress_start_ok:
  assumes c: "stress_s3cfg tc = cfg" "stress_cfg_ok (cfg_max_object_bytes gcfg) tc"
    and "usable c" "sized hash (nat (tc_object_bytes tc)) c"
  shows "\<exists>st out. stress_prefill lib hash now rnd t1 t2 tc False c = Done (st, out) \<and> stress_ok hash tc st"
proof -
  let ?pm = "\<lparr>block_size = tc_block_size tc, bytes_per_token = tc_bytes_per_token tc, version_clock = 0, storage = c,
      prefix_map = [], obj_table = []\<rparr>"
  let ?pf = "\<lparr>pf_cache = ?pm, pf_prompts = [], pf_out = [], pf_drawn = 0\<rparr>"
  have "s3.index_ok (pf_cache ?pf)" "indexed hash tc (pf_cache ?pf) (pf_prompts ?pf)"
    "sized hash (nat (tc_object_bytes tc)) (storage (pf_cache ?pf))"
    using assms(3,4) by (simp_all add: backed_def indexed_def)
  from prefill_loop_ok [OF c this, of now rnd "map int [0..<nat (tc_objects tc)]"] obtain pf where pf:
    "prefill_loop lib hash now rnd tc False (map int [0..<nat (tc_objects tc)]) ?pf = Done pf"
    "s3.index_ok (pf_cache pf)" "indexed hash tc (pf_cache pf) (pf_prompts pf)" "length (pf_prompts pf) = nat (tc_objects tc)"
    by auto
  have h: "held \<lparr>cl_handle = x, cl_net = cl_net y\<rparr> = held y" for x and y :: "'n client"
    by (simp add: held_def fun_eq_iff)
  have "\<exists>st. start_workers tc pf = Done st \<and> stress_ok hash tc st"
    using c(2) pf(2-4)
    by (auto simp: start_workers_def stress_cfg_ok_def stress_ok_def new_worker_def new_StressMetrics_def all_latencies_def
        usable_def backed_def h list_all_iff)
  with pf(1) c(2) show ?thesis
    by (auto simp: stress_prefill_def new_PrefixMap_def stress_cfg_ok_def)
qed

lemma worker_round_ok:
  assumes c: "stress_s3cfg tc = cfg" "stress_cfg_ok (cfg_max_object_bytes gcfg) tc"
    and st: "stress_ok hash tc st" "j < length (tr_workers st)" "nat idx < nat (tc_objects tc)"
  shows "\<exists>st'. worker_round lib hash tc j idx start stop st = Done st' \<and> stress_ok hash tc st'"
proof -
  let ?w = "tr_workers st ! j" and ?ts = "tr_prompts st ! nat idx"
  let ?pm = "(tr_cache st)\<lparr>storage := \<lparr>cl_handle = wk_handle ?w, cl_net = tr_net st\<rparr>\<rparr>"
  have ok: "s3.index_ok ?pm" using st(1,2) by (simp add: stress_ok_def list_all_length)
  have ix: "indexed hash tc (tr_cache st) (tr_prompts st)" "length (tr_prompts st) = nat (tc_objects tc)"
    using st(1) by (simp_all add: stress_ok_def)
  then have ts: "length ?ts = nat (tc_prompt_len tc)" "block_entry hash ?pm ?ts 1 \<noteq> None" "block_size ?pm = tc_block_size tc"
    using st(3) by (auto simp: indexed_def list_all_length block_entry_def)
  have b: "0 < block_size ?pm" "int (length ?ts) + block_size ?pm < 2 ^ 31" "block_size ?pm \<le> int (length ?ts)"
    "tc_max_len_tokens tc \<le> 0 \<or> block_size ?pm \<le> tc_max_len_tokens tc"
    using c(2) ts by (auto simp: stress_cfg_ok_def)
  obtain r where r: "Lookup hash ?pm ?ts (tc_max_len_tokens tc) = Some (Inr r)" "lr_hit r"
    by (rule first_block_hits [OF b ts(2)])
  obtain d pm' where l: "Load (S3Storage lib cfg) ?pm (lr_obj_id r) (lr_usable_len_bytes r) [] =
      Inr (True, take (nat (lr_usable_len_bytes r)) d, pm')" "s3.index_ok pm'" "prefix_map pm' = prefix_map ?pm"
    using s3.hit_loads [OF ok b(1,2) r, of "[]"] by blast
  let ?st' = "st\<lparr>tr_net := cl_net (storage pm'),
      tr_metrics := count_request True (take (nat (lr_usable_len_bytes r)) d) (tr_metrics st),
      tr_workers := (tr_workers st)[j := ?w\<lparr>wk_handle := cl_handle (storage pm'),
        wk_latencies := wk_latencies ?w @ [duration_ms start stop]\<rparr>]\<rparr>"
  have "worker_round lib hash tc j idx start stop st = Done ?st'"
    using st(3) ix(2) r l(1) by (simp add: worker_round_def c(1) Let_def)
  moreover have "stress_ok hash tc ?st'"
  proof -
    have h: "held \<lparr>cl_handle = x, cl_net = cl_net y\<rparr> = held y" for x and y :: "'n client"
      by (simp add: held_def fun_eq_iff)
    have bk: "backed (held (storage pm')) name_safe (tr_cache st)" using l(2,3) by (simp add: backed_def)
    have us: "usable \<lparr>cl_handle = wk_handle w, cl_net = n\<rparr>" if "w \<in> set (tr_workers ?st')" for w n
    proof -
      have "w = ?w\<lparr>wk_handle := cl_handle (storage pm'), wk_latencies := wk_latencies ?w @ [duration_ms start stop]\<rparr> \<or>
          w \<in> set (tr_workers st)"
        using that set_update_subset_insert by fastforce
      then show ?thesis using st(1) l(2) by (auto simp: stress_ok_def list_all_iff usable_def)
    qed
    then have "list_all (\<lambda>w. s3.index_ok ((tr_cache ?st')\<lparr>storage := \<lparr>cl_handle = wk_handle w, cl_net = tr_net ?st'\<rparr>\<rparr>)) (tr_workers ?st')"
      unfolding list_all_iff using bk by (simp add: h backed_def)
    moreover have "length (concat (map wk_latencies ((tr_workers st)[j := ?w\<lparr>wk_handle := x, wk_latencies := wk_latencies ?w @ [y]\<rparr>]))) =
        Suc (length (concat (map wk_latencies (tr_workers st))))" for x y
      using st(2) by (auto simp: length_concat comp_def sum_list_update_latencies)
    ultimately show ?thesis
      using st(1) by (simp add: stress_ok_def all_latencies_def count_request_def)
  qed
  ultimately show ?thesis by blast
qed

lemma stress_step_ok:
  assumes "stress_s3cfg tc = cfg" "stress_cfg_ok (cfg_max_object_bytes gcfg) tc" "stress_ok hash tc st"
    and "stress_step lib hash tc deadline st r"
  shows "\<exists>st'. r = Done st' \<and> stress_ok hash tc st'"
  using assms(4)
proof cases
  case (stress_round j now start stop u lo hi idx)
  have "nat idx < nat (tc_objects tc)"
    using stress_round(9-11) assms(2) by (auto simp: idx_range_def stress_cfg_ok_def split: if_splits)
  from worker_round_ok [OF assms(1-3) stress_round(2) this] stress_round(1) show ?thesis by simp
next
  case (stress_finish j now)
  let ?ws = "(tr_workers st)[j := (tr_workers st ! j)\<lparr>wk_running := False\<rparr>]"
  have "map wk_latencies ?ws = map wk_latencies (tr_workers st)"
    using stress_finish(2) by (simp add: map_update) (metis list_update_id map_update)
  moreover have "list_all (\<lambda>w. s3.index_ok ((tr_cache st)\<lparr>storage := \<lparr>cl_handle = wk_handle w, cl_net = tr_net st\<rparr>\<rparr>)) ?ws"
    using assms(3) stress_finish(2) by (simp add: stress_ok_def list_all_length nth_list_update)
  ultimately have "stress_ok hash tc (st\<lparr>tr_workers := ?ws\<rparr>)"
    using assms(3) by (simp add: stress_ok_def all_latencies_def)
  with stress_finish(1) show ?thesis by blast
qed

lemma stress_run_ok:
  assumes "stress_s3cfg tc = cfg" "stress_cfg_ok (cfg_max_object_bytes gcfg) tc" "stress_ok hash tc st"
    and "stress_run lib hash tc deadline st r"
  shows "\<exists>st'. r = Done st' \<and> stress_ok hash tc st'"
  using assms(4)
proof (induction rule: stress_run.induct)
  case stress_run_start
  from assms(3) show ?case by blast
next
  case (stress_run_step st' r)
  with stress_step_ok [OF assms(1,2)] show ?case by blast
qed

lemma create_bucket_request:
  assumes "usable c"
  shows "\<exists>c'. S3_CreateBucket lib cfg c = Inr (True, c') \<and> usable c' \<and> held c' = held c"
proof -
  let ?b = "sc_bucket cfg" and ?path = "''/'' @ sc_bucket cfg"
  have un: "list_all is_unreserved ?b" "?b \<noteq> []" "nul_free ?b"
    using bucket_safe name_safe_nul [OF bucket_safe] by (auto simp: name_safe_def list_all_iff)
  then have enc: "percent_encode ?b True = ?b" by (simp add: percent_encode_unreserved)
  have url: "BuildBucketUrl cfg = base @ ?path" by (simp add: BuildBucketUrl_def endpoint_base)
  obtain req g res g' c' where r:
    "carries (request_options cfg (BuildBucketUrl cfg) ''PUT'' None ((None :: bytes option) \<noteq> None) []) ?path req"
    "w_db (gw_world g) = w_db (gw_world (gw (cl_net c)))" "handle ssl R gcfg req g = (res, g')"
    "PerformRequest lib cfg (BuildBucketUrl cfg) ''PUT'' None None [] c =
       Inr (True, int (rs_status res), map_option (\<lambda>_. rs_body res) (None :: bytes option), c')"
    "usable c'" "w_db (gw_world (gw (cl_net c'))) = w_db (gw_world g')"
    by (rule perform_delivers [OF assms url client_call_intros(1) [OF bucket_safe], where out = None])
  have q: "rq_target req = ?path" "rq_method req = ''PUT''" "rq_body req = []"
    using r(1) by (auto simp: carries_def request_options_def sends_body_def)
  have "CHR ''?'' \<notin> set ?b" "CHR ''/'' \<notin> set ?b"
    using un(1) by (auto simp: list_all_iff is_unreserved_def isalnum_def isdigit_def isupper_def islower_def)
  moreover have "decode_or_raw ?b = ?b" "decode_or_raw [] = []"
    using decode_or_raw_encode [of ?b True] decode_or_raw_encode [of "[]" False] by (simp_all only: enc, simp add: percent_encode_def)
  ultimately have pt: "pt_bucket (api_parse_target req []) = ?b" "pt_key (api_parse_target req []) = []"
    using q(1) un(2) by (auto simp: api_parse_target_def Let_def drop_slash_def find_char_None_iff [THEN iffD2])
  have "served ssl gcfg req" using q open_gateway(1) by (simp add: served_def verify_sigv4_def auth_accept_def)
  then obtain w where d: "handle_bucket ssl R req (api_parse_target req []) (ctx_of req g) (gw_world g) = (res, w)"
    "gw_world g' = w"
    using r(3) handle_served [of ssl gcfg req R g] pt un(2) open_gateway(2)
    by (auto simp: dispatch_def split: prod.splits)
  obtain b e w' where cb: "create_bucket R ?b (Some []) (gw_world g) = (b, e, w')"
    by (cases "create_bucket R ?b (Some []) (gw_world g)") auto
  then have "b" using create_bucket_succeeds [OF un(3), of "Some []" "gw_world g"] by simp
  with d(1) q(2) pt cb have res: "rs_status res = 200" "w' = w" by (auto simp: handle_bucket_def)
  have "held c' = held c"
    using create_bucket_view(1) [OF cb] res(2) d(2) r(2,6) by (auto simp: held_def fun_eq_iff)
  moreover have "S3_CreateBucket lib cfg c = Inr (True, c')"
    using r(4) res(1) by (simp add: S3_CreateBucket_def IsSuccessStatus_def)
  ultimately show ?thesis using r(5) by blast
qed

lemma stress_program_ok:
  assumes "ReadArg argv ''--endpoint'' = Some ep" "parse_stress argv ep = Some tc" "\<not> HasFlag argv ''--skip-prefill''"
    and c: "stress_s3cfg tc = cfg" "stress_cfg_ok (cfg_max_object_bytes gcfg) tc"
    and "sized hash (nat (tc_object_bytes tc)) \<lparr>cl_handle = Not_created, cl_net = net\<rparr>"
  shows "\<exists>st out. stress_start lib hash now rnd t1 t2 argv net = Done (Inr (tc, st, out)) \<and> stress_ok hash tc st"
proof -
  let ?c = "\<lparr>cl_handle = Not_created, cl_net = net\<rparr>"
  obtain c' where c': "(if tc_create_bucket tc then S3_CreateBucket lib cfg ?c else Inr (True, ?c)) = Inr (True, c')"
    "usable c'" "held c' = held ?c"
  proof (cases "tc_create_bucket tc")
    case True
    with create_bucket_request [of ?c] that show thesis by (auto simp: usable_def)
  next
    case False
    with that [of ?c] show thesis by (simp add: usable_def)
  qed
  have "sized hash (nat (tc_object_bytes tc)) c'" using assms(6) c'(3) by (simp add: sized_def)
  from stress_start_ok [OF c c'(2) this, of now rnd t1 t2] assms(1-3) c'(1) show ?thesis
    unfolding c(1) [symmetric] by (auto simp: stress_start_def)
qed

end

section \<open>Examples\<close>

definition demo_stress_argv :: "string list" where
  "demo_stress_argv = [''stress_e2e'', ''--endpoint'', ''http://127.0.0.1:9000/'', ''--bucket'', ''pc'', ''--create-bucket'',
     ''--objects'', ''3'', ''--prompt-len'', ''4'', ''--block-size'', ''2'', ''--object-bytes'', ''8'', ''--threads'', ''2'',
     ''--hotset-size'', ''2'', ''--hotset-traffic'', ''0.5'']"


definition demo_stress_cfg :: StressConfig where
  "demo_stress_cfg = default_StressConfig
     \<lparr>tc_endpoint := ''http://127.0.0.1:9000/'', tc_bucket := ''pc'', tc_create_bucket := True, tc_objects := 3, tc_prompt_len := 4,
      tc_block_size := 2, tc_object_bytes := 8, tc_bytes_per_token := 2, tc_threads := 2, tc_hotset_size := 2,
      tc_hotset_traffic := Finite (1 / 2)\<rparr>"

lemma demo_stod: "stod ''0.5'' = Some (Finite (1 / 2))"
proof -
  have m: "strtod_magnitude ''0.5'' = Some (1 / 2)" by code_simp
  have s: "dropWhile isspace ''0.5'' = ''0.5''" "\<not> starts_with_ci ''inf'' ''0.5''" "\<not> starts_with_ci ''nan'' ''0.5''" by code_simp+
  have f: "fl (1 / 2) = 1 / 2" by code_simp
  have "\<not> (1 / 2 :: rat) < 2 powi - 1022" by (simp add: power_int_minus)
  then show ?thesis unfolding stod_def s by (simp add: s m f)
qed

lemma demo_stress_parse:
  "ReadArg demo_stress_argv ''--endpoint'' = Some ''http://127.0.0.1:9000/''"
  "parse_stress demo_stress_argv ''http://127.0.0.1:9000/'' = Some demo_stress_cfg"
  "\<not> HasFlag demo_stress_argv ''--skip-prefill''"
proof -
  have n: "stoi ''2'' = Some 2" "stoi ''3'' = Some 3" "stoi ''4'' = Some 4" "stoi ''8'' = Some 8" by code_simp+
  have d: "max 1 (8 sdiv 4) = (2 :: int)" by code_simp
  show "ReadArg demo_stress_argv ''--endpoint'' = Some ''http://127.0.0.1:9000/''" "\<not> HasFlag demo_stress_argv ''--skip-prefill''"
    by (simp_all add: demo_stress_argv_def ReadArg_def HasFlag_def)
  show "parse_stress demo_stress_argv ''http://127.0.0.1:9000/'' = Some demo_stress_cfg"
    by (simp add: parse_stress_def demo_stress_argv_def ReadArg_def HasFlag_def opt_arg_def n demo_stod auto_bytes_per_token_def d
        demo_stress_cfg_def default_StressConfig_def)
qed

section \<open>Properties\<close>

lemma Percentile_total:
  assumes "0 \<le> pct" "pct \<le> 100" "length values < 2 ^ 53"
  obtains p vs where "Percentile values pct = Inr (p, vs)" "length vs = length values"
proof (cases "values = []")
  case True
  then show thesis using that by (simp add: Percentile_def)
next
  case False
  from that Percentile_eq [OF assms(1,2) False assms(3)] show thesis by simp
qed

lemma stress_report_defined:
  assumes "length (all_latencies st) < 2 ^ 53"
  shows "\<exists>text. stress_report lib strerror prometheus cfg st = Inr text"
proof -
  obtain p50 v1 where 1: "Percentile (all_latencies st) 50 = Inr (p50, v1)" "length v1 = length (all_latencies st)"
    by (rule Percentile_total [of 50 "all_latencies st"]) (use assms in simp_all)
  obtain p95 v2 where 2: "Percentile v1 95 = Inr (p95, v2)" "length v2 = length v1"
    by (rule Percentile_total [of 95 v1]) (use assms 1 in simp_all)
  obtain p99 v3 where 3: "Percentile v2 99 = Inr (p99, v3)"
    by (rule Percentile_total [of 99 v2]) (use assms 1 2 in simp_all)
  show ?thesis by (simp add: stress_report_def 1 2 3)
qed

text \<open>
  C23: A stress run against a working gateway counts no error.  The options parse, without
  \<open>--skip-prefill\<close>, and make sense (\<open>stress_cfg_ok\<close>: at least one object, a positive block size of at
  most the prompt length, sizes within \<open>int\<close>, a token limit that admits one block, a hot set within the
  objects, and objects no larger than the gateway accepts); the bucket holds no object of another size
  under an identifier the run can use.  Then the tool fills the bucket and starts its threads, and,
  whatever random numbers, clocks and interleaving of the threads, no behaviour is undefined, no round
  fails, the request counter is the number of recorded latencies, and the report is printed when there
  are fewer than \<open>2\<^sup>5\<^sup>3\<close> latencies; nothing is assumed of the hash function.
\<close>

theorem stress_counts_no_errors:
  assumes "s3_deployment R view lib base ssl gcfg gw (stress_s3cfg cfg)"
    and "ReadArg argv ''--endpoint'' = Some endpoint" "parse_stress argv endpoint = Some cfg" "\<not> HasFlag argv ''--skip-prefill''"
    and "stress_cfg_ok (cfg_max_object_bytes gcfg) cfg" "n = nat (tc_object_bytes cfg)"
    and "\<And>data d. length data = n \<Longrightarrow>
      view (w_db (gw_world (gw net))) (data_key (tc_bucket cfg) (HashBytesHex hash data)) = Some d \<Longrightarrow> length d = n"
  shows "\<exists>st out. stress_start lib hash now rnd t1 t2 argv net = Done (Inr (cfg, st, out)) \<and>
    (\<forall>deadline r. stress_run lib hash cfg deadline st r \<longrightarrow>
      (\<exists>st'. r = Done st' \<and> tm_errors (tr_metrics st') = 0 \<and>
        tm_requests (tr_metrics st') = of_nat (length (all_latencies st')) \<and>
        (length (all_latencies st') < 2 ^ 53 \<longrightarrow> (\<exists>text. stress_report lib strerror prometheus cfg st' = Inr text))))"
proof -
  note dep = assms(1)
  have "s3_deployment.sized view gw (stress_s3cfg cfg) hash (nat (tc_object_bytes cfg)) \<lparr>cl_handle = Not_created, cl_net = net\<rparr>"
    unfolding s3_deployment.sized_def [OF dep] s3_deployment.held_def [OF dep] using assms(6,7) by (simp add: stress_s3cfg_def)
  from s3_deployment.stress_program_ok [OF dep assms(2-4) refl assms(5) this, of now rnd t1 t2]
  obtain st out where st: "stress_start lib hash now rnd t1 t2 argv net = Done (Inr (cfg, st, out))"
    "s3_deployment.stress_ok view gw (stress_s3cfg cfg) hash cfg st" by blast
  have "\<exists>st'. r = Done st' \<and> tm_errors (tr_metrics st') = 0 \<and> tm_requests (tr_metrics st') = of_nat (length (all_latencies st'))"
    if "stress_run lib hash cfg deadline st r" for deadline r
    using s3_deployment.stress_run_ok [OF dep refl assms(5) st(2) that] by (auto simp: s3_deployment.stress_ok_def [OF dep])
  then show ?thesis using st(1) stress_report_defined [of _ lib strerror prometheus cfg] by (intro exI [of _ st] exI [of _ out]) blast
qed


theorem stress_counts_no_errors_witness:
  "\<exists>st out. stress_start (loopback demo_ssl mem_rocksdb demo_cfg ''http://127.0.0.1:9000'') demo_hash id (\<lambda>k. CHR ''x'') 0 1
      demo_stress_argv demo_gateway = Done (Inr (demo_stress_cfg, st, out)) \<and>
    (\<forall>deadline r. stress_run (loopback demo_ssl mem_rocksdb demo_cfg ''http://127.0.0.1:9000'') demo_hash demo_stress_cfg deadline st r \<longrightarrow>
      (\<exists>st'. r = Done st' \<and> tm_errors (tr_metrics st') = 0))"
proof -
  have s3: "stress_s3cfg demo_stress_cfg = demo_S3Config"
    by (simp add: stress_s3cfg_def demo_stress_cfg_def default_StressConfig_def demo_S3Config_def default_S3Config_def)
  have ok: "stress_cfg_ok (cfg_max_object_bytes demo_cfg) demo_stress_cfg"
    by (simp add: stress_cfg_ok_def demo_stress_cfg_def default_StressConfig_def demo_cfg_def in_i32_def)
  have absent: "map_of (w_db (gw_world demo_gateway)) (data_key (tc_bucket demo_stress_cfg) (HashBytesHex demo_hash data)) = None" for data
    using length_HashBytesHex [of demo_hash data]
    by (auto simp: demo_gateway_def demo_world_def demo_db_def demo_stress_cfg_def default_StressConfig_def key_lemmas)
  have dep: "s3_deployment mem_rocksdb map_of (loopback demo_ssl mem_rocksdb demo_cfg ''http://127.0.0.1:9000'')
      ''http://127.0.0.1:9000'' demo_ssl demo_cfg (\<lambda>g. g) (stress_s3cfg demo_stress_cfg)"
    unfolding s3 by (rule loopback_deployment)
  from stress_counts_no_errors [OF dep demo_stress_parse ok refl, where net = demo_gateway and hash = demo_hash and now = id
      and rnd = "\<lambda>k. CHR ''x''" and ?t1.0 = 0 and ?t2.0 = 1]
  show ?thesis by (simp add: absent) blast
qed

text \<open>Two roundings move the position by at most a \<open>2\<^sup>5\<^sup>1\<close>-th of it.\<close>

lemma two_roundings:
  assumes "\<bar>y - w\<bar> \<le> w / 2 ^ 53" "\<bar>z - y\<bar> \<le> y / 2 ^ 53" "0 \<le> (w :: rat)"
  shows "\<bar>z - w\<bar> \<le> w / 2 ^ 51"
proof -
  have "y \<le> w + w / 2 ^ 53" using assms(1) by linarith
  also have "\<dots> \<le> 2 * w" using assms(3) by simp
  finally have "y / 2 ^ 53 \<le> w / 2 ^ 52" by simp
  moreover have "w / 2 ^ 53 + w / 2 ^ 52 \<le> w / 2 ^ 51" using assms(3) by simp
  ultimately show ?thesis using assms(1,2) by linarith
qed

lemma pct_rank:
  assumes "0 \<le> pct" "pct \<le> 100" "n \<le> 2 ^ 51" "w = pct / 100 * of_nat (n - 1)"
  shows "of_int (pct_idx n pct) \<le> w + w / 2 ^ 51" "w - w / 2 ^ 51 < of_int (pct_idx n pct) + 1"
proof -
  define m where "m = (of_nat (n - 1) :: rat)"
  define x where "x = pct / 100"
  have f: "fl (of_nat (n - 1)) = m" unfolding m_def using assms(3) by (intro fl_of_nat) simp
  have x: "0 \<le> x" "0 \<le> m" "w = x * m" using assms(1,4) by (simp_all add: x_def m_def)
  have fx: "0 \<le> fl x" "\<bar>fl x - x\<bar> \<le> x / 2 ^ 53"
    using pct_fraction [OF assms(1,2)] fl_error [OF x(1)] by (simp_all add: x_def)
  have "\<bar>fl x * m - w\<bar> = \<bar>fl x - x\<bar> * m" using x by (simp add: abs_mult left_diff_distrib flip: left_diff_distrib)
  also have "\<dots> \<le> x / 2 ^ 53 * m" using fx(2) x(2) by (intro mult_right_mono)
  finally have a: "\<bar>fl x * m - w\<bar> \<le> w / 2 ^ 53" by (simp add: x(3))
  have y: "0 \<le> fl x * m" using fx x by simp
  have z: "\<bar>fl (fl x * m) - w\<bar> \<le> w / 2 ^ 51"
    by (rule two_roundings [OF a fl_error [OF y]]) (use x in simp)
  have i: "pct_idx n pct = \<lfloor>fl (fl x * m)\<rfloor>"
    unfolding pct_idx_def f x_def [symmetric] trunc_def by (rule if_P) (rule fl_nonneg [OF y])
  have "of_int \<lfloor>fl (fl x * m)\<rfloor> \<le> fl (fl x * m)" "fl (fl x * m) < of_int \<lfloor>fl (fl x * m)\<rfloor> + 1"
    using floor_correct [of "fl (fl x * m)"] by simp_all
  with z show "of_int (pct_idx n pct) \<le> w + w / 2 ^ 51" "w - w / 2 ^ 51 < of_int (pct_idx n pct) + 1"
    unfolding i by linarith+
qed

text \<open>
  C37: \<open>Percentile\<close> with the rounding of its \<open>double\<close> arithmetic, for percentages from 0 to 100 and up to
  \<open>2\<^sup>5\<^sup>1\<close> values: it sorts the vector and returns the element at an index inside it, which is the exact
  position \<open>pct / 100 * (n - 1)\<close> rounded down, where the position is known up to a \<open>2\<^sup>5\<^sup>1\<close>-th of itself; and a
  higher percentage gives an index that is not smaller.
\<close>

theorem percentile_correct:
  assumes "values \<noteq> []" "length values \<le> 2 ^ 51" "0 \<le> p" "p \<le> q" "q \<le> 100"
    and "w = p / 100 * of_nat (length values - 1)"
  shows "\<exists>i j. Percentile values p = Inr (sort values ! i, sort values) \<and>
    Percentile values q = Inr (sort values ! j, sort values) \<and> i \<le> j \<and> j < length values \<and>
    of_nat i \<le> w + w / 2 ^ 51 \<and> w - w / 2 ^ 51 < of_nat i + 1"
proof -
  let ?n = "length values"
  have n: "0 < ?n" "?n < 2 ^ 53" "0 \<le> q" "p \<le> 100" using assms by simp_all
  define i j where "i = nat (pct_idx ?n p)" and "j = nat (pct_idx ?n q)"
  have i: "0 \<le> pct_idx ?n p" "i < ?n" using pct_idx_bounds [OF assms(3) n(4,1,2)] by (simp_all add: i_def)
  have j: "j < ?n" "i \<le> j"
    using pct_idx_bounds(2) [OF n(3) assms(5) n(1,2)] pct_idx_mono [OF assms(3-5) n(2)] by (simp_all add: i_def j_def nat_mono)
  have P: "Percentile values p = Inr (sort values ! i, sort values)" "Percentile values q = Inr (sort values ! j, sort values)"
    using Percentile_eq assms n by (simp_all add: i_def j_def)
  have "(of_nat i :: rat) = of_int (pct_idx ?n p)" using i(1) by (simp add: i_def)
  then show ?thesis
    using P j pct_rank [OF assms(3) n(4) assms(2,6)] by (intro exI [of _ i] exI [of _ j]) simp
qed

theorem percentile_correct_witness:
  "\<exists>vq. Percentile [5, 1, 3, 2] 50 = Inr (2, [1, 2, 3, 5]) \<and> Percentile [5, 1, 3, 2] 99 = Inr (vq, [1, 2, 3, 5]) \<and> 2 \<le> vq"
proof -
  have s: "sort [5, 1, 3, 2 :: rat] = [1, 2, 3, 5]" by simp
  obtain i j where P: "Percentile [5, 1, 3, 2] 50 = Inr ([1, 2, 3, 5] ! i, [1, 2, 3, 5])"
    "Percentile [5, 1, 3, 2] 99 = Inr ([1, 2, 3, 5] ! j, [1, 2, 3, 5])" "i \<le> j" "j < 4"
    and b: "of_nat i \<le> (3 / 2 + 3 / 2 / 2 ^ 51 :: rat)" "(3 / 2 - 3 / 2 / 2 ^ 51 :: rat) < of_nat i + 1"
    using percentile_correct [of "[5, 1, 3, 2]" 50 99 "3 / 2"] by (auto simp: s)
  have "i < 4" using P(3,4) by simp
  then consider "i = 0" | "i = 1" | "i = 2" | "i = 3" by linarith
  then have "i = 1" using b by cases simp_all
  moreover from this P(3,4) consider "j = 1" | "j = 2" | "j = 3" by linarith
  then have "2 \<le> [1, 2, 3, 5 :: rat] ! j" by cases simp_all
  ultimately show ?thesis using P(1,2) by auto
qed

text \<open>
  A hot set larger than the number of objects makes the tool read beyond the vector of prompts:
  the index is drawn from the hot set alone, and a worker that is still running can draw one that no
  prompt has.
\<close>

theorem hotset_beyond_objects:
  assumes "j < length (tr_workers st)" "wk_running (tr_workers st ! j)" "now < deadline"
    and "length (tr_prompts st) = nat (tc_objects cfg)" "0 \<le> tc_objects cfg" "tc_objects cfg < tc_hotset_size cfg"
    and "0 \<le> u" "u < 1" "dbl_greater (tc_hotset_traffic cfg) u"
  shows "stress_step lib hash cfg deadline st (Undefined IndexOutOfRange)"
proof -
  have "idx_range cfg u = (0, max 0 (tc_hotset_size cfg - 1))" using assms(5,6,9) by (simp add: idx_range_def)
  from stress_round [OF assms(1-3) order.refl order.refl assms(7,8) this, of "tc_objects cfg" lib hash] assms(4-6)
  show ?thesis by (simp add: worker_round_def)
qed

theorem hotset_beyond_objects_witness:
  "stress_step (loopback demo_ssl mem_rocksdb demo_cfg ''http://127.0.0.1:9000'') demo_hash (demo_stress_cfg\<lparr>tc_objects := 1\<rparr>) 1
     \<lparr>tr_net = demo_gateway, tr_cache = \<lparr>block_size = 2, bytes_per_token = 2, version_clock = 0,
        storage = \<lparr>cl_handle = Not_created, cl_net = demo_gateway\<rparr>, prefix_map = [], obj_table = []\<rparr>,
      tr_prompts = [[''a'', ''b'']], tr_metrics = new_StressMetrics, tr_workers = [new_worker]\<rparr>
     (Undefined IndexOutOfRange)"
  by (rule hotset_beyond_objects [of 0 _ 0 1 _ 0]) (simp_all add: new_worker_def demo_stress_cfg_def default_StressConfig_def)

end
