(* ===== verification/Spec2Isabelle.thy ===== *)
theory Spec2Isabelle
  imports Prelude Util Double Cache Metrics Rocks ObjectStore Base64 Listing Http Sigv4 Calendar S3Api HttpServer
    GatewayMain Programs Concurrent Schedules Storage S3Client IndexCli Stress
begin

text \<open>
  A verification library for the prompt cache storage.

  \<^bold>\<open>The program.\<close>  Two C++ programs and a stress tool.  The \<^emph>\<open>index layer\<close> (\<open>src/index_layer\<close>) keeps a map from
  hashed token prefixes to objects and decides which leading bytes of which stored object serve the
  longest cached prefix of a prompt; it stores and loads the objects through an S3 client.  The
  \<^emph>\<open>gateway\<close> (\<open>src/s3_rocksdb_gateway\<close>) is an S3-compatible HTTP server over RocksDB.  A \<open>store\<close> of the
  index layer runs through \<open>PrefixMap::Store\<close>, \<open>S3Storage::Put\<close>, libcurl, the session of the HTTP
  server, \<open>Api::handle\<close>, the SigV4 check and \<open>RocksObjectStore::put_object\<close>; a \<open>load\<close> runs back through
  \<open>GetRange\<close>, the \<open>Range\<close> header and \<open>get_object_data\<close>.

  \<^bold>\<open>The theories.\<close>  Each follows the source file it models, one definition per function, in the
  order of the file.

  \<^item> \<open>Prelude\<close>: byte strings and what the code uses of the C++ standard library; undefined behaviour
    as values of \<open>ub\<close>; lemmas and named collections shared by all theories.  \<open>Double\<close>: rounding of
    \<open>double\<close> arithmetic on rationals.
  \<^item> \<open>Cache\<close>: \<open>cache.h\<close>, \<open>cache.cc\<close>.  The record \<open>PrefixMap\<close> holds the members of the class; \<open>Store\<close>,
    \<open>Lookup\<close>, \<open>Load\<close>, \<open>UsableBytes\<close>, \<open>HashTokens\<close> are its methods; \<open>std::hash\<close>, the clock and the
    \<open>Storage\<close> provider are arguments.  Abstract specification: a partial map from token lists to
    entries, which \<open>Store\<close> and \<open>Lookup\<close> refine.
  \<^item> \<open>Storage\<close>: the contract of the abstract class \<open>Storage\<close> as the locale \<open>storage_contract\<close>, and the
    facts about the index that follow from it.
  \<^item> \<open>S3Client\<close>: \<open>s3_storage.h\<close>, \<open>s3_storage.cc\<close>.  The state is the \<open>thread_local\<close> handle (not created,
    null, live or freed) and the network; \<open>PerformRequest\<close> sets the options and calls libcurl, an
    argument.  The locale \<open>http_transport\<close> says that libcurl delivers the requests the client makes, for
    \<open>/bucket\<close> and \<open>/bucket/key\<close>, to the gateway and its answers back; \<open>s3_deployment\<close> adds a database that does not fail and a gateway without
    authentication, and is a sublocale of \<open>storage_contract\<close>.
  \<^item> \<open>IndexCli\<close>: \<open>index_layer/src/main.cpp\<close>, from \<open>argv\<close> to the exit code, the output and the files.
  \<^item> \<open>Util\<close>, \<open>Base64\<close>, \<open>Calendar\<close>: \<open>util.cpp\<close> (percent coding, queries, digests, base64, dates) and
    \<open>iso8601_gmt\<close>; the digests and the base64 codec of OpenSSL are arguments, with the locale
    \<open>openssl_base64\<close>.
  \<^item> \<open>Metrics\<close>: \<open>metrics.hpp\<close>, \<open>metrics.cpp\<close>; counters are 64-bit words.
  \<^item> \<open>Rocks\<close>: the interface of RocksDB with the locales \<open>rocksdb_laws\<close> (every call may fail, a failed
    write changes nothing) and \<open>rocksdb_healthy\<close> (no call fails), and an instance that keeps the
    database in an association list.  \<open>ObjectStore\<close>: \<open>storage.hpp\<close>, \<open>storage.cpp\<close> over it; the \<open>world\<close> is the
    database, the metrics object and the clocks.  Abstract specification: a set of buckets and a map
    of objects, which the operations refine.  \<open>Listing\<close>: the pages of \<open>list_objects_v2\<close>.
  \<^item> \<open>Http\<close>: requests and responses of Beast as the code uses them.  \<open>Sigv4\<close>: \<open>sigv4.hpp\<close>, \<open>sigv4.cpp\<close>.
    \<open>S3Api\<close>: \<open>s3_api.hpp\<close>, \<open>s3_api.cpp\<close>; \<open>handle\<close> is composed of the service, bucket and object requests.
  \<^item> \<open>HttpServer\<close>: \<open>http_server.hpp\<close>, \<open>http_server.cpp\<close>.  The handlers of \<open>Session\<close> and \<open>Listener\<close> are
    functions; \<open>server_step\<close> is the completion of one pending operation of any session, and
    \<open>server_run\<close> a sequence of them.  \<open>GatewayMain\<close>: the gateway's \<open>main.cpp\<close>.
  \<^item> \<open>Programs\<close>: the methods of the object store and \<open>Api::handle\<close> once more, as trees of their calls of
    RocksDB, of the clocks and of the metrics (\<open>put_object_p\<close>, \<open>handle_p\<close>, ...), with their equivalence
    to the functions (\<open>run_handle_p\<close>).  \<open>Concurrent\<close>: the server with the worker threads of \<open>main\<close>; a step \<open>c_step\<close>
    completes an operation or makes one call of one handler, of any session.
    \<open>Schedules\<close>: these steps as a function \<open>c_turn\<close> of the choice of the next thread, and a race.
  \<^item> \<open>Stress\<close>: \<open>tools/stress_e2e.cpp\<close>, from \<open>argv\<close> to the report; the worker threads are the step
    relation \<open>stress_step\<close>, the random numbers and the clock are arguments.

  \<^bold>\<open>What is proved.\<close>

  \<^item> The index: a stored prompt is found again, also by prompts that share leading blocks (\<open>Cache\<close>);
    refinement of the abstract cache; the well-formedness invariant; the bounds of \<open>UsableBytes\<close>, with
    the rounding of \<open>double\<close>; when \<open>Store\<close> terminates; what hash collisions can and cannot do.
  \<^item> The object store: refinement of the abstract store, the pairing of data and metadata along every
    run with failing calls, injective keys, the metadata round trip, complete listings.
  \<^item> The gateway: what a signature proves and what it leaves open; ranges; that refused requests have
    no effect; which requests write; targets, XML text and framing of responses; the in-flight gauge
    and the store's invariant under every interleaving of sessions; the limits \<open>main\<close> sets.
  \<^item> Threads: however the calls of the handlers interleave and whichever fail, every change of the store
    is one operation that one authenticated request asked for, acknowledged requests (of buckets and of
    objects) have taken effect, a \<open>GET\<close> answers from one instant, and the store's invariant and the gauge
    hold (\<open>Concurrent\<close>).  The checks and the deletion of \<open>delete_bucket\<close> are separate calls: whenever an
    empty bucket is deleted, a \<open>PUT\<close> can fall in between, be acknowledged and leave its object without
    a bucket (\<open>Schedules\<close>).
  \<^item> The stress tool counts no error against a working gateway, and its percentiles are the elements
    of the sorted list at the rank asked for, up to the rounding of \<open>double\<close>.
  \<^item> The whole: the properties at the end of this theory, through every layer.

  \<^bold>\<open>Bounds and loops.\<close>  Loops that end are \<open>fun\<close> or \<open>function\<close> with a measure.  The loops of \<open>Store\<close> and
  \<open>Lookup\<close> need not end and are \<open>partial_function (option)\<close>, \<open>None\<close> being divergence; \<open>sizes_ok\<close> (a
  positive block size, token count and byte counts within \<open>int\<close>) is enough for them to return.  There
  is no fuel.  Counters wrap at 64 bits; \<open>int\<close> overflow is undefined behaviour, a value of \<open>ub\<close>.

  \<^bold>\<open>Not modelled.\<close>  RocksDB, OpenSSL, libcurl, Boost.Asio, Boost.Beast and Boost.Program_options are
  arguments with named laws.  The clocks are functions of the number of readings.  A timed call of
  RocksDB is one step with its clock readings and its update of the counters, and the metrics page
  is rendered in one step; the code touches each atomic counter on its own.  So is the loop over an
  iterator, which reads a snapshot.  The overflow of the index's 64-bit \<open>version_clock_\<close> and the casts
  of sizes to \<open>int\<close> in the OpenSSL calls of \<open>util.cpp\<close> are not represented.  The RocksDB tuning options
  are left out.  The tests and the scripts only drive the modelled code.
\<close>

section \<open>The index over the gateway\<close>

text \<open>
  A process that uses the prefix map over \<open>S3Storage\<close>: any sequence of stores and loads.  A stored
  object does not clash, by its hash, with an object of another length.
\<close>

inductive index_run ::
  "'n libcurl \<Rightarrow> S3Config \<Rightarrow> (string \<Rightarrow> 64 word) \<Rightarrow> ('n client \<Rightarrow> string \<Rightarrow> bytes option) \<Rightarrow> nat \<Rightarrow>
   'n client PrefixMap \<Rightarrow> 'n client PrefixMap \<Rightarrow> bool"
  for lib cfg hash obj limit pm0 where
  index_start: "index_run lib cfg hash obj limit pm0 pm0"
| index_store:
    "index_run lib cfg hash obj limit pm0 pm \<Longrightarrow> sizes_ok (block_size pm) (bytes_per_token pm) tokens data \<Longrightarrow>
     length data \<le> limit \<Longrightarrow>
     (\<And>d. obj (storage pm) (HashBytesHex hash data) = Some d \<Longrightarrow> length d = length data) \<Longrightarrow>
     Store (S3Storage lib cfg) hash now pm tokens data owner_id priority False = Some (Inr (i, pm')) \<Longrightarrow>
     index_run lib cfg hash obj limit pm0 pm'"
| index_load:
    "index_run lib cfg hash obj limit pm0 pm \<Longrightarrow> Lookup hash pm tokens max_len = Some (Inr r) \<Longrightarrow> lr_hit r \<Longrightarrow>
     0 < block_size pm \<Longrightarrow> int (length tokens) + block_size pm < 2 ^ 31 \<Longrightarrow>
     Load (S3Storage lib cfg) pm (lr_obj_id r) (lr_usable_len_bytes r) out = Inr (res, out', pm') \<Longrightarrow>
     index_run lib cfg hash obj limit pm0 pm'"

context s3_deployment
begin

lemma held_fun: "held = (\<lambda>c i. view (w_db (gw_world (gw (cl_net c)))) (data_key (sc_bucket cfg) i))"
  by (simp add: fun_eq_iff held_def)

lemma index_run_ok:
  assumes "index_run lib cfg hash held (cfg_max_object_bytes gcfg) pm0 pm" "usable (storage pm0)" "prefix_map pm0 = []"
  shows "s3.index_ok pm"
  using assms(1)
proof (induction rule: index_run.induct)
  case index_start
  show ?case using assms(2,3) by (simp add: backed_def)
next
  case (index_store pm tokens data now owner_id priority i pm')
  show ?case
    by (rule s3.store_index_ok [OF index_store.IH index_store.hyps(2) HashBytesHex_safe _ index_store.hyps(4,5)])
      (use index_store.hyps(3) in \<open>simp add: fits_def\<close>)
next
  case (index_load pm tokens max_len r out res out' pm')
  obtain d pm'' where "Load (S3Storage lib cfg) pm (lr_obj_id r) (lr_usable_len_bytes r) out =
      Inr (True, take (nat (lr_usable_len_bytes r)) d, pm'')" "s3.index_ok pm''"
    using s3.hit_loads [OF index_load.IH index_load.hyps(4,5,2,3)] by blast
  with index_load.hyps(6) show ?case by simp
qed

lemma run_hit_loads:
  assumes "obj = (\<lambda>c i. view (w_db (gw_world (gw (cl_net c)))) (data_key (sc_bucket cfg) i))"
    and "index_run lib cfg hash obj (cfg_max_object_bytes gcfg) pm0 pm" "prefix_map pm0 = []"
    and "cl_handle (storage pm0) = Not_created \<or> cl_handle (storage pm0) = Live_handle"
    and "0 < block_size pm" "int (length tokens) + block_size pm < 2 ^ 31"
    and "Lookup hash pm tokens max_len = Some (Inr r)" "lr_hit r"
  shows "\<exists>d data pm'. obj (storage pm) (lr_obj_id r) = Some d \<and>
    Load (S3Storage lib cfg) pm (lr_obj_id r) (lr_usable_len_bytes r) out = Inr (True, data, pm') \<and>
    data = take (nat (lr_usable_len_bytes r)) d \<and> int (length data) = lr_usable_len_bytes r"
proof -
  have o: "obj = held" by (simp only: assms(1) held_fun)
  have "s3.index_ok pm" using index_run_ok [of hash pm0 pm] assms(2-4) by (simp add: o usable_def)
  from s3.hit_loads [OF this assms(5-8), of out] show ?thesis by (auto simp: o)
qed

lemma prefix_served:
  assumes "cl_handle (storage pm) = Not_created \<or> cl_handle (storage pm) = Live_handle"
    and "sizes_ok (block_size pm) (bytes_per_token pm) tokens data" "length data \<le> cfg_max_object_bytes gcfg"
    and "1 \<le> k" "q = nat (block_size pm) * k" "q \<le> length tokens" "q \<le> length tokens'"
    and "take q tokens' = take q tokens" "int (length tokens') + block_size pm < 2 ^ 31"
  shows "\<exists>pm'. Store (S3Storage lib cfg) hash now pm tokens data owner_id priority False =
      Some (Inr (HashBytesHex hash data, pm')) \<and>
    (\<exists>u pm''. Lookup hash pm' tokens' (int q) = Some (Inr \<lparr>lr_hit = True, lr_obj_id = HashBytesHex hash data,
        lr_usable_len_bytes = u, lr_prefix_tokens = int q\<rparr>) \<and> 0 \<le> u \<and> u \<le> int (length data) \<and>
      Load (S3Storage lib cfg) pm' (HashBytesHex hash data) u out = Inr (True, take (nat u) data, pm'')) \<and>
    (\<forall>max_len. max_len \<le> 0 \<or> int q \<le> max_len \<longrightarrow>
      (\<exists>r. Lookup hash pm' tokens' max_len = Some (Inr r) \<and> lr_hit r \<and> int q \<le> lr_prefix_tokens r \<and>
        (prefix_map pm = [] \<longrightarrow> lr_obj_id r = HashBytesHex hash data \<and> lr_usable_len_bytes r \<le> int (length data) \<and>
          (\<exists>pm''. Load (S3Storage lib cfg) pm' (lr_obj_id r) (lr_usable_len_bytes r) out =
             Inr (True, take (nat (lr_usable_len_bytes r)) data, pm'')))))"
  by (rule s3.store_then_load_shared [OF _ assms(2) HashBytesHex_safe _ assms(4-9)])
    (use assms(1,3) in \<open>simp_all add: usable_def fits_def\<close>)

lemma cli_store_load:
  assumes "valid_call ''store'' o1 argv1" "co_s3 o1 = cfg" "get_arg argv1 ''--tokens'' \<noteq> []"
    and "get_arg argv1 ''--data-file'' \<noteq> []" "num_arg stoi argv1 ''--priority'' 0 = Some p"
    and "cw_files w (get_arg argv1 ''--data-file'') = Some d" "length d \<le> cfg_max_object_bytes gcfg" "0 < n \<longrightarrow> d \<noteq> []"
    and "sizes_ok (co_block_size o1) (co_bytes_per_token o1) (SplitTokens (get_arg argv1 ''--tokens'')) d"
    and "valid_call ''load'' o2 argv2" "co_s3 o2 = cfg" "get_arg argv2 ''--obj-id'' = HashBytesHex hash d"
    and "num_arg stoi argv2 ''--usable-len'' 0 = Some n" "get_arg argv2 ''--out-file'' = f" "f \<noteq> []" "cw_disk w f = (\<lambda>data. Some (True, data))"
  shows "\<exists>w1 m w2.
    index_main lib hash now argv1 w =
      Some (Inr (Exit 0 (''obj_id='' @ HashBytesHex hash d @ nl @ ''prefixes='' @ nat_to_dec m @ nl) [] w1)) \<and>
    index_main lib hash now' argv2 w1 = Some (Inr (Exit 0 (''wrote='' @ f @ nl) [] w2)) \<and>
    cw_files w2 f = Some (if 0 < n then take (nat n) d else d)"
proof -
  have c: "argv1 ! 1 = ''store''" "argv2 ! 1 = ''load''" using assms(1,10) by (simp_all add: valid_call_def)
  have u: "usable (cw_client (new_process v))" for v :: "'n cli_world" by (simp add: usable_def new_process_def)
  have nw: "cw_files (new_process v) = cw_files v" "cw_disk (new_process v) = cw_disk v"
    "held (cw_client (new_process v)) = held (cw_client v)" for v :: "'n cli_world"
    by (simp_all add: new_process_def held_def fun_eq_iff)
  have f: "cw_files (new_process w) (get_arg argv1 ''--data-file'') = Some d" "fits d"
    using assms(6,7) nw by (simp_all add: fits_def)
  obtain m s where s: "cmd_store lib hash now cfg argv1 (fresh_cache o1 (new_process w)) (new_process w) =
      Some (Inr (Exit 0 (''obj_id='' @ HashBytesHex hash d @ nl @ ''prefixes='' @ nat_to_dec m @ nl) []
        ((new_process w)\<lparr>cw_client := s\<rparr>)))" "held s = (held (cw_client w))(HashBytesHex hash d \<mapsto> d)"
    using cmd_store_stores [OF assms(2) u assms(3-5) f(1) assms(9) f(2), of hash now] unfolding nw by blast
  define w1 where "w1 = (new_process w)\<lparr>cw_client := s\<rparr>"
  have w1: "cw_disk w1 f = (\<lambda>data. Some (True, data))" "held (cw_client w1) (HashBytesHex hash d) = Some d"
    using assms(16) s(2) nw by (simp_all add: w1_def)
  have g: "name_safe (get_arg argv2 ''--obj-id'')" "held (cw_client (new_process w1)) (get_arg argv2 ''--obj-id'') = Some d"
    "0 < n \<longrightarrow> d \<noteq> []" "cw_disk (new_process w1) f = (\<lambda>data. Some (True, data))"
    using w1 assms(8,12) nw by (simp_all add: HashBytesHex_safe)
  have "in_i32 n" using assms(13) by (auto simp: num_arg_def stoi_def in_i32_def split: if_splits option.splits)
  then obtain w2 where "cmd_load lib cfg argv2 (fresh_cache o2 (new_process w1)) (new_process w1) =
      Some (Inr (Exit 0 (''wrote='' @ f @ nl) [] w2))" "cw_files w2 f = Some (if 0 < n then take (nat n) d else d)"
    using cmd_load_loads [OF assms(11) u g(1,2) assms(13) _ g(3) assms(14,15) g(4)] by blast
  moreover have "index_main lib hash now argv1 w =
      Some (Inr (Exit 0 (''obj_id='' @ HashBytesHex hash d @ nl @ ''prefixes='' @ nat_to_dec m @ nl) [] w1))"
    unfolding index_main_command [OF assms(1)] run_command_fresh(1) [OF c(1) refl] assms(2) w1_def by (rule s(1))
  moreover have "index_main lib hash now' argv2 w1 = cmd_load lib cfg argv2 (fresh_cache o2 (new_process w1)) (new_process w1)"
    unfolding index_main_command [OF assms(10)] run_command_fresh(3) [OF c(2) refl] assms(11) ..
  ultimately show ?thesis by auto
qed

end

section \<open>Examples\<close>

abbreviation demo_lib :: "(mem_db gateway) libcurl" where
  "demo_lib \<equiv> loopback demo_ssl mem_rocksdb demo_cfg ''http://127.0.0.1:9000''"

definition demo_client :: "(mem_db gateway) client" where
  "demo_client = \<lparr>cl_handle = Not_created, cl_net = demo_gateway\<rparr>"

definition demo_index :: "(mem_db gateway) client PrefixMap" where
  "demo_index = \<lparr>block_size = 2, bytes_per_token = 1, version_clock = 0, storage = demo_client,
                 prefix_map = [], obj_table = []\<rparr>"

lemma demo_index_sizes: "sizes_ok (block_size demo_index) (bytes_per_token demo_index) [''a'', ''b'', ''c'', ''d''] ''wxyz''"
  by (simp add: demo_index_def sizes_ok_def)

lemma demo_client_handle: "cl_handle (storage demo_index) = Not_created \<or> cl_handle (storage demo_index) = Live_handle"
  by (simp add: demo_index_def demo_client_def)

section \<open>Properties of the whole system\<close>

text \<open>
  C1: The prompt cache works end to end.  One user stores a prompt and its data, no larger than the
  gateway's limit, through the index layer, \<open>S3Storage\<close>, libcurl, the gateway's API and the object
  store; another prompt begins with the same \<open>k\<close> blocks.  Looked up with exactly these tokens as the
  limit it hits the stored object for these blocks, and loading the hit returns the promised number of
  leading bytes of the data.  With every larger limit, and with the default 0, it hits for at least
  these blocks; when the index was empty before, the hit is the stored object, and loading it returns
  the promised leading bytes.
\<close>

theorem cached_prefix_served:
  assumes "s3_deployment R view lib base ssl gcfg gw cfg"
    and "cl_handle (storage pm) = Not_created \<or> cl_handle (storage pm) = Live_handle"
    and "sizes_ok (block_size pm) (bytes_per_token pm) tokens data" "length data \<le> cfg_max_object_bytes gcfg"
    and "1 \<le> k" "q = nat (block_size pm) * k" "q \<le> length tokens" "q \<le> length tokens'"
    and "take q tokens' = take q tokens" "int (length tokens') + block_size pm < 2 ^ 31"
  shows "\<exists>pm'. Store (S3Storage lib cfg) hash now pm tokens data owner_id priority False =
      Some (Inr (HashBytesHex hash data, pm')) \<and>
    (\<exists>u pm''. Lookup hash pm' tokens' (int q) = Some (Inr \<lparr>lr_hit = True, lr_obj_id = HashBytesHex hash data,
        lr_usable_len_bytes = u, lr_prefix_tokens = int q\<rparr>) \<and> 0 \<le> u \<and> u \<le> int (length data) \<and>
      Load (S3Storage lib cfg) pm' (HashBytesHex hash data) u out = Inr (True, take (nat u) data, pm'')) \<and>
    (\<forall>max_len. max_len \<le> 0 \<or> int q \<le> max_len \<longrightarrow>
      (\<exists>r. Lookup hash pm' tokens' max_len = Some (Inr r) \<and> lr_hit r \<and> int q \<le> lr_prefix_tokens r \<and>
        (prefix_map pm = [] \<longrightarrow> lr_obj_id r = HashBytesHex hash data \<and> lr_usable_len_bytes r \<le> int (length data) \<and>
          (\<exists>pm''. Load (S3Storage lib cfg) pm' (lr_obj_id r) (lr_usable_len_bytes r) out =
             Inr (True, take (nat (lr_usable_len_bytes r)) data, pm'')))))"
  using s3_deployment.prefix_served [OF assms] .

theorem cached_prefix_served_witness:
  "\<exists>pm' u pm'' r v. Store (S3Storage demo_lib demo_S3Config) demo_hash 0 demo_index [''a'', ''b'', ''c'', ''d''] ''wxyz'' ''me'' 1 False =
      Some (Inr (HashBytesHex demo_hash ''wxyz'', pm')) \<and>
    Lookup demo_hash pm' [''a'', ''b'', ''z''] 2 = Some (Inr \<lparr>lr_hit = True, lr_obj_id = HashBytesHex demo_hash ''wxyz'',
      lr_usable_len_bytes = u, lr_prefix_tokens = 2\<rparr>) \<and>
    Load (S3Storage demo_lib demo_S3Config) pm' (HashBytesHex demo_hash ''wxyz'') u [] = Inr (True, take (nat u) ''wxyz'', pm'') \<and>
    Lookup demo_hash pm' [''a'', ''b'', ''z''] 0 = Some (Inr r) \<and> lr_hit r \<and> 2 \<le> lr_prefix_tokens r \<and>
    Load (S3Storage demo_lib demo_S3Config) pm' (lr_obj_id r) (lr_usable_len_bytes r) [] =
      Inr (True, take (nat (lr_usable_len_bytes r)) ''wxyz'', v)"
proof -
  have e: "prefix_map demo_index = []" by (simp add: demo_index_def)
  have c: "length ''wxyz'' \<le> cfg_max_object_bytes demo_cfg" "(1 :: nat) \<le> 1" "2 = nat (block_size demo_index) * 1"
    "2 \<le> length [''a'', ''b'', ''c'', ''d'']" "2 \<le> length [''a'', ''b'', ''z'']"
    "take 2 [''a'', ''b'', ''z''] = take 2 [''a'', ''b'', ''c'', ''d'']" "int (length [''a'', ''b'', ''z'']) + block_size demo_index < 2 ^ 31"
    by (simp_all add: demo_cfg_def demo_index_def)
  from cached_prefix_served [OF loopback_deployment demo_client_handle demo_index_sizes c, where hash = demo_hash and now = 0
      and owner_id = "''me''" and priority = 1 and out = "[]"]
  show ?thesis by (elim exE conjE) (drule spec [of _ "0 :: int"], simp add: e, metis)
qed

text \<open>
  C2: Every hit can be loaded.  In a process that starts with an empty index and stores and loads in
  any order, whatever \<open>Lookup\<close> reports as a hit is an object of the bucket, and \<open>Load\<close> returns the
  promised number of its leading bytes.  As \<open>index_run\<close> says, a stored object is no larger than the
  gateway's limit and its hash is not that of an object of another length in the bucket: the identifier
  of an object is the hash of its bytes, and an object that overwrites a longer one breaks the promise.
\<close>

theorem every_hit_loads:
  assumes "s3_deployment R view lib base ssl gcfg gw cfg"
    and "obj = (\<lambda>c i. view (w_db (gw_world (gw (cl_net c)))) (data_key (sc_bucket cfg) i))"
    and "index_run lib cfg hash obj (cfg_max_object_bytes gcfg) pm0 pm" "prefix_map pm0 = []"
    and "cl_handle (storage pm0) = Not_created \<or> cl_handle (storage pm0) = Live_handle"
    and "0 < block_size pm" "int (length tokens) + block_size pm < 2 ^ 31"
    and "Lookup hash pm tokens max_len = Some (Inr r)" "lr_hit r"
  shows "\<exists>d data pm'. obj (storage pm) (lr_obj_id r) = Some d \<and>
    Load (S3Storage lib cfg) pm (lr_obj_id r) (lr_usable_len_bytes r) out = Inr (True, data, pm') \<and>
    data = take (nat (lr_usable_len_bytes r)) d \<and> int (length data) = lr_usable_len_bytes r"
  using s3_deployment.run_hit_loads [OF assms] .

theorem every_hit_loads_witness:
  "\<exists>pm r data pm'. Lookup demo_hash pm [''a'', ''b'', ''z''] 2 = Some (Inr r) \<and> lr_hit r \<and>
     Load (S3Storage demo_lib demo_S3Config) pm (lr_obj_id r) (lr_usable_len_bytes r) [] = Inr (True, data, pm') \<and>
     int (length data) = lr_usable_len_bytes r"
proof -
  let ?obj = "\<lambda>c i. map_of (w_db (gw_world (cl_net c))) (data_key (sc_bucket demo_S3Config) i)"
  obtain pm u where s: "Store (S3Storage demo_lib demo_S3Config) demo_hash 0 demo_index [''a'', ''b'', ''c'', ''d''] ''wxyz'' ''me'' 1 False =
      Some (Inr (HashBytesHex demo_hash ''wxyz'', pm))"
    and l: "Lookup demo_hash pm [''a'', ''b'', ''z''] 2 = Some (Inr \<lparr>lr_hit = True, lr_obj_id = HashBytesHex demo_hash ''wxyz'',
      lr_usable_len_bytes = u, lr_prefix_tokens = 2\<rparr>)"
    using s3_deployment.prefix_served [OF loopback_deployment demo_client_handle demo_index_sizes, where k = 1 and q = 2
        and tokens' = "[''a'', ''b'', ''z'']" and hash = demo_hash and now = 0 and owner_id = "''me''" and priority = 1 and out = "[]"]
    by (auto simp: demo_index_def demo_cfg_def)
  have "?obj (storage demo_index) (HashBytesHex demo_hash ''wxyz'') = None"
    using length_HashBytesHex [of demo_hash "''wxyz''"]
    by (auto simp: demo_index_def demo_client_def demo_gateway_def demo_world_def demo_db_def demo_S3Config_def key_lemmas)
  then have run: "index_run demo_lib demo_S3Config demo_hash ?obj (cfg_max_object_bytes demo_cfg) demo_index pm"
    by (intro index_store [OF index_start demo_index_sizes _ _ s]) (simp_all add: demo_cfg_def)
  have bs: "block_size pm = 2"
    using Store_block_size [OF demo_index_sizes s] by (simp add: demo_index_def)
  have "prefix_map demo_index = []" "0 < block_size pm" "int (length [''a'', ''b'', ''z'']) + block_size pm < 2 ^ 31"
    using bs by (simp_all add: demo_index_def)
  from every_hit_loads [OF loopback_deployment refl run this(1) demo_client_handle this(2,3) l, of "[]"]
  obtain data pm' where "Load (S3Storage demo_lib demo_S3Config) pm (HashBytesHex demo_hash ''wxyz'') u [] = Inr (True, data, pm')"
    "int (length data) = u" by auto
  with l show ?thesis
    by (intro exI [of _ pm] exI [of _ "\<lparr>lr_hit = True, lr_obj_id = HashBytesHex demo_hash ''wxyz'',
      lr_usable_len_bytes = u, lr_prefix_tokens = 2\<rparr>"] exI [of _ data] exI [of _ pm']) simp
qed

text \<open>
  C25: The command line program stores and loads across processes.  \<open>store\<close>, called with tokens, a
  data file no larger than the gateway's limit and without \<open>--s3-create-bucket\<close>, prints the identifier
  of the object; \<open>load\<close> of that identifier in a later process, with an \<open>--out-file\<close> that can be written,
  writes the data there, or their first \<open>--usable-len\<close> bytes when that is positive and the data are not
  empty.
\<close>

theorem cli_store_then_load:
  assumes "s3_deployment R view lib base ssl gcfg gw cfg"
    and "valid_call ''store'' o1 argv1" "co_s3 o1 = cfg" "get_arg argv1 ''--tokens'' \<noteq> []"
    and "get_arg argv1 ''--data-file'' \<noteq> []" "num_arg stoi argv1 ''--priority'' 0 = Some p"
    and "cw_files w (get_arg argv1 ''--data-file'') = Some d" "length d \<le> cfg_max_object_bytes gcfg" "0 < n \<longrightarrow> d \<noteq> []"
    and "sizes_ok (co_block_size o1) (co_bytes_per_token o1) (SplitTokens (get_arg argv1 ''--tokens'')) d"
    and "valid_call ''load'' o2 argv2" "co_s3 o2 = cfg" "get_arg argv2 ''--obj-id'' = HashBytesHex hash d"
    and "num_arg stoi argv2 ''--usable-len'' 0 = Some n" "get_arg argv2 ''--out-file'' = f" "f \<noteq> []" "cw_disk w f = (\<lambda>data. Some (True, data))"
  shows "\<exists>w1 m w2.
    index_main lib hash now argv1 w =
      Some (Inr (Exit 0 (''obj_id='' @ HashBytesHex hash d @ nl @ ''prefixes='' @ nat_to_dec m @ nl) [] w1)) \<and>
    index_main lib hash now' argv2 w1 = Some (Inr (Exit 0 (''wrote='' @ f @ nl) [] w2)) \<and>
    cw_files w2 f = Some (if 0 < n then take (nat n) d else d)"
  using s3_deployment.cli_store_load [OF assms] .

theorem cli_store_then_load_witness:
  "\<exists>w1 m w2.
    index_main demo_lib demo_hash 0 (demo_argv [''store'', ''--tokens'', ''A,B'', ''--data-file'', ''in''])
      \<lparr>cw_files = [''in'' \<mapsto> ''wxyz''], cw_disk = (\<lambda>_ data. Some (True, data)), cw_client = demo_client\<rparr> =
      Some (Inr (Exit 0 (''obj_id='' @ HashBytesHex demo_hash ''wxyz'' @ nl @ ''prefixes='' @ nat_to_dec m @ nl) [] w1)) \<and>
    index_main demo_lib demo_hash 1 (demo_argv [''load'', ''--obj-id'', HashBytesHex demo_hash ''wxyz'', ''--usable-len'', ''3'', ''--out-file'', ''out'']) w1 =
      Some (Inr (Exit 0 (''wrote='' @ ''out'' @ nl) [] w2)) \<and> cw_files w2 ''out'' = Some ''wxy''"
proof -
  let ?a1 = "demo_argv [''store'', ''--tokens'', ''A,B'', ''--data-file'', ''in'']"
    and ?a2 = "demo_argv [''load'', ''--obj-id'', HashBytesHex demo_hash ''wxyz'', ''--usable-len'', ''3'', ''--out-file'', ''out'']"
    and ?w = "\<lparr>cw_files = [''in'' \<mapsto> ''wxyz''], cw_disk = (\<lambda>_ data. Some (True, data)), cw_client = demo_client\<rparr>"
  have h: "HashBytesHex demo_hash ''wxyz'' = ''0000000000000004''" by code_simp
  have v: "valid_call ''store'' demo_opts ?a1" "valid_call ''load'' demo_opts ?a2" unfolding h by (simp_all add: demo_call_defs)
  have a: "get_arg ?a1 ''--tokens'' = ''A,B''" "get_arg ?a1 ''--data-file'' = ''in''" "num_arg stoi ?a1 ''--priority'' 0 = Some 0"
    "get_arg ?a2 ''--obj-id'' = HashBytesHex demo_hash ''wxyz''" "get_arg ?a2 ''--out-file'' = ''out''"
    unfolding h by (simp_all add: demo_argv_def get_arg_def num_arg_def)
  have "stoi ''3'' = Some 3" by code_simp
  then have n: "num_arg stoi ?a2 ''--usable-len'' 0 = Some 3" unfolding h by (simp add: demo_argv_def get_arg_def num_arg_def)
  have "SplitTokens ''A,B'' = [''A'', ''B'']" using SplitTokens_join [of "[''A'', ''B'']"] by (simp add: join_Cons)
  then have sz: "sizes_ok (co_block_size demo_opts) (co_bytes_per_token demo_opts) (SplitTokens (get_arg ?a1 ''--tokens'')) ''wxyz''"
    by (simp add: a demo_opts_def sizes_ok_def)
  show ?thesis
    using cli_store_then_load [OF loopback_deployment v(1) _ _ _ a(3) _ _ _ sz v(2) _ a(4) n a(5), of ?w 0 1] a(1,2)
    by (simp add: demo_opts_def demo_cfg_def eval_nat_numeral)
qed

end
